(* ===== verification/RD_Prelude.thy ===== *)
theory RD_Prelude
  imports Main "HOL-Library.Word" "HOL-Library.Sublist"
begin

text \<open>
  Shared vocabulary of the development.

  \<^item> The machine integers of the Rust sources (\<open>u8\<close>, \<open>u16\<close>, \<open>u32\<close>, \<open>u64\<close>) as words.
  \<^item> \<open>Poll<T>\<close> of \<^verbatim>\<open>std::task\<close> and the combinators of \<open>Result<T, E>\<close>; a result is a sum
    with the error on the left.
  \<^item> A Rust string is its sequence of UTF-8 bytes; HOL's \<^typ>\<open>char\<close> is a byte, so a
    string is a \<^typ>\<open>char list\<close>, and the string operations of \<^verbatim>\<open>std\<close> that the sources use
    (\<open>starts_with\<close>, \<open>ends_with\<close>, \<open>contains\<close>, \<open>strip_prefix\<close>, \<open>strip_suffix\<close>,
    \<open>rsplitn(2, c)\<close>, \<open>trim_end_matches\<close>) are list functions.
  \<^item> Printing a number in a radix and reading it back, the part of \<^verbatim>\<open>std::fmt\<close> and
    \<^verbatim>\<open>std::net::parser\<close> all address syntax rests on.

  The collection \<open>rd_str\<close> gathers the rewrite rules for strings.
\<close>

named_theorems rd_str \<open>rewrite rules for the string functions\<close>

type_synonym u8 = "8 word"
type_synonym u16 = "16 word"
type_synonym u32 = "32 word"
type_synonym u64 = "64 word"

section \<open>Poll and Result\<close>

datatype 'a poll = Ready 'a | Pending

fun and_then :: "'e + 'a \<Rightarrow> ('a \<Rightarrow> 'e + 'b) \<Rightarrow> 'e + 'b" where
  "and_then (Inl e) f = Inl e"
| "and_then (Inr x) f = f x"

fun map_ok :: "('a \<Rightarrow> 'b) \<Rightarrow> 'e + 'a \<Rightarrow> 'e + 'b" where
  "map_ok f (Inl e) = Inl e"
| "map_ok f (Inr x) = Inr (f x)"

fun map_err :: "('e \<Rightarrow> 'd) \<Rightarrow> 'e + 'a \<Rightarrow> 'd + 'a" where
  "map_err f (Inl e) = Inl (f e)"
| "map_err f (Inr x) = Inr x"

fun ok_or :: "'a option \<Rightarrow> 'e \<Rightarrow> 'e + 'a" where
  "ok_or None e = Inl e"
| "ok_or (Some x) e = Inr x"

fun is_ok :: "'e + 'a \<Rightarrow> bool" where
  "is_ok (Inl e) = False"
| "is_ok (Inr x) = True"

section \<open>Strings\<close>

definition starts_with :: "string \<Rightarrow> string \<Rightarrow> bool" where
  "starts_with s p \<longleftrightarrow> take (length p) s = p"

definition ends_with :: "string \<Rightarrow> string \<Rightarrow> bool" where
  "ends_with s p \<longleftrightarrow> starts_with (rev s) (rev p)"

fun contains_str :: "string \<Rightarrow> string \<Rightarrow> bool" where
  "contains_str [] p \<longleftrightarrow> p = []"
| "contains_str (c # s) p \<longleftrightarrow> starts_with (c # s) p \<or> contains_str s p"

definition strip_prefix :: "string \<Rightarrow> string \<Rightarrow> string option" where
  "strip_prefix s p = (if starts_with s p then Some (drop (length p) s) else None)"

definition strip_suffix :: "string \<Rightarrow> string \<Rightarrow> string option" where
  "strip_suffix s p = (if ends_with s p then Some (take (length s - length p) s) else None)"

definition trim_end_matches :: "char \<Rightarrow> string \<Rightarrow> string" where
  "trim_end_matches c s = rev (dropWhile (\<lambda>x. x = c) (rev s))"

text \<open>
  \<open>s.rsplitn(2, c)\<close>: the first item is what follows the last \<open>c\<close> (all of \<open>s\<close> when there
  is none), the second what precedes it (absent when there is none).
\<close>

definition rsplitn2 :: "char \<Rightarrow> string \<Rightarrow> string \<times> string option" where
  "rsplitn2 c s =
     (let r = rev s; tl_rev = takeWhile (\<lambda>x. x \<noteq> c) r; rest = dropWhile (\<lambda>x. x \<noteq> c) r
      in (rev tl_rev, case rest of [] \<Rightarrow> None | _ # h \<Rightarrow> Some (rev h)))"

fun join_str :: "string \<Rightarrow> string list \<Rightarrow> string" where
  "join_str sep [] = []"
| "join_str sep [s] = s"
| "join_str sep (s # t # ss) = s @ sep @ join_str sep (t # ss)"

section \<open>Digits and numbers\<close>

text \<open>\<open>char::to_digit(radix)\<close> for radices up to 36.\<close>

definition to_digit :: "nat \<Rightarrow> char \<Rightarrow> nat option" where
  "to_digit radix c =
     (let n = (of_char c :: nat);
          d = (if 48 \<le> n \<and> n \<le> 57 then n - 48
               else if 97 \<le> n \<and> n \<le> 122 then n - 87
               else if 65 \<le> n \<and> n \<le> 90 then n - 55
               else 36)
      in if d < radix \<and> d < 36 then Some d else None)"

definition digit_char :: "nat \<Rightarrow> char" where
  "digit_char d = (if d < 10 then char_of (48 + d) else char_of (87 + d))"

text \<open>\<open>{}\<close> and \<open>{:x}\<close> of an unsigned integer: no sign, no leading zeros, lower case.\<close>

fun show_radix :: "nat \<Rightarrow> nat \<Rightarrow> string" where
  "show_radix r n =
     (if r < 2 \<or> n < r then [digit_char n] else show_radix r (n div r) @ [digit_char (n mod r)])"

declare show_radix.simps [simp del]

text \<open>The digit loop of the number parsers: value, number of digits read, rest of the input.\<close>

fun read_digits :: "nat \<Rightarrow> nat \<Rightarrow> nat \<Rightarrow> string \<Rightarrow> nat \<times> nat \<times> string" where
  "read_digits r acc k [] = (acc, k, [])"
| "read_digits r acc k (c # s) =
     (case to_digit r c of
        Some d \<Rightarrow> read_digits r (acc * r + d) (k + 1) s
      | None \<Rightarrow> (acc, k, c # s))"

text \<open>\<open>str::parse\<close> to an unsigned integer with \<open>bound\<close> values: an optional plus sign, then
  decimal digits only, at least one, and no overflow.\<close>

definition parse_unsigned :: "nat \<Rightarrow> string \<Rightarrow> nat option" where
  "parse_unsigned bound s =
     (let t = (case s of c # s' \<Rightarrow> if c = CHR ''+'' then s' else s | [] \<Rightarrow> [])
      in case read_digits 10 0 0 t of
           (v, k, rest) \<Rightarrow> if k = 0 \<or> rest \<noteq> [] \<or> bound \<le> v then None else Some v)"

section \<open>Lemmas\<close>

subsection \<open>Words\<close>

lemma unat_u8_less: "unat (w :: u8) < 256"
  using unsigned_less [of w] by simp

lemma unat_u16_less: "unat (w :: u16) < 65536"
  using unsigned_less [of w] by simp

lemma unat_u32_less: "unat (w :: u32) < 2 ^ 32"
  using unsigned_less [of w] by simp

subsection \<open>Result combinators\<close>

lemma and_then_assoc:
  "and_then (and_then r f) g = and_then r (\<lambda>x. and_then (f x) g)"
  by (cases r) simp_all

lemma and_then_Inr_iff:
  "and_then r f = Inr y \<longleftrightarrow> (\<exists>x. r = Inr x \<and> f x = Inr y)"
  by (cases r) simp_all

lemma map_err_Inr_iff: "map_err f r = Inr y \<longleftrightarrow> r = Inr y"
  by (cases r) auto

lemma map_ok_Inr_iff: "map_ok f r = Inr y \<longleftrightarrow> (\<exists>x. r = Inr x \<and> y = f x)"
  by (cases r) auto

lemma is_ok_iff: "is_ok r \<longleftrightarrow> (\<exists>x. r = Inr x)"
  by (cases r) auto

subsection \<open>String functions against the list library\<close>

lemma starts_with_prefix: "starts_with s p \<longleftrightarrow> prefix p s"
  unfolding starts_with_def prefix_def
  by (metis append_eq_conv_conj append_take_drop_id)

lemma ends_with_suffix: "ends_with s p \<longleftrightarrow> suffix p s"
  by (simp add: ends_with_def starts_with_prefix suffix_to_prefix)

lemma contains_str_sublist: "contains_str s p \<longleftrightarrow> sublist p s"
  by (induction s) (auto simp: starts_with_prefix sublist_Cons_right)

lemma strip_prefix_Some: "strip_prefix s p = Some t \<longleftrightarrow> s = p @ t"
  by (auto simp: strip_prefix_def starts_with_prefix prefix_def)

lemma strip_suffix_Some: "strip_suffix s p = Some t \<longleftrightarrow> s = t @ p"
  by (auto simp: strip_suffix_def ends_with_suffix suffix_def)

lemma rsplitn2_append:
  "c \<notin> set t \<Longrightarrow> rsplitn2 c (h @ c # t) = (t, Some h)"
  by (simp add: rsplitn2_def takeWhile_append dropWhile_append)

lemma rsplitn2_none: "c \<notin> set s \<Longrightarrow> rsplitn2 c s = (s, None)"
proof -
  assume a: "c \<notin> set s"
  then have "takeWhile (\<lambda>x. x \<noteq> c) (rev s) = rev s" "dropWhile (\<lambda>x. x \<noteq> c) (rev s) = []"
    by (auto simp: takeWhile_eq_all_conv)
  then show ?thesis
    by (simp add: rsplitn2_def Let_def del: takeWhile_eq_all_conv dropWhile_eq_Nil_conv)
qed

lemma rsplitn2_Some:
  assumes "rsplitn2 c s = (t, Some h)"
  shows "s = h @ c # t \<and> c \<notin> set t"
proof (cases "c \<in> set s")
  case False
  with assms show ?thesis by (simp add: rsplitn2_none)
next
  case True
  then obtain h' t' where "s = h' @ c # t'" "c \<notin> set t'"
    by (meson split_list_last)
  with assms show ?thesis by (simp add: rsplitn2_append)
qed

lemma trim_end_matches_idem [simp]:
  "trim_end_matches c (trim_end_matches c s) = trim_end_matches c s"
  by (simp add: trim_end_matches_def dropWhile_idem)

lemma trim_end_matches_last: "trim_end_matches c s = [] \<or> last (trim_end_matches c s) \<noteq> c"
proof (cases "dropWhile (\<lambda>x. x = c) (rev s)")
  case Nil
  then show ?thesis by (simp add: trim_end_matches_def)
next
  case (Cons x xs)
  then have "x \<noteq> c" by (simp add: dropWhile_eq_Cons_conv)
  with Cons show ?thesis by (simp add: trim_end_matches_def)
qed

subsection \<open>Printing and reading numbers\<close>

lemma of_char_char_of_small: "n < 256 \<Longrightarrow> (of_char (char_of n) :: nat) = n"
  by simp

lemma to_digit_digit_char:
  assumes "d < r" "r \<le> 36"
  shows "to_digit r (digit_char d) = Some d"
  using assms by (auto simp: to_digit_def digit_char_def Let_def)

lemma to_digit_less: "to_digit r c = Some d \<Longrightarrow> d < r"
  by (auto simp: to_digit_def Let_def split: if_splits)

lemma digit_char_0_iff: "d < 36 \<Longrightarrow> digit_char d = CHR ''0'' \<longleftrightarrow> d = 0"
proof -
  assume d: "d < 36"
  have "digit_char d = CHR ''0'' \<longleftrightarrow> (of_char (digit_char d) :: nat) = of_char (CHR ''0'')"
    by (simp only: of_char_eq_iff)
  also have "\<dots> \<longleftrightarrow> d = 0" using d by (auto simp: digit_char_def)
  finally show ?thesis .
qed

lemma read_digits_append_digits:
  "list_all (\<lambda>c. to_digit r c \<noteq> None) xs \<Longrightarrow>
   read_digits r acc k (xs @ ys) =
     read_digits r (foldl (\<lambda>a c. a * r + the (to_digit r c)) acc xs) (k + length xs) ys"
  by (induction xs arbitrary: acc k) (auto split: option.splits)

lemma read_digits_stop:
  "(\<forall>c s. ys = c # s \<longrightarrow> to_digit r c = None) \<Longrightarrow> read_digits r acc k ys = (acc, k, ys)"
  by (cases ys) auto

lemma show_radix_digits:
  "2 \<le> r \<Longrightarrow> r \<le> 36 \<Longrightarrow> list_all (\<lambda>c. to_digit r c \<noteq> None) (show_radix r n)"
  by (induction r n rule: show_radix.induct)
     (subst show_radix.simps, auto simp: to_digit_digit_char)

lemma show_radix_value:
  "2 \<le> r \<Longrightarrow> r \<le> 36 \<Longrightarrow>
   foldl (\<lambda>a c. a * r + the (to_digit r c)) acc (show_radix r n) =
     acc * r ^ length (show_radix r n) + n"
proof (induction r n rule: show_radix.induct)
  case (1 r n)
  show ?case
  proof (cases "n < r")
    case True
    with 1 show ?thesis by (simp add: show_radix.simps [of r n] to_digit_digit_char)
  next
    case False
    with 1 have IH: "foldl (\<lambda>a c. a * r + the (to_digit r c)) acc (show_radix r (n div r)) =
        acc * r ^ length (show_radix r (n div r)) + n div r" by simp
    have "n mod r < r" using 1 by simp
    moreover have "acc * r ^ l * r + n div r * r + n mod r = acc * (r * r ^ l) + n" for l
      by (simp add: mult.assoc mult.commute)
    ultimately show ?thesis using IH False 1
      by (simp add: show_radix.simps [of r n] to_digit_digit_char add_mult_distrib)
  qed
qed

lemma show_radix_nonempty [simp]: "show_radix r n \<noteq> []"
  by (subst show_radix.simps) simp

lemma show_radix_length:
  "2 \<le> r \<Longrightarrow> n < r ^ Suc k \<Longrightarrow> length (show_radix r n) \<le> Suc k"
proof (induction k arbitrary: n)
  case 0
  then show ?case by (simp add: show_radix.simps [of r n])
next
  case (Suc k)
  have "n div r < r ^ Suc k"
    using Suc.prems by (metis less_mult_imp_div_less power_Suc mult.commute)
  with Suc.IH Suc.prems have "length (show_radix r (n div r)) \<le> Suc k" by simp
  then show ?case by (subst show_radix.simps) auto
qed

lemma show_radix_leading_zero:
  "2 \<le> r \<Longrightarrow> r \<le> 36 \<Longrightarrow> hd (show_radix r n) = CHR ''0'' \<Longrightarrow> length (show_radix r n) = 1"
proof (induction r n rule: show_radix.induct)
  case (1 r n)
  show ?case
  proof (cases "n < r")
    case True
    then show ?thesis by (simp add: show_radix.simps [of r n])
  next
    case False
    then have eq: "show_radix r n = show_radix r (n div r) @ [digit_char (n mod r)]"
      using 1(2) by (simp add: show_radix.simps [of r n])
    with 1 False have "length (show_radix r (n div r)) = 1" and
      h: "hd (show_radix r (n div r)) = CHR ''0''" by auto
    then have lt: "n div r < r"
      using 1(2) by (subst (asm) show_radix.simps) (auto split: if_splits)
    with h 1(2,3) have "n div r = 0"
      by (simp add: show_radix.simps [of r "n div r"] digit_char_0_iff)
    with False 1(2) show ?thesis by (simp add: div_eq_0_iff)
  qed
qed

lemma show_radix_set:
  "2 \<le> r \<Longrightarrow> r \<le> 36 \<Longrightarrow> c \<in> set (show_radix r n) \<Longrightarrow> to_digit r c \<noteq> None"
  using show_radix_digits [of r n] by (auto simp: list_all_iff)

lemma show_radix_no_char:
  "2 \<le> r \<Longrightarrow> r \<le> 36 \<Longrightarrow> to_digit r c = None \<Longrightarrow> c \<notin> set (show_radix r n)"
  using show_radix_set by blast

lemma read_digits_show_radix:
  assumes "2 \<le> r" "r \<le> 36" and "\<forall>c s. ys = c # s \<longrightarrow> to_digit r c = None"
  shows "read_digits r 0 0 (show_radix r n @ ys) = (n, length (show_radix r n), ys)"
  using assms
  by (simp add: read_digits_append_digits [OF show_radix_digits] show_radix_value read_digits_stop)

lemma show_radix_hd_not_plus: "hd (show_radix 10 n) \<noteq> CHR ''+''"
proof
  assume "hd (show_radix 10 n) = CHR ''+''"
  then have "CHR ''+'' \<in> set (show_radix 10 n)" by (metis hd_in_set show_radix_nonempty)
  moreover have "to_digit 10 (CHR ''+'') = None" by (simp add: to_digit_def)
  ultimately show False using show_radix_no_char [of 10] by simp
qed

lemma parse_unsigned_show: "n < bound \<Longrightarrow> parse_unsigned bound (show_radix 10 n) = Some n"
proof -
  assume n: "n < bound"
  obtain c s where cs: "show_radix 10 n = c # s" by (metis show_radix_nonempty neq_Nil_conv)
  with show_radix_hd_not_plus [of n] have "c \<noteq> CHR ''+''" by simp
  moreover have "read_digits 10 0 0 (show_radix 10 n) = (n, length (show_radix 10 n), [])"
    using read_digits_show_radix [of 10 "[]" n] by simp
  ultimately show ?thesis using n cs by (simp add: parse_unsigned_def)
qed

end
