(* ===== verification/RD_Error.thy ===== *)
theory RD_Error
  imports RD_Prelude
begin

text \<open>
  Errors of the program, after \<^verbatim>\<open>rd-interface/src/error.rs\<close>.

  The variants of \<open>Error\<close> are the constructors of \<open>error\<close>; an \<open>io::Error\<close> is a kind with an
  optional message or an inner \<open>Error\<close> (\<open>io::Error::new(kind, e)\<close> boxes any error). The
  errors of other crates (serde's, the boxed \<open>dyn Error\<close> of \<open>Other\<close>) are kept as the text
  they carry. The text of foreign errors under \<open>{:?}\<close> is not fixed by the sources, so
  \<open>display_error\<close> takes the two debug printers as arguments.
\<close>

datatype io_kind =
    AddrNotAvailable | AddrInUse | ConnectionAborted | ConnectionRefused | BrokenPipe
  | InvalidData | InvalidInput | KindNotFound | WriteZero | WouldBlock | UnexpectedEof | KindOther

text \<open>\<open>context::Error\<close> of \<^verbatim>\<open>rd-interface/src/context.rs\<close>.\<close>

datatype context_error = Serde string | NonExist | BadFormat

datatype io_error = IoSimple io_kind | IoCustom io_kind string | IoBoxed io_kind error
  and error =
    IO io_error
  | NotMatched
  | NotEnabled
  | NotImplemented
  | Config string
  | AbortedByUser
  | ContextError context_error
  | NotFound string
  | Other string
  | WithContext string error
  | Timeout

fun io_error_kind :: "io_error \<Rightarrow> io_kind" where
  "io_error_kind (IoSimple k) = k"
| "io_error_kind (IoCustom k _) = k"
| "io_error_kind (IoBoxed k _) = k"

text \<open>The \<open>Display\<close> of \<open>Error\<close> (derived from the \<open>#[error]\<close> attributes) and of
  \<open>ErrorWithContext\<close>.\<close>

fun display_error :: "(io_error \<Rightarrow> string) \<Rightarrow> (string \<Rightarrow> string) \<Rightarrow> error \<Rightarrow> string" where
  "display_error dbg_io dbg_str (IO e) = ''IO error: '' @ dbg_io e"
| "display_error dbg_io dbg_str NotMatched = ''Not matched''"
| "display_error dbg_io dbg_str NotEnabled = ''Not enabled in config''"
| "display_error dbg_io dbg_str NotImplemented = ''Not implemented''"
| "display_error dbg_io dbg_str (Config s) = ''Config error: '' @ s"
| "display_error dbg_io dbg_str AbortedByUser = ''Aborted by user''"
| "display_error dbg_io dbg_str (ContextError e) =
     ''Context error: '' @ (case e of Serde s \<Rightarrow> ''Serde('' @ s @ '')'' | NonExist \<Rightarrow> ''NonExist''
                           | BadFormat \<Rightarrow> ''BadFormat'')"
| "display_error dbg_io dbg_str (NotFound s) = ''Not found: '' @ s"
| "display_error dbg_io dbg_str (Other s) = dbg_str s"
| "display_error dbg_io dbg_str (WithContext c e) =
     c @ ''\<newline>Caused by:\<newline>'' @ display_error dbg_io dbg_str e"
| "display_error dbg_io dbg_str Timeout = ''Operation timeout: Elapsed(())''"

definition is_aborted :: "error \<Rightarrow> bool" where
  "is_aborted e \<longleftrightarrow> (case e of AbortedByUser \<Rightarrow> True | _ \<Rightarrow> False)"

definition is_addr_in_use :: "error \<Rightarrow> bool" where
  "is_addr_in_use e \<longleftrightarrow> (case e of IO i \<Rightarrow> io_error_kind i = AddrInUse | _ \<Rightarrow> False)"

definition to_io_err :: "error \<Rightarrow> io_error" where
  "to_io_err e = (case e of IO i \<Rightarrow> i | _ \<Rightarrow> IoBoxed KindOther e)"

text \<open>\<open>ErrorContext::context\<close> and \<open>with_context\<close> on a result whose error is already an
  \<open>Error\<close>; an error that is not passes through \<open>IO\<close> first.\<close>

definition err_context :: "string \<Rightarrow> error + 'a \<Rightarrow> error + 'a" where
  "err_context c r = map_err (WithContext c) r"

fun root_cause :: "error \<Rightarrow> error" where
  "root_cause (WithContext _ e) = root_cause e"
| "root_cause e = e"

lemma err_context_simps [simp]:
  "err_context c (Inl e) = Inl (WithContext c e)"
  "err_context c (Inr x) = Inr x"
  by (simp_all add: err_context_def)

lemma err_context_Inr_iff [simp]: "err_context c r = Inr x \<longleftrightarrow> r = Inr x"
  by (cases r) simp_all

lemma to_io_err_IO [simp]: "to_io_err (IO i) = i"
  by (simp add: to_io_err_def)

lemma to_io_err_kind:
  "io_error_kind (to_io_err e) = (case e of IO i \<Rightarrow> io_error_kind i | _ \<Rightarrow> KindOther)"
  by (cases e) (simp_all add: to_io_err_def)

lemma display_contexts:
  "display_error d s (foldr WithContext cs e) =
     concat (map (\<lambda>c. c @ ''\<newline>Caused by:\<newline>'') cs) @ display_error d s e"
  by (induction cs) simp_all

end
