(* ===== verification/RD_CopyTcp.thy ===== *)
theory RD_CopyTcp
  imports RD_Error
begin

text \<open>
  The TCP relay of \<^verbatim>\<open>rd-std/src/context/connect_tcp.rs\<close>: \<open>CopyBuffer::poll_copy\<close>,
  \<open>transfer_one_direction\<close> and the future \<open>CopyBidirectional\<close>.

  A stream (\<open>AsyncRead + AsyncWrite\<close>) is what it will answer: a list of answers for each of its
  four poll functions, consumed as they are called, with everything that was read from it,
  whether its end was seen, and everything that was written to it recorded. When the answers run out it is pending. A read delivers at most the
  room it is given (the rest stays for the next read), and no bytes means end of file; a write
  accepts at most what it is given. All behaviours of a peer within and between polls are
  covered by quantifying over the lists.

  A call that would never return is \<open>None\<close>. The theorems show that every poll returns, that
  nothing is lost, repeated or reordered in either direction, and what a completed copy means.
\<close>

section \<open>Streams\<close>

datatype 'a answer = APending | AOk 'a | AErr io_error

record stream =
  rd_script :: "u8 list answer list"
  wr_script :: "nat answer list"
  fl_script :: "unit answer list"
  sh_script :: "unit answer list"
  consumed :: "u8 list"
  eof :: bool
  written :: "u8 list"

definition poll_read :: "nat \<Rightarrow> stream \<Rightarrow> (io_error + u8 list) poll \<times> stream" where
  "poll_read room st =
     (case rd_script st of
        [] \<Rightarrow> (Pending, st)
      | APending # as \<Rightarrow> (Pending, st\<lparr>rd_script := as\<rparr>)
      | AErr e # as \<Rightarrow> (Ready (Inl e), st\<lparr>rd_script := as\<rparr>)
      | AOk bs # as \<Rightarrow>
          (Ready (Inr (take room bs)),
           st\<lparr>rd_script := (if length bs \<le> room then as else AOk (drop room bs) # as),
              consumed := consumed st @ take room bs, eof := eof st \<or> take room bs = []\<rparr>))"

definition poll_write :: "u8 list \<Rightarrow> stream \<Rightarrow> (io_error + nat) poll \<times> stream" where
  "poll_write bs st =
     (case wr_script st of
        [] \<Rightarrow> (Pending, st)
      | APending # as \<Rightarrow> (Pending, st\<lparr>wr_script := as\<rparr>)
      | AErr e # as \<Rightarrow> (Ready (Inl e), st\<lparr>wr_script := as\<rparr>)
      | AOk n # as \<Rightarrow>
          (Ready (Inr (min n (length bs))),
           st\<lparr>wr_script := as, written := written st @ take n bs\<rparr>))"

definition poll_flush :: "stream \<Rightarrow> (io_error + unit) poll \<times> stream" where
  "poll_flush st =
     (case fl_script st of
        [] \<Rightarrow> (Pending, st)
      | APending # as \<Rightarrow> (Pending, st\<lparr>fl_script := as\<rparr>)
      | AErr e # as \<Rightarrow> (Ready (Inl e), st\<lparr>fl_script := as\<rparr>)
      | AOk _ # as \<Rightarrow> (Ready (Inr ()), st\<lparr>fl_script := as\<rparr>))"

definition poll_shutdown :: "stream \<Rightarrow> (io_error + unit) poll \<times> stream" where
  "poll_shutdown st =
     (case sh_script st of
        [] \<Rightarrow> (Pending, st)
      | APending # as \<Rightarrow> (Pending, st\<lparr>sh_script := as\<rparr>)
      | AErr e # as \<Rightarrow> (Ready (Inl e), st\<lparr>sh_script := as\<rparr>)
      | AOk _ # as \<Rightarrow> (Ready (Inr ()), st\<lparr>sh_script := as\<rparr>))"

section \<open>CopyBuffer\<close>

record copy_buffer =
  read_done :: bool
  need_flush :: bool
  pos :: nat
  cap :: nat
  amt :: u64
  buf :: "u8 list"

definition copy_buffer_new :: "nat \<Rightarrow> copy_buffer" where
  "copy_buffer_new buffer_size =
     \<lparr>read_done = False, need_flush = False, pos = 0, cap = 0, amt = 0, buf = replicate buffer_size 0\<rparr>"

type_synonym copy_result = "(io_error + u64) poll"

definition write_zero :: io_error where
  "write_zero = IoCustom WriteZero ''write zero byte into writer''"

text \<open>The read part of the loop: \<open>Some r\<close> is a return from \<open>poll_copy\<close>.\<close>

definition copy_fill ::
  "copy_buffer \<Rightarrow> stream \<Rightarrow> stream \<Rightarrow> copy_result option \<times> copy_buffer \<times> stream \<times> stream" where
  "copy_fill cb r w =
     (if pos cb = cap cb \<and> \<not> read_done cb then
        (case poll_read (length (buf cb)) r of
           (Ready (Inl e), r') \<Rightarrow> (Some (Ready (Inl e)), cb, r', w)
         | (Pending, r') \<Rightarrow>
             if need_flush cb then
               (case poll_flush w of
                  (Pending, w') \<Rightarrow> (Some Pending, cb, r', w')
                | (Ready (Inl e), w') \<Rightarrow> (Some (Ready (Inl e)), cb, r', w')
                | (Ready (Inr _), w') \<Rightarrow> (Some Pending, cb\<lparr>need_flush := False\<rparr>, r', w'))
             else (Some Pending, cb, r', w)
         | (Ready (Inr bs), r') \<Rightarrow>
             let cb' = cb\<lparr>buf := bs @ drop (length bs) (buf cb)\<rparr>; n = length bs
             in if n = 0 then (None, cb'\<lparr>read_done := True\<rparr>, r', w)
                else (None, cb'\<lparr>pos := 0, cap := n\<rparr>, r', w))
      else (None, cb, r, w))"

text \<open>The inner loop that writes the buffer out.\<close>

function copy_drain ::
  "copy_buffer \<Rightarrow> stream \<Rightarrow> copy_result option \<times> copy_buffer \<times> stream" where
  "copy_drain cb w =
     (if pos cb < cap cb then
        (case poll_write (take (cap cb - pos cb) (drop (pos cb) (buf cb))) w of
           (Pending, w') \<Rightarrow> (Some Pending, cb, w')
         | (Ready (Inl e), w') \<Rightarrow> (Some (Ready (Inl e)), cb, w')
         | (Ready (Inr i), w') \<Rightarrow>
             if i = 0 then (Some (Ready (Inl write_zero)), cb, w')
             else copy_drain
                    (cb\<lparr>pos := pos cb + i, amt := amt cb + of_nat i, need_flush := True\<rparr>) w')
      else (None, cb, w))"
  by pat_completeness auto
termination
  by (relation "measure (\<lambda>(cb, w). cap cb - pos cb)") auto

declare copy_drain.simps [simp del]

text \<open>The bytes a stream has still to answer with, as a measure of the outer loop.\<close>

definition rd_size :: "stream \<Rightarrow> nat" where
  "rd_size st =
     sum_list (map (\<lambda>a. case a of AOk bs \<Rightarrow> 1 + length bs | _ \<Rightarrow> 1) (rd_script st))"

lemma poll_read_size:
  assumes "poll_read room st = (Ready (Inr bs), st')" "bs \<noteq> []"
  shows "rd_size st' < rd_size st"
  using assms by (auto simp: poll_read_def rd_size_def split: list.splits answer.splits)

lemma copy_fill_size:
  assumes "copy_fill cb r w = (None, cb', r', w')" "\<not> read_done cb'"
  shows "rd_size r' < rd_size r \<or> (cb' = cb \<and> r' = r \<and> pos cb \<noteq> cap cb)"
  using assms
  by (auto simp: copy_fill_def Let_def dest: poll_read_size
      split: if_splits prod.splits poll.splits sum.splits)

lemma copy_drain_read_done:
  "copy_drain cb w = (res, cb', w') \<Longrightarrow> read_done cb' = read_done cb"
  by (induction cb w rule: copy_drain.induct)
     (subst (asm) (2) copy_drain.simps, auto split: if_splits prod.splits poll.splits sum.splits)

text \<open>\<open>poll_copy\<close>. The loop never ends when the position is beyond the capacity: \<open>None\<close>.\<close>

function poll_copy ::
  "copy_buffer \<Rightarrow> stream \<Rightarrow> stream \<Rightarrow> (copy_result \<times> copy_buffer \<times> stream \<times> stream) option" where
  "poll_copy cb r w =
     (case copy_fill cb r w of
        (Some res, cb1, r1, w1) \<Rightarrow> Some (res, cb1, r1, w1)
      | (None, cb1, r1, w1) \<Rightarrow>
          (case copy_drain cb1 w1 of
             (Some res, cb2, w2) \<Rightarrow> Some (res, cb2, r1, w2)
           | (None, cb2, w2) \<Rightarrow>
               if pos cb2 \<noteq> cap cb2 then None
               else if read_done cb2 then
                 (case poll_flush w2 of
                    (Pending, w3) \<Rightarrow> Some (Pending, cb2, r1, w3)
                  | (Ready (Inl e), w3) \<Rightarrow> Some (Ready (Inl e), cb2, r1, w3)
                  | (Ready (Inr _), w3) \<Rightarrow> Some (Ready (Inr (amt cb2)), cb2, r1, w3))
               else poll_copy cb2 r1 w2))"
  by pat_completeness auto
termination
proof (relation "measures [\<lambda>(cb, r, w). rd_size r, \<lambda>(cb, r, w). if pos cb = cap cb then 0 else 1]",
    goal_cases)
  case 1
  then show ?case by simp
next
  case (2 cb r w x1 x2 cb1 x3 r1 w1 y1 y2 cb2 w2)
  then have f: "copy_fill cb r w = (None, cb1, r1, w1)" and d: "copy_drain cb1 w1 = (None, cb2, w2)"
    and n: "pos cb2 = cap cb2" "\<not> read_done cb2"
    by simp_all
  have "\<not> read_done cb1" using copy_drain_read_done [OF d] n(2) by simp
  from copy_fill_size [OF f this] n(1) show ?case by auto
qed

declare poll_copy.simps [simp del]

section \<open>Both directions\<close>

datatype transfer_state = Running copy_buffer | ShuttingDown u64 | Done u64

fun transfer_rank :: "transfer_state \<Rightarrow> nat" where
  "transfer_rank (Running _) = 2"
| "transfer_rank (ShuttingDown _) = 1"
| "transfer_rank (Done _) = 0"

function transfer_one_direction ::
  "transfer_state \<Rightarrow> stream \<Rightarrow> stream \<Rightarrow> (copy_result \<times> transfer_state \<times> stream \<times> stream) option" where
  "transfer_one_direction (Running cb) r w =
     (case poll_copy cb r w of
        None \<Rightarrow> None
      | Some (Pending, cb', r', w') \<Rightarrow> Some (Pending, Running cb', r', w')
      | Some (Ready (Inl e), cb', r', w') \<Rightarrow> Some (Ready (Inl e), Running cb', r', w')
      | Some (Ready (Inr count), cb', r', w') \<Rightarrow> transfer_one_direction (ShuttingDown count) r' w')"
| "transfer_one_direction (ShuttingDown count) r w =
     (case poll_shutdown w of
        (Pending, w') \<Rightarrow> Some (Pending, ShuttingDown count, r, w')
      | (Ready (Inl e), w') \<Rightarrow> Some (Ready (Inl e), ShuttingDown count, r, w')
      | (Ready (Inr _), w') \<Rightarrow> transfer_one_direction (Done count) r w')"
| "transfer_one_direction (Done count) r w = Some (Ready (Inr count), Done count, r, w)"
  by pat_completeness auto
termination
  by (relation "measure (\<lambda>(st, r, w). transfer_rank st)") auto

record copy_bidirectional =
  side_a :: stream
  side_b :: stream
  a_to_b :: transfer_state
  b_to_a :: transfer_state

definition copy_bidirectional_new :: "stream \<Rightarrow> stream \<Rightarrow> copy_bidirectional" where
  "copy_bidirectional_new a b =
     \<lparr>side_a = a, side_b = b, a_to_b = Running (copy_buffer_new 8192),
      b_to_a = Running (copy_buffer_new 8192)\<rparr>"

text \<open>\<open>CopyBidirectional::poll\<close>: an error of the first direction returns before the second one
  is polled.\<close>

definition bidi_poll :: "copy_bidirectional \<Rightarrow> ((io_error + unit) poll \<times> copy_bidirectional) option" where
  "bidi_poll c =
     (case transfer_one_direction (a_to_b c) (side_a c) (side_b c) of
        None \<Rightarrow> None
      | Some (Ready (Inl e), st, a, b) \<Rightarrow> Some (Ready (Inl e), c\<lparr>side_a := a, side_b := b, a_to_b := st\<rparr>)
      | Some (r1, st1, a, b) \<Rightarrow>
          (case transfer_one_direction (b_to_a c) b a of
             None \<Rightarrow> None
           | Some (Ready (Inl e), st2, b', a') \<Rightarrow>
               Some (Ready (Inl e), \<lparr>side_a = a', side_b = b', a_to_b = st1, b_to_a = st2\<rparr>)
           | Some (r2, st2, b', a') \<Rightarrow>
               Some (case (r1, r2) of (Pending, Pending) \<Rightarrow> Pending | _ \<Rightarrow> Ready (Inr ()),
                     \<lparr>side_a = a', side_b = b', a_to_b = st1, b_to_a = st2\<rparr>)))"

text \<open>The future polled up to \<open>k\<close> times: it stops at the first result.\<close>

fun bidi_run :: "nat \<Rightarrow> copy_bidirectional \<Rightarrow> ((io_error + unit) poll \<times> copy_bidirectional) option" where
  "bidi_run 0 c = Some (Pending, c)"
| "bidi_run (Suc k) c =
     (case bidi_poll c of
        None \<Rightarrow> None
      | Some (Pending, c') \<Rightarrow> bidi_run k c'
      | Some (Ready r, c') \<Rightarrow> Some (Ready r, c'))"

section \<open>What one call does to a stream\<close>

lemma poll_read_spec:
  assumes "poll_read room st = (res, st')"
  shows "written st' = written st"
    and "consumed st' = consumed st @ (case res of Ready (Inr bs) \<Rightarrow> bs | _ \<Rightarrow> [])"
    and "res = Ready (Inr bs) \<Longrightarrow> length bs \<le> room"
    and "eof st' \<longleftrightarrow> eof st \<or> res = Ready (Inr [])"
  using assms by (auto simp: poll_read_def split: list.splits answer.splits)

lemma poll_write_spec:
  assumes "poll_write bs st = (res, st')"
  shows "consumed st' = consumed st" and "eof st' = eof st"
    and "written st' = written st @ (case res of Ready (Inr n) \<Rightarrow> take n bs | _ \<Rightarrow> [])"
    and "res = Ready (Inr n) \<Longrightarrow> n \<le> length bs"
  using assms by (auto simp: poll_write_def min_def split: list.splits answer.splits)

lemma poll_flush_spec:
  assumes "poll_flush st = (res, st')"
  shows "written st' = written st" "consumed st' = consumed st" "eof st' = eof st"
  using assms by (auto simp: poll_flush_def split: list.splits answer.splits)

lemma poll_shutdown_spec:
  assumes "poll_shutdown st = (res, st')"
  shows "written st' = written st" "consumed st' = consumed st" "eof st' = eof st"
  using assms by (auto simp: poll_shutdown_def split: list.splits answer.splits)

section \<open>The invariant of one direction\<close>

text \<open>The bytes read and not yet written.\<close>

definition in_buffer :: "copy_buffer \<Rightarrow> u8 list" where
  "in_buffer cb = take (cap cb - pos cb) (drop (pos cb) (buf cb))"

text \<open>Since the copy began with \<open>c0\<close> consumed and \<open>w0\<close> written: what was written is what was
  consumed, less the bytes in the buffer, and the count is its length.\<close>

definition copied :: "nat \<Rightarrow> u8 list \<Rightarrow> u8 list \<Rightarrow> copy_buffer \<Rightarrow> stream \<Rightarrow> stream \<Rightarrow> bool" where
  "copied N c0 w0 cb r w \<longleftrightarrow>
     pos cb \<le> cap cb \<and> cap cb \<le> N \<and> length (buf cb) = N \<and> (read_done cb \<longrightarrow> eof r) \<and>
     (\<exists>X. written w = w0 @ X \<and> consumed r = c0 @ X @ in_buffer cb \<and> amt cb = of_nat (length X))"

text \<open>A call that reads \<open>r\<close> and writes \<open>w\<close> leaves the other halves of the streams alone.\<close>

definition frame :: "stream \<Rightarrow> stream \<Rightarrow> stream \<Rightarrow> stream \<Rightarrow> bool" where
  "frame r w r' w' \<longleftrightarrow> written r' = written r \<and> consumed w' = consumed w \<and> eof w' = eof w"

lemma frame_refl [simp]: "frame r w r w"
  by (simp add: frame_def)

lemma frame_trans: "frame r w r1 w1 \<Longrightarrow> frame r1 w1 r2 w2 \<Longrightarrow> frame r w r2 w2"
  by (simp add: frame_def)

lemma in_buffer_cong: "in_buffer (cb\<lparr>need_flush := b\<rparr>) = in_buffer cb"
  by (simp add: in_buffer_def)

lemma copied_flush:
  assumes "copied N c0 w0 cb r w" "poll_flush w = (res, w')"
  shows "copied N c0 w0 cb r w'" "copied N c0 w0 (cb\<lparr>need_flush := b\<rparr>) r w'" "frame r w r w'"
  using assms poll_flush_spec [OF assms(2)] by (auto simp: copied_def frame_def in_buffer_cong)

text \<open>A read into the empty buffer.\<close>

lemma copied_read:
  assumes "copied N c0 w0 cb r w" "pos cb = cap cb" "poll_read N r = (res, r')"
  shows "frame r w r' w"
    and "res = Pending \<or> res = Ready (Inl e) \<Longrightarrow> copied N c0 w0 cb r' w"
    and "res = Ready (Inr bs) \<Longrightarrow>
      copied N c0 w0 (if bs = [] then cb\<lparr>read_done := True\<rparr>
        else cb\<lparr>buf := bs @ drop (length bs) (buf cb), pos := 0, cap := length bs\<rparr>) r' w"
proof -
  note sp = poll_read_spec [OF assms(3)]
  show "frame r w r' w" using sp by (simp add: frame_def)
  from assms obtain X where X: "written w = w0 @ X" "consumed r = c0 @ X" "amt cb = of_nat (length X)"
    by (auto simp: copied_def in_buffer_def)
  have e: "in_buffer cb = []" using assms(2) by (simp add: in_buffer_def)
  show "copied N c0 w0 cb r' w" if "res = Pending \<or> res = Ready (Inl e)"
    using that assms sp X e by (auto simp: copied_def)
  assume r: "res = Ready (Inr bs)"
  have l: "length bs \<le> N" using sp(3) r by simp
  show "copied N c0 w0 (if bs = [] then cb\<lparr>read_done := True\<rparr>
        else cb\<lparr>buf := bs @ drop (length bs) (buf cb), pos := 0, cap := length bs\<rparr>) r' w"
  proof (cases "bs = []")
    case True
    then show ?thesis using assms(1,2) sp X r by (auto simp: copied_def in_buffer_def)
  next
    case False
    then show ?thesis using assms(1) sp(2,4) X r l by (auto simp: copied_def in_buffer_def)
  qed
qed

lemma copy_fill_copied:
  assumes "copied N c0 w0 cb r w" "copy_fill cb r w = (res, cb', r', w')"
  shows "copied N c0 w0 cb' r' w' \<and> frame r w r' w'"
proof (cases "pos cb = cap cb \<and> \<not> read_done cb")
  case False
  with assms show ?thesis by (auto simp: copy_fill_def)
next
  case True
  have N: "length (buf cb) = N" using assms(1) by (simp add: copied_def)
  obtain a r1 where p: "poll_read N r = (a, r1)" by fastforce
  note rd = copied_read [OF assms(1) _ p]
  consider (pend) "a = Pending" | (err) e where "a = Ready (Inl e)" | (ok) bs where "a = Ready (Inr bs)"
    by (metis poll.exhaust sum.exhaust)
  then show ?thesis
  proof cases
    case pend
    obtain b w1 where f: "poll_flush w = (b, w1)" by fastforce
    have c: "copied N c0 w0 cb r1 w" using rd(2) True pend by blast
    from c copied_flush [OF c f] rd(1) True p pend f assms(2) N show ?thesis
      by (auto simp: copy_fill_def intro: frame_trans split: if_splits poll.splits sum.splits)
  next
    case err
    with rd(1,2) True p assms(2) N show ?thesis by (auto simp: copy_fill_def)
  next
    case ok
    with rd(1) rd(3) [of bs] True p assms(2) N show ?thesis
      by (auto simp: copy_fill_def Let_def split: if_splits)
  qed
qed

lemma in_buffer_split:
  assumes "p + i \<le> k"
  shows "take (k - p) (drop p b) = take i (take (k - p) (drop p b)) @ take (k - (p + i)) (drop (p + i) b)"
proof -
  have "k - p = i + (k - (p + i))" using assms by simp
  then have "take (k - p) (drop p b) = take i (drop p b) @ take (k - (p + i)) (drop i (drop p b))"
    by (metis take_add)
  moreover have "take i (take (k - p) (drop p b)) = take i (drop p b)" using assms by simp
  ultimately show ?thesis by (simp add: add.commute)
qed

lemma copied_write:
  assumes "copied N c0 w0 cb r w" "poll_write (in_buffer cb) w = (res, w')"
  shows "frame r w r w'"
    and "res = Pending \<or> res = Ready (Inl e) \<or> res = Ready (Inr 0) \<Longrightarrow> copied N c0 w0 cb r w'"
    and "res = Ready (Inr i) \<Longrightarrow>
      copied N c0 w0 (cb\<lparr>pos := pos cb + i, amt := amt cb + of_nat i, need_flush := True\<rparr>) r w'"
proof -
  note sp = poll_write_spec [OF assms(2)]
  show "frame r w r w'" using sp by (simp add: frame_def)
  show "copied N c0 w0 cb r w'"
    if "res = Pending \<or> res = Ready (Inl e) \<or> res = Ready (Inr 0)"
    using that assms(1) sp by (auto simp: copied_def)
  assume r: "res = Ready (Inr i)"
  from assms(1) obtain X where X: "written w = w0 @ X" "consumed r = c0 @ X @ in_buffer cb"
      "amt cb = of_nat (length X)" and b: "pos cb \<le> cap cb" "cap cb \<le> N" "length (buf cb) = N"
    by (auto simp: copied_def)
  have i: "i \<le> length (in_buffer cb)" using sp(4) r by simp
  then have le: "pos cb + i \<le> cap cb" using b by (simp add: in_buffer_def)
  have "in_buffer (cb\<lparr>pos := pos cb + i, amt := amt cb + of_nat i, need_flush := True\<rparr>) =
      take (cap cb - (pos cb + i)) (drop (pos cb + i) (buf cb))"
    by (simp add: in_buffer_def)
  then have "in_buffer cb = take i (in_buffer cb) @
      in_buffer (cb\<lparr>pos := pos cb + i, amt := amt cb + of_nat i, need_flush := True\<rparr>)"
    using in_buffer_split [OF le, of "buf cb"] by (simp only: in_buffer_def [of cb])
  moreover have "length (take i (in_buffer cb)) = i" using i by simp
  ultimately show "copied N c0 w0
      (cb\<lparr>pos := pos cb + i, amt := amt cb + of_nat i, need_flush := True\<rparr>) r w'"
    using assms(1) X b le sp(3) r
    by (auto simp: copied_def intro!: exI [of _ "X @ take i (in_buffer cb)"])
qed

lemma copy_drain_copied:
  assumes "copied N c0 w0 cb r w" "copy_drain cb w = (res, cb', w')"
  shows "copied N c0 w0 cb' r w' \<and> frame r w r w' \<and> (res = None \<longrightarrow> pos cb' = cap cb')"
  using assms
proof (induction cb w rule: copy_drain.induct)
  case (1 cb w)
  show ?case
  proof (cases "pos cb < cap cb")
    case False
    with 1(2,3) show ?thesis by (subst (asm) copy_drain.simps) (auto simp: copied_def)
  next
    case True
    obtain a w1 where p: "poll_write (in_buffer cb) w = (a, w1)" by fastforce
    note wr = copied_write [OF 1(2) p]
    note unf = 1(3) [unfolded copy_drain.simps [of cb w] in_buffer_def [symmetric] p]
    consider (stop) "a = Pending \<or> (\<exists>e. a = Ready (Inl e)) \<or> a = Ready (Inr 0)"
      | (ok) i where "a = Ready (Inr i)" "i \<noteq> 0"
      by (metis poll.exhaust sum.exhaust)
    then show ?thesis
    proof cases
      case stop
      then have "copied N c0 w0 cb r w1" using wr(2) by blast
      with stop unf True wr(1) show ?thesis by auto
    next
      case (ok i)
      let ?cb = "cb\<lparr>pos := pos cb + i, amt := amt cb + of_nat i, need_flush := True\<rparr>"
      have d: "copy_drain ?cb w1 = (res, cb', w')" using unf True ok by simp
      have "copied N c0 w0 cb' r w' \<and> frame r w1 r w' \<and> (res = None \<longrightarrow> pos cb' = cap cb')"
        using 1(1) [OF True p [symmetric, unfolded in_buffer_def] ok(1) refl ok(2)] wr(3) [OF ok(1)] d
        by blast
      with wr(1) frame_trans show ?thesis by blast
    qed
  qed
qed

lemma copy_fill_returns: "copy_fill cb r w = (Some res, cb', r', w') \<Longrightarrow> res \<noteq> Ready (Inr n)"
  by (auto simp: copy_fill_def Let_def split: if_splits prod.splits poll.splits sum.splits)

lemma copy_drain_returns: "copy_drain cb w = (Some res, cb', w') \<Longrightarrow> res \<noteq> Ready (Inr n)"
  by (induction cb w rule: copy_drain.induct)
     (subst (asm) (2) copy_drain.simps, auto split: if_splits prod.splits poll.splits sum.splits)

lemma poll_copy_copied:
  assumes "copied N c0 w0 cb r w"
  shows "\<exists>res cb' r' w'. poll_copy cb r w = Some (res, cb', r', w') \<and>
    copied N c0 w0 cb' r' w' \<and> frame r w r' w' \<and>
    (\<forall>n. res = Ready (Inr n) \<longrightarrow> pos cb' = cap cb' \<and> read_done cb' \<and> n = amt cb')"
  using assms
proof (induction cb r w rule: poll_copy.induct)
  case (1 cb r w)
  obtain f cb1 r1 w1 where f: "copy_fill cb r w = (f, cb1, r1, w1)" by (metis prod_cases4)
  have c1: "copied N c0 w0 cb1 r1 w1" "frame r w r1 w1" using copy_fill_copied [OF 1(2) f] by auto
  show ?case
  proof (cases f)
    case (Some res)
    then show ?thesis
      using f c1 copy_fill_returns [OF f [unfolded Some]] by (simp add: poll_copy.simps [of cb r w])
  next
    case None
    obtain d cb2 w2 where d: "copy_drain cb1 w1 = (d, cb2, w2)" by (metis prod_cases3)
    have c2: "copied N c0 w0 cb2 r1 w2" "frame r w r1 w2" "d = None \<longrightarrow> pos cb2 = cap cb2"
      using copy_drain_copied [OF c1(1) d] c1(2) frame_trans by blast+
    show ?thesis
    proof (cases d)
      case (Some res)
      then show ?thesis
        using f \<open>f = None\<close> d c2 copy_drain_returns [OF d [unfolded Some]]
        by (simp add: poll_copy.simps [of cb r w])
    next
      case None
      obtain g w3 where g: "poll_flush w2 = (g, w3)" by fastforce
      note c3 = copied_flush [OF c2(1) g]
      show ?thesis
      proof (cases "read_done cb2")
        case True
        then show ?thesis
          using f \<open>f = None\<close> d None c2 g c3(1) frame_trans [OF c2(2) c3(3)]
          by (auto simp: poll_copy.simps [of cb r w] split: poll.splits sum.splits)
      next
        case False
        from c2 None have "pos cb2 = cap cb2" by simp
        with 1(1) [OF f [symmetric, unfolded \<open>f = None\<close>] refl refl refl d [symmetric, unfolded None]
            refl refl _ False c2(1)]
        obtain res cb' r' w' where q: "poll_copy cb2 r1 w2 = Some (res, cb', r', w')"
          "copied N c0 w0 cb' r' w'" "frame r1 w2 r' w'"
          "\<forall>n. res = Ready (Inr n) \<longrightarrow> pos cb' = cap cb' \<and> read_done cb' \<and> n = amt cb'" by blast
        moreover have "poll_copy cb r w = poll_copy cb2 r1 w2"
          using f \<open>f = None\<close> d None False \<open>pos cb2 = cap cb2\<close> by (simp add: poll_copy.simps [of cb r w])
        ultimately show ?thesis using frame_trans [OF c2(2) q(3)] by auto
      qed
    qed
  qed
qed

section \<open>Both directions\<close>

text \<open>A finished direction: all that was consumed is written and counted, and the end was seen.\<close>

definition complete :: "u8 list \<Rightarrow> u8 list \<Rightarrow> u64 \<Rightarrow> stream \<Rightarrow> stream \<Rightarrow> bool" where
  "complete c0 w0 n r w \<longleftrightarrow>
     eof r \<and> (\<exists>X. written w = w0 @ X \<and> consumed r = c0 @ X \<and> n = of_nat (length X))"

fun transferred :: "nat \<Rightarrow> u8 list \<Rightarrow> u8 list \<Rightarrow> transfer_state \<Rightarrow> stream \<Rightarrow> stream \<Rightarrow> bool" where
  "transferred N c0 w0 (Running cb) r w = copied N c0 w0 cb r w"
| "transferred N c0 w0 (ShuttingDown n) r w = complete c0 w0 n r w"
| "transferred N c0 w0 (Done n) r w = complete c0 w0 n r w"

text \<open>What a poll of one direction returns, and the state it leaves.\<close>

definition direction_ok ::
  "nat \<Rightarrow> u8 list \<Rightarrow> u8 list \<Rightarrow> stream \<Rightarrow> stream \<Rightarrow>
   (copy_result \<times> transfer_state \<times> stream \<times> stream) option \<Rightarrow> bool" where
  "direction_ok N c0 w0 r w out \<longleftrightarrow>
     (\<exists>res st r' w'. out = Some (res, st, r', w') \<and> transferred N c0 w0 st r' w' \<and> frame r w r' w' \<and>
        (\<forall>n. res = Ready (Inr n) \<longrightarrow> st = Done n))"

lemma direction_ok_trans:
  "frame r w r1 w1 \<Longrightarrow> direction_ok N c0 w0 r1 w1 out \<Longrightarrow> direction_ok N c0 w0 r w out"
  unfolding direction_ok_def using frame_trans by blast

lemma shutting_down_ok:
  assumes "complete c0 w0 n r w"
  shows "direction_ok N c0 w0 r w (transfer_one_direction (ShuttingDown n) r w)"
proof -
  obtain a w1 where p: "poll_shutdown w = (a, w1)" by fastforce
  have "complete c0 w0 n r w1" "frame r w r w1"
    using poll_shutdown_spec [OF p] assms by (auto simp: complete_def frame_def)
  with p show ?thesis
    by (cases a) (auto simp: direction_ok_def split: sum.splits)
qed

lemma transfer_ok:
  assumes "transferred N c0 w0 st r w"
  shows "direction_ok N c0 w0 r w (transfer_one_direction st r w)"
proof (cases st)
  case (Running cb)
  with assms obtain res cb' r' w' where q: "poll_copy cb r w = Some (res, cb', r', w')"
    "copied N c0 w0 cb' r' w'" "frame r w r' w'"
    "\<forall>n. res = Ready (Inr n) \<longrightarrow> pos cb' = cap cb' \<and> read_done cb' \<and> n = amt cb'"
    using poll_copy_copied [of N c0 w0 cb r w] by auto
  show ?thesis
  proof (cases "\<exists>n. res = Ready (Inr n)")
    case True
    then obtain n where n: "res = Ready (Inr n)" by blast
    then have "complete c0 w0 n r' w'"
      using q(2,4) by (auto simp: copied_def complete_def in_buffer_def)
    from direction_ok_trans [OF q(3) shutting_down_ok [OF this]] Running q(1) n show ?thesis by simp
  next
    case False
    then have "transfer_one_direction st r w = Some (res, Running cb', r', w')"
      using Running q(1) by (auto split: poll.splits sum.splits)
    with q False show ?thesis by (auto simp: direction_ok_def)
  qed
next
  case (ShuttingDown n)
  with assms show ?thesis using shutting_down_ok by simp
next
  case (Done n)
  with assms show ?thesis by (auto simp: direction_ok_def)
qed

text \<open>The invariant of the future; \<open>a\<close> and \<open>b\<close> are the streams it was made from.\<close>

definition bidi_inv :: "nat \<Rightarrow> stream \<Rightarrow> stream \<Rightarrow> copy_bidirectional \<Rightarrow> bool" where
  "bidi_inv N a b c \<longleftrightarrow>
     transferred N (consumed a) (written b) (a_to_b c) (side_a c) (side_b c) \<and>
     transferred N (consumed b) (written a) (b_to_a c) (side_b c) (side_a c)"

lemma transferred_frame:
  "transferred N c0 w0 st r w \<Longrightarrow> frame w r w' r' \<Longrightarrow> transferred N c0 w0 st r' w'"
  by (cases st) (auto simp: frame_def copied_def complete_def)

lemma bidi_poll_inv:
  assumes "bidi_inv N a b c"
  shows "\<exists>res c'. bidi_poll c = Some (res, c') \<and> bidi_inv N a b c' \<and>
    (res = Ready (Inr ()) \<longrightarrow> (\<exists>n. a_to_b c' = Done n \<or> b_to_a c' = Done n))"
proof -
  obtain r1 st1 a1 b1 where t1: "transfer_one_direction (a_to_b c) (side_a c) (side_b c) = Some (r1, st1, a1, b1)"
    "transferred N (consumed a) (written b) st1 a1 b1" "frame (side_a c) (side_b c) a1 b1"
    "\<forall>n. r1 = Ready (Inr n) \<longrightarrow> st1 = Done n"
    using transfer_ok [of N "consumed a" "written b" "a_to_b c" "side_a c" "side_b c"] assms
    by (auto simp: bidi_inv_def direction_ok_def)
  have bwd: "transferred N (consumed b) (written a) (b_to_a c) b1 a1"
    using transferred_frame t1(3) assms by (auto simp: bidi_inv_def)
  obtain r2 st2 a2 b2 where t2: "transfer_one_direction (b_to_a c) b1 a1 = Some (r2, st2, b2, a2)"
    "transferred N (consumed b) (written a) st2 b2 a2" "frame b1 a1 b2 a2"
    "\<forall>n. r2 = Ready (Inr n) \<longrightarrow> st2 = Done n"
    using transfer_ok [OF bwd] by (auto simp: direction_ok_def)
  have fwd: "transferred N (consumed a) (written b) st1 a2 b2"
    using transferred_frame t1(2) t2(3) by blast
  show ?thesis
  proof (cases "\<exists>e. r1 = Ready (Inl e)")
    case True
    with t1(1,2) bwd show ?thesis by (auto simp: bidi_poll_def bidi_inv_def)
  next
    case False
    with t1(1,4) t2(1,2,4) fwd show ?thesis
      by (auto simp: bidi_poll_def bidi_inv_def split: poll.splits sum.splits)
  qed
qed

lemma bidi_run_inv:
  assumes "bidi_inv N a b c"
  shows "\<exists>res c'. bidi_run k c = Some (res, c') \<and> bidi_inv N a b c' \<and>
    (res = Ready (Inr ()) \<longrightarrow> (\<exists>n. a_to_b c' = Done n \<or> b_to_a c' = Done n))"
  using assms
proof (induction k arbitrary: c)
  case (Suc k)
  obtain res c' where p: "bidi_poll c = Some (res, c')" "bidi_inv N a b c'"
    "res = Ready (Inr ()) \<longrightarrow> (\<exists>n. a_to_b c' = Done n \<or> b_to_a c' = Done n)"
    using bidi_poll_inv [OF Suc.prems] by blast
  with Suc.IH [OF p(2)] show ?case by (cases res) auto
qed simp

lemma bidi_inv_new: "bidi_inv 8192 a b (copy_bidirectional_new a b)"
  by (simp add: bidi_inv_def copy_bidirectional_new_def copied_def copy_buffer_new_def in_buffer_def)

lemma transferred_prefix:
  "transferred N c0 w0 st r w \<Longrightarrow>
   \<exists>X P. written w = w0 @ X \<and> consumed r = c0 @ X @ P \<and> length P \<le> N"
  by (cases st) (auto simp: copied_def complete_def in_buffer_def)

section \<open>Properties\<close>

text \<open>C3: however the two peers answer and however often the relay is polled, every poll returns,
  and in each direction the bytes written are the bytes read, in order, none lost and none
  repeated; at most one buffer of 8192 bytes is held between them.\<close>

theorem relay_in_order:
  "\<exists>res c X P Y Q.
     bidi_run k (copy_bidirectional_new a b) = Some (res, c) \<and>
     written (side_b c) = written b @ X \<and> consumed (side_a c) = consumed a @ X @ P \<and> length P \<le> 8192 \<and>
     written (side_a c) = written a @ Y \<and> consumed (side_b c) = consumed b @ Y @ Q \<and> length Q \<le> 8192"
  using bidi_run_inv [OF bidi_inv_new, of k a b] transferred_prefix
  unfolding bidi_inv_def by metis

text \<open>C24: when the relay finishes without error, one direction has reached the end of its source,
  has written all of it and has shut its sink down; its count is the number of bytes, modulo
  2 to the 64.\<close>

theorem relay_done_complete:
  assumes "bidi_run k (copy_bidirectional_new a b) = Some (Ready (Inr ()), c)"
  shows "\<exists>n. a_to_b c = Done n \<and> complete (consumed a) (written b) n (side_a c) (side_b c) \<or>
             b_to_a c = Done n \<and> complete (consumed b) (written a) n (side_b c) (side_a c)"
proof -
  have "bidi_inv 8192 a b c" "\<exists>n. a_to_b c = Done n \<or> b_to_a c = Done n"
    using bidi_run_inv [OF bidi_inv_new, of k a b] assms by auto
  then show ?thesis by (auto simp: bidi_inv_def)
qed

text \<open>A sink that accepts no byte of a non-empty buffer ends the copy with \<open>WriteZero\<close>, and the
  bytes stay in the buffer.\<close>

lemma write_zero_is_error:
  assumes "pos cb < cap cb" "cap cb \<le> length (buf cb)" "wr_script w = AOk 0 # as"
  shows "\<exists>w'. poll_copy cb r w = Some (Ready (Inl write_zero), cb, r, w') \<and> written w' = written w"
  using assms
  by (auto simp: poll_copy.simps [of cb r w] copy_fill_def copy_drain.simps [of cb w] poll_write_def)

text \<open>A run in which one side sends two bytes and closes, and the other accepts them one by one.\<close>

definition demo_a :: stream where
  "demo_a = \<lparr>rd_script = [AOk [1, 2], AOk []], wr_script = [], fl_script = [], sh_script = [],
            consumed = [], eof = False, written = []\<rparr>"

definition demo_b :: stream where
  "demo_b = \<lparr>rd_script = [], wr_script = [AOk 1, AOk 1], fl_script = [AOk ()], sh_script = [AOk ()],
            consumed = [], eof = False, written = []\<rparr>"

lemma relay_done_witness:
  "\<exists>c n. bidi_run 1 (copy_bidirectional_new demo_a demo_b) = Some (Ready (Inr ()), c) \<and>
     (a_to_b c = Done n \<and> complete [] [] n (side_a c) (side_b c) \<or>
      b_to_a c = Done n \<and> complete [] [] n (side_b c) (side_a c))"
proof -
  have "\<exists>c. bidi_run 1 (copy_bidirectional_new demo_a demo_b) = Some (Ready (Inr ()), c)"
    by (simp add: demo_a_def demo_b_def copy_bidirectional_new_def copy_buffer_new_def bidi_poll_def
        poll_copy.simps copy_fill_def copy_drain.simps poll_read_def poll_write_def poll_flush_def
        poll_shutdown_def)
  then obtain c where c: "bidi_run 1 (copy_bidirectional_new demo_a demo_b) = Some (Ready (Inr ()), c)" ..
  from relay_done_complete [OF this] have "\<exists>n. a_to_b c = Done n \<and>
      complete [] [] n (side_a c) (side_b c) \<or> b_to_a c = Done n \<and> complete [] [] n (side_b c) (side_a c)"
    by (simp add: demo_a_def demo_b_def)
  with c show ?thesis by blast
qed

lemma write_zero_witness:
  "\<exists>w'. poll_copy ((copy_buffer_new 2)\<lparr>cap := 1\<rparr>) demo_a (demo_b\<lparr>wr_script := [AOk 0]\<rparr>) =
     Some (Ready (Inl write_zero), (copy_buffer_new 2)\<lparr>cap := 1\<rparr>, demo_a, w') \<and> written w' = []"
  using write_zero_is_error [of "(copy_buffer_new 2)\<lparr>cap := 1\<rparr>" "demo_b\<lparr>wr_script := [AOk 0]\<rparr>" "[]" demo_a]
  by (simp add: copy_buffer_new_def demo_b_def)

end
