(* ===== verification/RD_Address.thy ===== *)
theory RD_Address
  imports RD_Error
begin

text \<open>
  Network addresses, after \<^verbatim>\<open>rd-interface/src/address.rs\<close>, with the parts of \<^verbatim>\<open>std::net\<close> it
  calls: \<open>Ipv4Addr\<close>, \<open>Ipv6Addr\<close>, \<open>SocketAddr\<close>, their \<open>Display\<close> and their \<open>FromStr\<close> (the
  recursive-descent parser of \<^verbatim>\<open>core::net::parser\<close>, one function per \<open>read_\<close> method).

  A parser of type \<^verbatim>\<open>string => ('a * string) option\<close> consumes a prefix of its input; \<open>None\<close> is
  failure with nothing consumed, which is what \<open>read_atomically\<close> gives.

  The lemmas show that printing and parsing are inverse: for IPv4 and IPv6 addresses, for
  socket addresses, and for \<open>Address\<close> and \<open>AddressDomain\<close> themselves.
\<close>

section \<open>Addresses of the standard library\<close>

datatype ipv4 = Ipv4 u8 u8 u8 u8

datatype ipv6 = Ipv6 u16 u16 u16 u16 u16 u16 u16 u16

datatype ip_addr = IpV4 ipv4 | IpV6 ipv6

record socket_addr_v6 =
  v6_ip :: ipv6
  v6_port :: u16
  v6_flowinfo :: u32
  v6_scope_id :: u32

datatype socket_addr = SV4 ipv4 u16 | SV6 socket_addr_v6

definition socket_addr_new :: "ip_addr \<Rightarrow> u16 \<Rightarrow> socket_addr" where
  "socket_addr_new ip p =
     (case ip of
        IpV4 a \<Rightarrow> SV4 a p
      | IpV6 a \<Rightarrow> SV6 \<lparr>v6_ip = a, v6_port = p, v6_flowinfo = 0, v6_scope_id = 0\<rparr>)"

fun sa_ip :: "socket_addr \<Rightarrow> ip_addr" where
  "sa_ip (SV4 a p) = IpV4 a"
| "sa_ip (SV6 s) = IpV6 (v6_ip s)"

fun sa_port :: "socket_addr \<Rightarrow> u16" where
  "sa_port (SV4 a p) = p"
| "sa_port (SV6 s) = v6_port s"

fun is_ipv4 :: "socket_addr \<Rightarrow> bool" where
  "is_ipv4 (SV4 a p) = True"
| "is_ipv4 (SV6 s) = False"

fun is_ipv6 :: "socket_addr \<Rightarrow> bool" where
  "is_ipv6 (SV4 a p) = False"
| "is_ipv6 (SV6 s) = True"

definition ipv4_unspecified :: ipv4 where
  "ipv4_unspecified = Ipv4 0 0 0 0"

definition ipv6_unspecified :: ipv6 where
  "ipv6_unspecified = Ipv6 0 0 0 0 0 0 0 0"

fun segments :: "ipv6 \<Rightarrow> u16 list" where
  "segments (Ipv6 a b c d e f g h) = [a, b, c, d, e, f, g, h]"

fun ipv6_of_list :: "u16 list \<Rightarrow> ipv6 option" where
  "ipv6_of_list [a, b, c, d, e, f, g, h] = Some (Ipv6 a b c d e f g h)"
| "ipv6_of_list _ = None"

definition hi8 :: "u16 \<Rightarrow> u8" where
  "hi8 w = ucast (drop_bit 8 w)"

definition lo8 :: "u16 \<Rightarrow> u8" where
  "lo8 w = ucast w"

definition be16 :: "u8 \<Rightarrow> u8 \<Rightarrow> u16" where
  "be16 a b = push_bit 8 (ucast a) + ucast b"

definition octets6 :: "ipv6 \<Rightarrow> u8 list" where
  "octets6 a = concat (map (\<lambda>w. [hi8 w, lo8 w]) (segments a))"

section \<open>Display of std addresses\<close>

definition show_u8 :: "u8 \<Rightarrow> string" where
  "show_u8 w = show_radix 10 (unat w)"

definition show_u16 :: "u16 \<Rightarrow> string" where
  "show_u16 w = show_radix 10 (unat w)"

definition show_hex16 :: "u16 \<Rightarrow> string" where
  "show_hex16 w = show_radix 16 (unat w)"

fun show_ipv4 :: "ipv4 \<Rightarrow> string" where
  "show_ipv4 (Ipv4 a b c d) =
     show_u8 a @ ''.'' @ show_u8 b @ ''.'' @ show_u8 c @ ''.'' @ show_u8 d"

text \<open>The longest run of zero segments, the first one when there are several: start and
  length. \<open>(cs, cl)\<close> is the run being scanned, \<open>(ls, ll)\<close> the longest so far.\<close>

fun zero_run :: "nat \<Rightarrow> nat \<times> nat \<Rightarrow> nat \<times> nat \<Rightarrow> u16 list \<Rightarrow> nat \<times> nat" where
  "zero_run i cur longest [] = longest"
| "zero_run i (cs, cl) (ls, ll) (w # ws) =
     (if w = 0 then
        (let cur = (if cl = 0 then i else cs, cl + 1)
         in zero_run (i + 1) cur (if ll < snd cur then cur else (ls, ll)) ws)
      else zero_run (i + 1) (0, 0) (ls, ll) ws)"

definition show_ipv6 :: "ipv6 \<Rightarrow> string" where
  "show_ipv6 a =
     (case a of Ipv6 s0 s1 s2 s3 s4 s5 s6 s7 \<Rightarrow>
        if s0 = 0 \<and> s1 = 0 \<and> s2 = 0 \<and> s3 = 0 \<and> s4 = 0 \<and> s5 = 0xffff
        then ''::ffff:'' @ show_ipv4 (Ipv4 (hi8 s6) (lo8 s6) (hi8 s7) (lo8 s7))
        else
          (let sg = segments a; (st, ln) = zero_run 0 (0, 0) (0, 0) sg
           in if 1 < ln
              then join_str '':'' (map show_hex16 (take st sg)) @ ''::'' @
                   join_str '':'' (map show_hex16 (drop (st + ln) sg))
              else join_str '':'' (map show_hex16 sg)))"

fun show_ip :: "ip_addr \<Rightarrow> string" where
  "show_ip (IpV4 a) = show_ipv4 a"
| "show_ip (IpV6 a) = show_ipv6 a"

fun show_socket_addr :: "socket_addr \<Rightarrow> string" where
  "show_socket_addr (SV4 a p) = show_ipv4 a @ '':'' @ show_u16 p"
| "show_socket_addr (SV6 s) =
     (if v6_scope_id s = 0
      then ''['' @ show_ipv6 (v6_ip s) @ '']:'' @ show_u16 (v6_port s)
      else ''['' @ show_ipv6 (v6_ip s) @ ''%'' @ show_radix 10 (unat (v6_scope_id s)) @
           '']:'' @ show_u16 (v6_port s))"

section \<open>The parser of std addresses\<close>

type_synonym 'a parser = "string \<Rightarrow> ('a \<times> string) option"

fun read_given_char :: "char \<Rightarrow> string \<Rightarrow> string option" where
  "read_given_char c [] = None"
| "read_given_char c (x # s) = (if x = c then Some s else None)"

definition read_separator :: "char \<Rightarrow> nat \<Rightarrow> 'a parser \<Rightarrow> 'a parser" where
  "read_separator sep i inner s =
     (if 0 < i then Option.bind (read_given_char sep s) inner else inner s)"

text \<open>\<open>read_number(radix, max_digits, allow_zero_prefix)\<close> into a type of \<open>bound\<close> values.\<close>

definition read_number :: "nat \<Rightarrow> nat option \<Rightarrow> bool \<Rightarrow> nat \<Rightarrow> nat parser" where
  "read_number radix max_digits allow_zero_prefix bound s =
     (case read_digits radix 0 0 s of (v, k, rest) \<Rightarrow>
        if (case max_digits of Some m \<Rightarrow> m < k | None \<Rightarrow> False) then None
        else if k = 0 then None
        else if \<not> allow_zero_prefix \<and> read_given_char (CHR ''0'') s \<noteq> None \<and> 1 < k then None
        else if bound \<le> v then None
        else Some (v, rest))"

fun read_ipv4_groups :: "nat \<Rightarrow> nat \<Rightarrow> u8 list parser" where
  "read_ipv4_groups 0 i s = Some ([], s)"
| "read_ipv4_groups (Suc n) i s =
     (case read_separator (CHR ''.'') i (read_number 10 (Some 3) False 256) s of
        None \<Rightarrow> None
      | Some (v, s') \<Rightarrow>
          (case read_ipv4_groups n (i + 1) s' of
             None \<Rightarrow> None
           | Some (vs, s'') \<Rightarrow> Some (of_nat v # vs, s'')))"

definition read_ipv4_addr :: "ipv4 parser" where
  "read_ipv4_addr s =
     (case read_ipv4_groups 4 0 s of
        Some ([a, b, c, d], s') \<Rightarrow> Some (Ipv4 a b c d, s')
      | _ \<Rightarrow> None)"

text \<open>
  \<open>read_groups\<close>: up to \<open>limit\<close> groups from index \<open>i\<close>; an embedded IPv4 address counts for two
  and ends the list. The result is the groups read, whether they end in an IPv4 address,
  and the rest of the input.
\<close>

fun read_groups :: "nat \<Rightarrow> nat \<Rightarrow> string \<Rightarrow> u16 list \<times> bool \<times> string" where
  "read_groups 0 i s = ([], False, s)"
| "read_groups (Suc n) i s =
     (case (if 1 \<le> n then read_separator (CHR '':'') i read_ipv4_addr s else None) of
        Some (Ipv4 a b c d, s') \<Rightarrow> ([be16 a b, be16 c d], True, s')
      | None \<Rightarrow>
          (case read_separator (CHR '':'') i (read_number 16 (Some 4) True 65536) s of
             None \<Rightarrow> ([], False, s)
           | Some (g, s') \<Rightarrow>
               (case read_groups n (i + 1) s' of
                  (gs, v4, s'') \<Rightarrow> (of_nat g # gs, v4, s''))))"

definition read_ipv6_addr :: "ipv6 parser" where
  "read_ipv6_addr s =
     (case read_groups 8 0 s of (hd_gs, head_ipv4, s1) \<Rightarrow>
        if length hd_gs = 8 then map_option (\<lambda>a. (a, s1)) (ipv6_of_list hd_gs)
        else if head_ipv4 then None
        else
          (case Option.bind (read_given_char (CHR '':'') s1) (read_given_char (CHR '':'')) of
             None \<Rightarrow> None
           | Some s2 \<Rightarrow>
               (case read_groups (8 - (length hd_gs + 1)) 0 s2 of (tl_gs, _, s3) \<Rightarrow>
                  map_option (\<lambda>a. (a, s3))
                    (ipv6_of_list
                      (hd_gs @ replicate (8 - length hd_gs - length tl_gs) 0 @ tl_gs)))))"

definition parse_with :: "'a parser \<Rightarrow> string \<Rightarrow> 'a option" where
  "parse_with p s = (case p s of Some (x, []) \<Rightarrow> Some x | _ \<Rightarrow> None)"

definition read_ip_addr :: "ip_addr parser" where
  "read_ip_addr s =
     (case read_ipv4_addr s of
        Some (a, s') \<Rightarrow> Some (IpV4 a, s')
      | None \<Rightarrow> map_option (\<lambda>(a, s'). (IpV6 a, s')) (read_ipv6_addr s))"

definition parse_ip :: "string \<Rightarrow> ip_addr option" where
  "parse_ip s = parse_with read_ip_addr s"

definition read_port :: "u16 parser" where
  "read_port s =
     map_option (\<lambda>(v, s'). (of_nat v, s'))
       (Option.bind (read_given_char (CHR '':'') s) (read_number 10 None True 65536))"

definition read_socket_addr_v4 :: "socket_addr parser" where
  "read_socket_addr_v4 s =
     (case read_ipv4_addr s of
        None \<Rightarrow> None
      | Some (a, s') \<Rightarrow> map_option (\<lambda>(p, s''). (SV4 a p, s'')) (read_port s'))"

definition read_scope_id :: "string \<Rightarrow> u32 \<times> string" where
  "read_scope_id s =
     (case Option.bind (read_given_char (CHR ''%'') s) (read_number 10 None True (2 ^ 32)) of
        Some (v, s') \<Rightarrow> (of_nat v, s')
      | None \<Rightarrow> (0, s))"

definition read_socket_addr_v6 :: "socket_addr parser" where
  "read_socket_addr_v6 s =
     (case Option.bind (read_given_char (CHR ''['') s) read_ipv6_addr of
        None \<Rightarrow> None
      | Some (a, s1) \<Rightarrow>
          (case read_scope_id s1 of (sc, s2) \<Rightarrow>
             map_option
               (\<lambda>(p, s3). (SV6 \<lparr>v6_ip = a, v6_port = p, v6_flowinfo = 0, v6_scope_id = sc\<rparr>, s3))
               (Option.bind (read_given_char (CHR '']'') s2) read_port)))"

definition parse_socket_addr :: "string \<Rightarrow> socket_addr option" where
  "parse_socket_addr s =
     parse_with
       (\<lambda>t. case read_socket_addr_v4 t of Some r \<Rightarrow> Some r | None \<Rightarrow> read_socket_addr_v6 t) s"

section \<open>The address types of the program\<close>

record address_domain =
  ad_domain :: string
  ad_port :: u16

datatype address = SocketAddr socket_addr | Domain string u16

definition no_addr :: io_error where
  "no_addr = IoSimple AddrNotAvailable"

definition parse_u16 :: "string \<Rightarrow> u16 option" where
  "parse_u16 s = map_option of_nat (parse_unsigned 65536 s)"

definition strip_brackets :: "string \<Rightarrow> string" where
  "strip_brackets host =
     (case Option.bind (strip_prefix host ''['') (\<lambda>h. strip_suffix h '']'') of
        Some h \<Rightarrow> h | None \<Rightarrow> host)"

definition host_to_address :: "string \<Rightarrow> u16 \<Rightarrow> address" where
  "host_to_address host p =
     (case parse_ip (strip_brackets host) of
        Some ip \<Rightarrow> SocketAddr (socket_addr_new ip p)
      | None \<Rightarrow> Domain host p)"

text \<open>The shared head of the two \<open>from_str\<close> functions: port after the last colon, host before.\<close>

definition split_host_port :: "string \<Rightarrow> io_error + string \<times> u16" where
  "split_host_port s =
     (case rsplitn2 (CHR '':'') s of (port_str, host) \<Rightarrow>
        and_then (ok_or (parse_u16 port_str) no_addr)
          (\<lambda>p. and_then (ok_or host no_addr) (\<lambda>h. Inr (h, p))))"

definition address_domain_from_str :: "string \<Rightarrow> io_error + address_domain" where
  "address_domain_from_str s =
     map_ok (\<lambda>(h, p). \<lparr>ad_domain = h, ad_port = p\<rparr>) (split_host_port s)"

definition show_address_domain :: "address_domain \<Rightarrow> string" where
  "show_address_domain d = ad_domain d @ '':'' @ show_u16 (ad_port d)"

definition address_of_domain :: "address_domain \<Rightarrow> address" where
  "address_of_domain d = Domain (ad_domain d) (ad_port d)"

definition into_address :: "string \<Rightarrow> io_error + address" where
  "into_address s = map_ok (\<lambda>(h, p). host_to_address h p) (split_host_port s)"

fun show_address :: "address \<Rightarrow> string" where
  "show_address (Domain d p) = d @ '':'' @ show_u16 p"
| "show_address (SocketAddr s) = show_socket_addr s"

text \<open>\<open>Address::normalize\<close>: the private \<open>Either\<close> as a sum, left a socket address.\<close>

fun normalize :: "address \<Rightarrow> socket_addr + string \<times> u16" where
  "normalize (SocketAddr s) = Inl s"
| "normalize (Domain d p) =
     (case parse_ip (strip_brackets d) of
        Some ip \<Rightarrow> Inl (socket_addr_new ip p)
      | None \<Rightarrow> Inr (d, p))"

definition to_normalized :: "address \<Rightarrow> address" where
  "to_normalized a =
     (case normalize a of Inl s \<Rightarrow> SocketAddr s | Inr (d, p) \<Rightarrow> Domain d p)"

fun any_addr_port :: "socket_addr \<Rightarrow> address" where
  "any_addr_port (SV4 a p) = SocketAddr (socket_addr_new (IpV4 ipv4_unspecified) 0)"
| "any_addr_port (SV6 s) = SocketAddr (socket_addr_new (IpV6 ipv6_unspecified) 0)"

definition to_any_addr_port :: "address \<Rightarrow> io_error + address" where
  "to_any_addr_port a =
     (case normalize a of Inl s \<Rightarrow> Inr (any_addr_port s) | Inr _ \<Rightarrow> Inl no_addr)"

definition to_socket_addr :: "address \<Rightarrow> io_error + socket_addr" where
  "to_socket_addr a = (case normalize a of Inl s \<Rightarrow> Inr s | Inr _ \<Rightarrow> Inl no_addr)"

text \<open>\<open>Address::resolve\<close> with the resolver \<open>f\<close>; \<open>'w\<close> is the state of the outside world that
  awaiting the resolver may change.\<close>

definition resolve ::
  "(string \<Rightarrow> u16 \<Rightarrow> 'w \<Rightarrow> ('e + socket_addr list) \<times> 'w) \<Rightarrow> address \<Rightarrow> 'w \<Rightarrow>
   ('e + socket_addr list) \<times> 'w" where
  "resolve f a w = (case normalize a of Inl s \<Rightarrow> (Inr [s], w) | Inr (d, p) \<Rightarrow> f d p w)"

fun addr_host :: "address \<Rightarrow> string" where
  "addr_host (SocketAddr (SV4 a p)) = show_ipv4 a"
| "addr_host (SocketAddr (SV6 s)) = ''['' @ show_ipv6 (v6_ip s) @ '']''"
| "addr_host (Domain d p) = d"

fun addr_port :: "address \<Rightarrow> u16" where
  "addr_port (SocketAddr s) = sa_port s"
| "addr_port (Domain d p) = p"

text \<open>\<open>to_ipv4_mapped\<close> and \<open>resolve_mapped_socket_addr\<close> of \<^verbatim>\<open>rd-std/src/util.rs\<close>.\<close>

definition to_ipv4_mapped :: "ipv6 \<Rightarrow> ipv4 option" where
  "to_ipv4_mapped a =
     (case octets6 a of
        [o0, o1, o2, o3, o4, o5, o6, o7, o8, o9, o10, o11, p, q, r, s] \<Rightarrow>
          if list_all (\<lambda>x. x = 0) [o0, o1, o2, o3, o4, o5, o6, o7, o8, o9] \<and>
             o10 = 0xff \<and> o11 = 0xff
          then Some (Ipv4 p q r s) else None
      | _ \<Rightarrow> None)"

definition resolve_mapped_socket_addr :: "socket_addr \<Rightarrow> socket_addr" where
  "resolve_mapped_socket_addr addr =
     (case addr of
        SV6 a \<Rightarrow>
          (case to_ipv4_mapped (v6_ip a) of
             Some v4 \<Rightarrow> socket_addr_new (IpV4 v4) (v6_port a)
           | None \<Rightarrow> addr)
      | _ \<Rightarrow> addr)"

section \<open>Printing and parsing are inverse\<close>

text \<open>A string that a number or an address may stop before: it begins with no hexadecimal
  digit, no dot, and no colon followed by a digit.\<close>

definition stops :: "string \<Rightarrow> bool" where
  "stops s \<longleftrightarrow>
     (case s of [] \<Rightarrow> True
      | c # t \<Rightarrow> to_digit 16 c = None \<and> c \<noteq> CHR ''.'' \<and>
          (c = CHR '':'' \<longrightarrow> (case t of [] \<Rightarrow> True | d # _ \<Rightarrow> to_digit 16 d = None)))"

lemma to_digit_10_16: "to_digit 16 c = None \<Longrightarrow> to_digit 10 c = None"
  by (auto simp: to_digit_def Let_def split: if_splits)

lemma to_digit_punct [simp]:
  "to_digit r (CHR '':'') = None" "to_digit r (CHR ''.'') = None"
  "to_digit r (CHR '']'') = None" "to_digit r (CHR ''['') = None" "to_digit r (CHR ''%'') = None"
  by (simp_all add: to_digit_def)

lemma stops_simps [simp]:
  "stops []" "stops (CHR '':'' # CHR '':'' # s)" "stops (CHR '']'' # s)" "stops (CHR ''%'' # s)"
  by (simp_all add: stops_def)

lemma read_number_show:
  assumes "2 \<le> r" "r \<le> 36" "n < bound"
    and "\<forall>m. maxd = Some m \<longrightarrow> length (show_radix r n) \<le> m"
    and "\<forall>c s. ys = c # s \<longrightarrow> to_digit r c = None"
  shows "read_number r maxd az bound (show_radix r n @ ys) = Some (n, ys)"
proof -
  have "\<not> (read_given_char (CHR ''0'') (show_radix r n @ ys) \<noteq> None \<and> 1 < length (show_radix r n))"
    using show_radix_leading_zero [OF assms(1,2), of n]
    by (cases "show_radix r n") (auto split: if_splits)
  then show ?thesis
    using assms by (auto simp: read_number_def read_digits_show_radix split: option.splits)
qed

lemma show_u8_length: "length (show_u8 w) \<le> 3"
proof -
  have "unat w < 10 ^ Suc 2" using unat_u8_less [of w] by simp
  then have "length (show_radix 10 (unat w)) \<le> Suc 2" by (intro show_radix_length) auto
  then show ?thesis by (simp add: show_u8_def)
qed

lemma show_hex16_length: "length (show_hex16 w) \<le> 4"
proof -
  have "unat w < 16 ^ Suc 3" using unat_u16_less [of w] by simp
  then have "length (show_radix 16 (unat w)) \<le> Suc 3" by (intro show_radix_length) auto
  then show ?thesis by (simp add: show_hex16_def)
qed

lemma read_number_u8:
  assumes "\<forall>c s. ys = c # s \<longrightarrow> to_digit 10 c = None"
  shows "read_number 10 (Some 3) False 256 (show_u8 w @ ys) = Some (unat w, ys)"
  using assms show_u8_length [of w] unat_u8_less [of w]
  by (auto simp: show_u8_def intro!: read_number_show)

lemma read_number_hex16:
  assumes "\<forall>c s. ys = c # s \<longrightarrow> to_digit 16 c = None"
  shows "read_number 16 (Some 4) True 65536 (show_hex16 w @ ys) = Some (unat w, ys)"
  using assms show_hex16_length [of w] unat_u16_less [of w]
  by (auto simp: show_hex16_def intro!: read_number_show)

lemma four_Suc: "(4::nat) = Suc (Suc (Suc (Suc 0)))"
  by simp

lemmas read_ipv4_unfold = read_ipv4_addr_def [unfolded four_Suc]

lemma read_ipv4_addr_show:
  assumes "\<forall>c s. ys = c # s \<longrightarrow> to_digit 10 c = None"
  shows "read_ipv4_addr (show_ipv4 a @ ys) = Some (a, ys)"
proof (cases a)
  case (Ipv4 a b c d)
  then show ?thesis
    using assms
    by (simp add: read_ipv4_unfold read_separator_def read_number_u8)
qed

lemma read_ipv4_addr_fail:
  assumes "read_given_char (CHR ''.'') (snd (snd (read_digits 10 0 0 s))) = None"
  shows "read_ipv4_addr s = None"
proof -
  obtain v k rest where r: "read_digits 10 0 0 s = (v, k, rest)" by (metis prod_cases3)
  with assms show ?thesis
    by (auto simp: read_ipv4_unfold read_separator_def read_number_def
        split: option.splits)
qed

lemma read_digits_hex_rest:
  assumes "list_all (\<lambda>c. to_digit 16 c \<noteq> None) xs" and "stops ys"
  shows "read_given_char (CHR ''.'') (snd (snd (read_digits 10 acc k (xs @ ys)))) = None"
  using assms
proof (induction xs arbitrary: acc k)
  case Nil
  then show ?case
    by (cases ys) (auto simp: stops_def dest: to_digit_10_16)
next
  case (Cons x xs)
  then have "x \<noteq> CHR ''.''" by auto
  with Cons show ?case by (auto split: option.splits)
qed

lemma read_ipv4_addr_hex_fail:
  "list_all (\<lambda>c. to_digit 16 c \<noteq> None) xs \<Longrightarrow> stops ys \<Longrightarrow> read_ipv4_addr (xs @ ys) = None"
  by (intro read_ipv4_addr_fail read_digits_hex_rest)

lemma read_ipv4_addr_stops: "stops ys \<Longrightarrow> read_ipv4_addr ys = None"
  using read_ipv4_addr_hex_fail [of "[]" ys] by simp

lemma read_number_stops:
  "stops ys \<Longrightarrow> read_number 16 m z b ys = None"
  by (cases ys) (auto simp: stops_def read_number_def split: option.splits)

lemma stops_sep:
  assumes "stops ys" "read_given_char (CHR '':'') ys = Some t"
  shows "read_number 16 m z b t = None \<and> read_ipv4_addr t = None"
proof -
  from assms obtain t' where ys: "ys = CHR '':'' # t" by (cases ys) (auto split: if_splits)
  with assms(1) have d: "\<forall>d u. t = d # u \<longrightarrow> to_digit 16 d = None"
    by (auto simp: stops_def split: list.splits)
  then have "read_digits 16 0 0 t = (0, 0, t)" "read_digits 10 0 0 t = (0, 0, t)"
    by (auto intro!: read_digits_stop dest: to_digit_10_16)
  then show ?thesis
    by (auto simp: read_number_def read_ipv4_unfold read_separator_def
        split: option.splits)
qed

text \<open>Groups as \<open>read_groups\<close> meets them: separated, with a leading colon after the first.\<close>

definition group_str :: "nat \<Rightarrow> u16 list \<Rightarrow> string" where
  "group_str i gs =
     (if i = 0 then join_str '':'' (map show_hex16 gs)
      else concat (map (\<lambda>g. CHR '':'' # show_hex16 g) gs))"

lemma join_str_Cons:
  "join_str sep (s # ss) = s @ concat (map (\<lambda>t. sep @ t) ss)"
  by (induction ss arbitrary: s) simp_all

lemma group_str_Cons:
  "group_str i (g # gs) =
     (if i = 0 then [] else '':'') @ show_hex16 g @ group_str (i + 1) gs"
  by (simp add: group_str_def join_str_Cons comp_def)

lemma group_str_Nil [simp]: "group_str i [] = []"
  by (simp add: group_str_def)

lemma show_hex16_digits: "list_all (\<lambda>c. to_digit 16 c \<noteq> None) (show_hex16 w)"
  unfolding show_hex16_def by (rule show_radix_digits) auto

lemma stops_group_str:
  assumes "0 < i" "stops ys"
  shows "\<forall>c s. group_str i gs @ ys = c # s \<longrightarrow> to_digit 16 c = None \<and> c \<noteq> CHR ''.''"
  using assms by (cases gs) (auto simp: group_str_Cons stops_def split: list.splits)

lemma read_ipv4_group_fail:
  assumes "stops ys"
  shows "read_ipv4_addr (show_hex16 g @ group_str (i + 1) gs @ ys) = None"
proof (rule read_ipv4_addr_fail)
  have "read_given_char (CHR ''.'') (snd (snd (read_digits 10 acc k (xs @ zs)))) = None"
    if "list_all (\<lambda>c. to_digit 16 c \<noteq> None) xs"
      "\<forall>c s. zs = c # s \<longrightarrow> to_digit 16 c = None \<and> c \<noteq> CHR ''.''" for xs zs acc k
    using that
  proof (induction xs arbitrary: acc k)
    case Nil
    then show ?case by (cases zs) (auto dest: to_digit_10_16)
  next
    case (Cons x xs)
    then have "x \<noteq> CHR ''.''" by auto
    with Cons show ?case by (auto split: option.splits)
  qed
  then show "read_given_char (CHR ''.'')
      (snd (snd (read_digits 10 0 0 (show_hex16 g @ group_str (i + 1) gs @ ys)))) = None"
    using show_hex16_digits [of g] stops_group_str [of "i + 1" ys gs] assms by simp
qed

lemma read_separator_None:
  assumes "p s = None" and "\<And>t. read_given_char sep s = Some t \<Longrightarrow> p t = None"
  shows "read_separator sep i p s = None"
  using assms by (cases "read_given_char sep s") (auto simp: read_separator_def)

lemma read_groups_stop: "stops ys \<Longrightarrow> read_groups n i ys = ([], False, ys)"
proof (cases n)
  case (Suc m)
  assume s: "stops ys"
  have "read_separator (CHR '':'') i read_ipv4_addr ys = None"
    "read_separator (CHR '':'') i (read_number 16 (Some 4) True 65536) ys = None"
    using stops_sep [OF s] read_ipv4_addr_stops [OF s] read_number_stops [OF s]
    by (auto intro!: read_separator_None)
  with Suc show ?thesis by simp
qed simp

lemma read_groups_show:
  assumes "length gs \<le> n" "stops ys"
  shows "read_groups n i (group_str i gs @ ys) = (gs, False, ys)"
  using assms
proof (induction gs arbitrary: n i)
  case Nil
  then show ?case by (simp add: read_groups_stop)
next
  case (Cons g gs)
  then obtain m where n: "n = Suc m" by (cases n) auto
  have v4: "read_separator (CHR '':'') i read_ipv4_addr (group_str i (g # gs) @ ys) = None"
    using Cons.prems read_ipv4_group_fail [of ys g i gs]
    by (cases i) (simp_all add: read_separator_def group_str_Cons)
  have num: "read_separator (CHR '':'') i (read_number 16 (Some 4) True 65536)
      (group_str i (g # gs) @ ys) = Some (unat g, group_str (i + 1) gs @ ys)"
    using Cons.prems stops_group_str [of "i + 1" ys gs]
      read_number_hex16 [of "group_str (i + 1) gs @ ys" g]
    by (cases i) (simp_all add: read_separator_def group_str_Cons)
  have "read_groups m (i + 1) (group_str (i + 1) gs @ ys) = (gs, False, ys)"
    using Cons n by simp
  with v4 num n show ?case by simp
qed

lemma read_groups_v4:
  assumes "\<forall>c s. ys = c # s \<longrightarrow> to_digit 10 c = None"
  shows "read_groups (Suc (Suc n)) 1 (CHR '':'' # show_ipv4 (Ipv4 a b c d) @ ys) =
         ([be16 a b, be16 c d], True, ys)"
  using read_ipv4_addr_show [OF assms, of "Ipv4 a b c d"]
  by (simp add: read_separator_def del: show_ipv4.simps)

lemma be16_hi_lo [simp]: "be16 (hi8 w) (lo8 w) = w"
proof -
  have "(push_bit 8 (ucast (ucast (drop_bit 8 w) :: u8)) :: u16) + ucast (ucast w :: u8) =
      push_bit 8 (drop_bit 8 w) + take_bit 8 w"
    by (rule arg_cong2 [where f = "(+)"]; rule bit_word_eqI;
        auto simp: bit_simps dest: bit_imp_le_length)
  also have "\<dots> = w" by (metis bits_ident)
  finally show ?thesis by (simp add: be16_def hi8_def lo8_def)
qed

subsection \<open>The longest zero run\<close>

definition zeros_at :: "u16 list \<Rightarrow> nat \<times> nat \<Rightarrow> bool" where
  "zeros_at sg r \<longleftrightarrow> fst r + snd r \<le> length sg \<and>
     (\<forall>j. fst r \<le> j \<and> j < fst r + snd r \<longrightarrow> sg ! j = 0)"

lemma zero_run_zeros:
  assumes "drop i sg = ws" "i \<le> length sg"
    and "0 < snd cur \<longrightarrow> fst cur + snd cur = i \<and> zeros_at sg cur"
    and "zeros_at sg longest"
  shows "zeros_at sg (zero_run i cur longest ws)"
  using assms
proof (induction i cur longest ws rule: zero_run.induct)
  case (1 i cur longest)
  then show ?case by simp
next
  case (2 i cs cl ls ll w ws)
  have pos: "i < length sg \<and> sg ! i = w \<and> drop (i + 1) sg = ws"
  proof -
    have "i < length sg" using 2(3) by (cases "i < length sg") simp_all
    with 2(3) show ?thesis by (auto simp: Cons_nth_drop_Suc [symmetric])
  qed
  then have len: "i < length sg" and w: "sg ! i = w" and dr: "drop (i + 1) sg = ws" by auto
  show ?case
  proof (cases "w = 0")
    case True
    let ?cur = "(if cl = 0 then i else cs, cl + 1)"
    have z: "zeros_at sg ?cur" and e: "fst ?cur + snd ?cur = i + 1"
      using 2(5) True w len by (auto simp: zeros_at_def less_Suc_eq)
    have "zero_run i (cs, cl) (ls, ll) (w # ws) =
        zero_run (i + 1) ?cur (if ll < snd ?cur then ?cur else (ls, ll)) ws"
      by (simp only: zero_run.simps Let_def True simp_thms if_True)
    moreover have "zeros_at sg (if ll < snd ?cur then ?cur else (ls, ll))"
      using z 2(6) by (simp only: split: if_split) blast
    ultimately show ?thesis
      using 2(1) [OF True refl dr] z e len by (simp only: Suc_leI Suc_eq_plus1 [symmetric]) blast
  next
    case False
    then show ?thesis using 2(2) [OF False dr] 2(6) len by simp
  qed
qed

lemma zeros_at_split:
  assumes "zeros_at sg (st, ln)"
  shows "sg = take st sg @ replicate ln 0 @ drop (st + ln) sg"
proof -
  have "take ln (drop st sg) = replicate ln 0"
    using assms by (intro nth_equalityI) (auto simp: zeros_at_def)
  then show ?thesis
    by (metis append_take_drop_id drop_drop add.commute)
qed

lemma eight_Suc: "(8::nat) = Suc (Suc (Suc (Suc (Suc (Suc (Suc (Suc 0)))))))"
  by simp

lemma ipv6_of_segments [simp]: "ipv6_of_list (segments a) = Some a"
  by (cases a) simp

lemma length_segments [simp]: "length (segments a) = 8"
  by (cases a) simp

lemma zero_run_bound:
  "snd cur + length ws \<le> n \<Longrightarrow> snd longest \<le> n \<Longrightarrow> snd (zero_run i cur longest ws) \<le> n"
  by (induction i cur longest ws rule: zero_run.induct) (auto simp: Let_def)

lemma group_str_0: "group_str 0 gs = join_str '':'' (map show_hex16 gs)"
  by (simp add: group_str_def)

lemma read_groups_ffff:
  assumes "read_groups n 1 (CHR '':'' # v) = (gs, b, ys)" "1 \<le> n"
  shows "read_groups (Suc n) 0 (''ffff:'' @ v) = (0xffff # gs, b, ys)"
proof -
  have "read_ipv4_addr (''ffff:'' @ v) = None"
    by (intro read_ipv4_addr_fail) (simp add: to_digit_def)
  moreover have "read_number 16 (Some 4) True 65536 (''ffff:'' @ v) = Some (0xffff, CHR '':'' # v)"
    by (simp add: read_number_def to_digit_def)
  ultimately show ?thesis
    using assms by (simp add: read_separator_def)
qed

lemma read_ipv6_mapped:
  assumes "stops ys"
  shows "read_ipv6_addr (''::ffff:'' @ show_ipv4 (Ipv4 a b c d) @ ys) =
    Some (Ipv6 0 0 0 0 0 0xffff (be16 a b) (be16 c d), ys)"
proof -
  have st: "\<forall>c s. ys = c # s \<longrightarrow> to_digit 10 c = None"
    using assms by (auto simp: stops_def to_digit_10_16)
  define v where "v = show_ipv4 (Ipv4 a b c d) @ ys"
  have h: "read_groups 8 0 (''::ffff:'' @ v) = ([], False, ''::ffff:'' @ v)"
    by (intro read_groups_stop) simp
  have "read_groups (Suc (Suc 4)) 1 (CHR '':'' # v) = ([be16 a b, be16 c d], True, ys)"
    unfolding v_def by (rule read_groups_v4 [OF st])
  then have "read_groups (Suc (Suc (Suc 4))) 0 (''ffff:'' @ v) =
      ([0xffff, be16 a b, be16 c d], True, ys)"
    by (rule read_groups_ffff) simp
  moreover have "Suc (Suc (Suc 4)) = 8 - (0 + 1)" by simp
  ultimately have "read_groups (8 - (0 + 1)) 0 (''ffff:'' @ v) =
      ([0xffff, be16 a b, be16 c d], True, ys)" by (simp only:)
  moreover have "replicate (8 - 0 - 3) 0 = [0, 0, 0, 0, 0 :: u16]"
    by (simp add: numeral_eq_Suc)
  ultimately show ?thesis
    using h unfolding v_def [symmetric] by (simp add: read_ipv6_addr_def)
qed

lemma read_ipv6_full:
  assumes "stops ys"
  shows "read_ipv6_addr (group_str 0 (segments a) @ ys) = Some (a, ys)"
  using read_groups_show [of "segments a" 8 ys 0] assms by (simp add: read_ipv6_addr_def)

lemma read_ipv6_run:
  assumes "stops ys" "zeros_at (segments a) (st, ln)" "1 < ln"
  shows "read_ipv6_addr (group_str 0 (take st (segments a)) @ ''::'' @
      group_str 0 (drop (st + ln) (segments a)) @ ys) = Some (a, ys)"
proof -
  let ?h = "take st (segments a)" and ?t = "drop (st + ln) (segments a)"
  have le: "st + ln \<le> 8" using assms(2) by (simp add: zeros_at_def)
  have "stops (''::'' @ group_str 0 ?t @ ys)" by simp
  then have hd: "read_groups 8 0 (group_str 0 ?h @ ''::'' @ group_str 0 ?t @ ys) =
      (?h, False, ''::'' @ group_str 0 ?t @ ys)"
    by (intro read_groups_show) simp_all
  have tl: "read_groups (8 - (st + 1)) 0 (group_str 0 ?t @ ys) = (?t, False, ys)"
    using assms le by (intro read_groups_show) simp_all
  have "?h @ replicate (8 - st - (8 - (st + ln))) 0 @ ?t = segments a"
    using zeros_at_split [OF assms(2)] le by simp
  with hd tl le assms(3) show ?thesis by (simp add: read_ipv6_addr_def min_absorb2)
qed

lemma show_ipv6_cases:
  obtains (mapped) s6 s7 where "a = Ipv6 0 0 0 0 0 0xffff s6 s7"
      "show_ipv6 a = ''::ffff:'' @ show_ipv4 (Ipv4 (hi8 s6) (lo8 s6) (hi8 s7) (lo8 s7))"
  | (full) "show_ipv6 a = group_str 0 (segments a)"
  | (run) st ln where "zeros_at (segments a) (st, ln)" "1 < ln"
      "show_ipv6 a = group_str 0 (take st (segments a)) @ ''::'' @
         group_str 0 (drop (st + ln) (segments a))"
proof -
  obtain s0 s1 s2 s3 s4 s5 s6 s7 where a: "a = Ipv6 s0 s1 s2 s3 s4 s5 s6 s7" by (cases a)
  obtain st ln where r: "zero_run 0 (0, 0) (0, 0) (segments a) = (st, ln)" by fastforce
  have z: "zeros_at (segments a) (st, ln)"
    using zero_run_zeros [of 0 "segments a" "segments a" "(0, 0)" "(0, 0)"] r
    by (simp add: zeros_at_def)
  show ?thesis
  proof (cases "s0 = 0 \<and> s1 = 0 \<and> s2 = 0 \<and> s3 = 0 \<and> s4 = 0 \<and> s5 = 0xffff")
    case True
    with a show ?thesis by (intro mapped [of s6 s7]) (simp_all add: show_ipv6_def)
  next
    case False
    then have "show_ipv6 a =
        (if 1 < ln then group_str 0 (take st (segments a)) @ ''::'' @
                        group_str 0 (drop (st + ln) (segments a))
         else group_str 0 (segments a))"
      using r unfolding show_ipv6_def a group_str_0 by (simp only: ipv6.case if_False Let_def prod.case)
    then show ?thesis using run [OF z] full by (cases "1 < ln") simp_all
  qed
qed

lemma read_ipv6_addr_show:
  assumes "stops ys"
  shows "read_ipv6_addr (show_ipv6 a @ ys) = Some (a, ys)"
proof (cases a rule: show_ipv6_cases)
  case (mapped s6 s7)
  then show ?thesis
    using read_ipv6_mapped [OF assms, of "hi8 s6" "lo8 s6" "hi8 s7" "lo8 s7"]
    by (simp del: show_ipv4.simps)
next
  case full
  then show ?thesis using read_ipv6_full [OF assms, of a] by simp
next
  case (run st ln)
  then show ?thesis using read_ipv6_run [OF assms run(1,2)] by simp
qed

lemma read_ipv4_addr_group_str:
  assumes "stops ys"
  shows "read_ipv4_addr (group_str 0 gs @ ys) = None"
  using read_ipv4_group_fail [OF assms] read_ipv4_addr_stops [OF assms]
  by (cases gs) (simp_all add: group_str_Cons)

lemma read_ipv4_addr_show_ipv6:
  assumes "stops ys"
  shows "read_ipv4_addr (show_ipv6 a @ ys) = None"
proof (cases a rule: show_ipv6_cases)
  case (mapped s6 s7)
  then show ?thesis by (simp add: read_ipv4_addr_stops)
next
  case full
  then show ?thesis using read_ipv4_addr_group_str [OF assms] by simp
next
  case (run st ln)
  then show ?thesis
    using read_ipv4_addr_group_str [of "''::'' @ group_str 0 (drop (st + ln) (segments a)) @ ys"]
    by simp
qed

lemma parse_ip_show [simp]: "parse_ip (show_ip ip) = Some ip"
proof (cases ip)
  case (IpV4 a)
  then show ?thesis
    using read_ipv4_addr_show [of "[]" a] by (simp add: parse_ip_def parse_with_def read_ip_addr_def)
next
  case (IpV6 a)
  then show ?thesis
    using read_ipv4_addr_show_ipv6 [of "[]" a] read_ipv6_addr_show [of "[]" a]
    by (simp add: parse_ip_def parse_with_def read_ip_addr_def)
qed

lemma parse_ip_show_ipv4 [simp]: "parse_ip (show_ipv4 a) = Some (IpV4 a)"
  using parse_ip_show [of "IpV4 a"] by simp

lemma parse_ip_show_ipv6 [simp]: "parse_ip (show_ipv6 a) = Some (IpV6 a)"
  using parse_ip_show [of "IpV6 a"] by simp

text \<open>A name that does not start with a hexadecimal digit, a colon or a dot is not an IP address.\<close>

lemma parse_ip_no_digit:
  assumes "stops (c # s)" "c \<noteq> CHR '':''"
  shows "parse_ip (c # s) = None"
  using assms
  by (simp add: parse_ip_def parse_with_def read_ip_addr_def read_ipv6_addr_def
      read_ipv4_addr_stops read_groups_stop)

lemma parse_ip_bracket: "parse_ip (CHR ''['' # s) = None"
  by (simp add: parse_ip_def parse_with_def read_ip_addr_def read_ipv6_addr_def
      read_ipv4_addr_stops read_groups_stop stops_def)

subsection \<open>Socket addresses\<close>

lemma read_port_show: "read_port (CHR '':'' # show_u16 p) = Some (p, [])"
proof -
  have "read_number 10 None True 65536 (show_radix 10 (unat p) @ []) = Some (unat p, [])"
    using unat_u16_less [of p] by (intro read_number_show) auto
  then show ?thesis by (simp add: read_port_def show_u16_def)
qed

lemma read_scope_id_show:
  "read_scope_id (CHR ''%'' # show_radix 10 (unat sc) @ CHR '']'' # ys) = (sc, CHR '']'' # ys)"
proof -
  have "read_number 10 None True (2 ^ 32) (show_radix 10 (unat sc) @ CHR '']'' # ys) =
      Some (unat sc, CHR '']'' # ys)"
    using unat_u32_less [of sc] by (intro read_number_show) auto
  then show ?thesis by (simp add: read_scope_id_def)
qed

lemma read_socket_addr_v4_bracket: "read_socket_addr_v4 (CHR ''['' # s) = None"
  by (simp add: read_socket_addr_v4_def read_ipv4_addr_stops stops_def)

lemma parse_socket_addr_show_v4: "parse_socket_addr (show_socket_addr (SV4 a p)) = Some (SV4 a p)"
  using read_ipv4_addr_show [of "CHR '':'' # show_u16 p" a]
  by (simp add: parse_socket_addr_def parse_with_def read_socket_addr_v4_def read_port_show)

lemma parse_socket_addr_show_v6:
  "parse_socket_addr (show_socket_addr (SV6 s)) = Some (SV6 (s\<lparr>v6_flowinfo := 0\<rparr>))"
proof (cases "v6_scope_id s = 0")
  case True
  then show ?thesis
    using read_ipv6_addr_show [of "CHR '']'' # CHR '':'' # show_u16 (v6_port s)" "v6_ip s"]
    by (cases s) (simp add: parse_socket_addr_def parse_with_def read_socket_addr_v4_bracket
        read_socket_addr_v6_def read_port_show read_scope_id_def)
next
  case False
  let ?sc = "CHR ''%'' # show_radix 10 (unat (v6_scope_id s)) @ CHR '']'' # CHR '':'' # show_u16 (v6_port s)"
  from False show ?thesis
    using read_ipv6_addr_show [of ?sc "v6_ip s"]
    by (cases s) (simp add: parse_socket_addr_def parse_with_def read_socket_addr_v4_bracket
        read_socket_addr_v6_def read_port_show read_scope_id_show)
qed

text \<open>What printing and parsing keep of a socket address: all but the IPv6 flow label.\<close>

fun clear_flowinfo :: "socket_addr \<Rightarrow> socket_addr" where
  "clear_flowinfo (SV4 a p) = SV4 a p"
| "clear_flowinfo (SV6 s) = SV6 (s\<lparr>v6_flowinfo := 0\<rparr>)"

lemma parse_socket_addr_show [simp]:
  "parse_socket_addr (show_socket_addr s) = Some (clear_flowinfo s)"
  using parse_socket_addr_show_v4 parse_socket_addr_show_v6
  by (cases s) (simp_all del: show_socket_addr.simps)

subsection \<open>Address and AddressDomain\<close>

lemma parse_u16_show [simp]: "parse_u16 (show_u16 p) = Some p"
  using unat_u16_less [of p] by (simp add: parse_u16_def show_u16_def parse_unsigned_show)

lemma show_u16_no_colon: "CHR '':'' \<notin> set (show_u16 p)"
  unfolding show_u16_def by (rule show_radix_no_char) simp_all

lemma split_host_port_show [simp]:
  "split_host_port (h @ CHR '':'' # show_u16 p) = Inr (h, p)"
  using rsplitn2_append [OF show_u16_no_colon, of h p] by (simp add: split_host_port_def)

lemma split_host_port_Inr:
  "split_host_port s = Inr (h, p) \<Longrightarrow>
   \<exists>t. s = h @ CHR '':'' # t \<and> CHR '':'' \<notin> set t \<and> parse_u16 t = Some p"
  by (auto simp: split_host_port_def and_then_Inr_iff split: prod.splits
      dest!: rsplitn2_Some elim!: ok_or.elims)

lemma split_host_port_Inl: "split_host_port s = Inl e \<Longrightarrow> e = no_addr"
  by (cases "parse_u16 (fst (rsplitn2 (CHR '':'') s))"; cases "snd (rsplitn2 (CHR '':'') s)")
     (auto simp: split_host_port_def split: prod.splits)

lemma address_domain_from_str_show [simp]:
  "address_domain_from_str (show_address_domain d) = Inr d"
  by (simp add: address_domain_from_str_def show_address_domain_def)

lemma strip_brackets_bracketed [simp]: "strip_brackets (CHR ''['' # h @ '']'') = h"
proof -
  have "strip_prefix (CHR ''['' # h @ '']'') ''['' = Some (h @ '']'')"
    "strip_suffix (h @ '']'') '']'' = Some h"
    by (simp_all add: strip_prefix_Some strip_suffix_Some)
  then show ?thesis by (simp add: strip_brackets_def)
qed

lemma strip_brackets_plain: "\<forall>t. h \<noteq> CHR ''['' # t \<Longrightarrow> strip_brackets h = h"
  by (auto simp: strip_brackets_def bind_eq_Some_conv strip_prefix_Some split: option.splits)

lemma show_u8_hd: "show_u8 w @ t \<noteq> CHR ''['' # u"
proof
  assume "show_u8 w @ t = CHR ''['' # u"
  then have "CHR ''['' \<in> set (show_u8 w)"
    by (metis show_radix_nonempty show_u8_def hd_append2 list.sel(1) hd_in_set)
  then show False using show_radix_no_char [of 10 "CHR ''[''" "unat w"] by (simp add: show_u8_def)
qed

lemma strip_brackets_ipv4 [simp]: "strip_brackets (show_ipv4 a) = show_ipv4 a"
  by (cases a) (simp add: strip_brackets_plain show_u8_hd)

lemma host_to_address_normalize: "host_to_address h p = to_normalized (Domain h p)"
  by (auto simp: host_to_address_def to_normalized_def split: option.splits)

lemma to_normalized_idem [simp]: "to_normalized (to_normalized a) = to_normalized a"
  by (cases a) (auto simp: to_normalized_def split: option.splits)

lemma into_address_show_domain [simp]:
  "into_address (show_address (Domain d p)) = Inr (to_normalized (Domain d p))"
  by (simp add: into_address_def host_to_address_normalize)

lemma into_address_show_v4:
  "into_address (show_address (SocketAddr (SV4 a p))) = Inr (SocketAddr (SV4 a p))"
  by (simp add: into_address_def host_to_address_def socket_addr_new_def)

lemma into_address_show_v6:
  assumes "v6_scope_id s = 0"
  shows "into_address (show_address (SocketAddr (SV6 s))) =
    Inr (SocketAddr (SV6 (s\<lparr>v6_flowinfo := 0\<rparr>)))"
proof -
  have "split_host_port ((CHR ''['' # show_ipv6 (v6_ip s) @ '']'') @ CHR '':'' # show_u16 (v6_port s)) =
      Inr (CHR ''['' # show_ipv6 (v6_ip s) @ '']'', v6_port s)"
    by (rule split_host_port_show)
  with assms show ?thesis
    by (cases s) (simp add: into_address_def host_to_address_def socket_addr_new_def)
qed

lemma addr_port_normalized [simp]: "addr_port (to_normalized a) = addr_port a"
  by (cases a) (auto simp: to_normalized_def socket_addr_new_def split: option.splits ip_addr.splits)

lemma to_socket_addr_normalized:
  "to_socket_addr a = Inr s \<longleftrightarrow> to_normalized a = SocketAddr s"
  by (cases a) (auto simp: to_normalized_def to_socket_addr_def split: option.splits)

lemma hi8_be16 [simp]: "hi8 (be16 a b) = a" and lo8_be16 [simp]: "lo8 (be16 a b) = b"
proof -
  have or: "be16 a b = or (push_bit 8 (ucast a)) (ucast b)"
    unfolding be16_def
    by (intro disjunctive_add) (auto simp: bit_simps dest: bit_imp_le_length)
  show "hi8 (be16 a b) = a" "lo8 (be16 a b) = b"
    unfolding hi8_def lo8_def or
    by (rule bit_word_eqI, auto simp: bit_simps dest: bit_imp_le_length)+
qed

lemma be16_eq_iff: "w = be16 a b \<longleftrightarrow> hi8 w = a \<and> lo8 w = b"
  by (metis be16_hi_lo hi8_be16 lo8_be16)

lemma to_ipv4_mapped_iff:
  "to_ipv4_mapped a = Some (Ipv4 p q r s) \<longleftrightarrow> a = Ipv6 0 0 0 0 0 0xffff (be16 p q) (be16 r s)"
proof -
  have "(0::u16) = be16 0 0" "(0xffff::u16) = be16 0xff 0xff"
    by (simp_all add: be16_def)
  then have "w = 0 \<longleftrightarrow> hi8 w = 0 \<and> lo8 w = 0" "w = 0xffff \<longleftrightarrow> hi8 w = 0xff \<and> lo8 w = 0xff" for w
    using be16_eq_iff by metis+
  then show ?thesis
    by (cases a) (auto simp: to_ipv4_mapped_def octets6_def be16_eq_iff)
qed

lemma resolve_mapped_idem:
  "resolve_mapped_socket_addr (resolve_mapped_socket_addr s) = resolve_mapped_socket_addr s"
  by (auto simp: resolve_mapped_socket_addr_def socket_addr_new_def
      split: socket_addr.splits option.splits)

text \<open>What was parsed is printed to a string that parses back to it.\<close>

lemma into_address_show:
  assumes "into_address s = Inr a"
  shows "into_address (show_address a) = Inr a"
proof -
  from assms obtain h p where a: "a = to_normalized (Domain h p)"
    by (auto simp: into_address_def map_ok_Inr_iff host_to_address_normalize)
  show ?thesis
  proof (cases "normalize (Domain h p)")
    case (Inr dp)
    then have "a = Domain h p" "to_normalized a = a"
      using a by (auto simp: to_normalized_def split: option.splits)
    then show ?thesis using into_address_show_domain [of h p] by (simp del: show_address.simps)
  next
    case (Inl sa)
    then obtain ip where "a = SocketAddr (socket_addr_new ip p)"
      using a by (auto simp: to_normalized_def split: option.splits)
    then show ?thesis
      using into_address_show_v4 into_address_show_v6
      by (cases ip) (simp_all add: socket_addr_new_def del: show_address.simps)
  qed
qed

section \<open>Properties\<close>

text \<open>C28: every address that \<open>Address::from_str\<close> accepts is printed by its \<open>Display\<close> to a string
  that parses back to the same address (IPv4, bracketed or bare IPv6, domain, any port).\<close>

theorem into_address_stable:
  assumes "into_address s = Inr a"
  shows "into_address (show_address a) = Inr a"
  using assms by (rule into_address_show)

lemmas into_address_eval =
  into_address_def split_host_port_def rsplitn2_def parse_u16_def parse_unsigned_def
  host_to_address_def strip_brackets_def strip_prefix_def strip_suffix_def starts_with_def
  ends_with_def parse_ip_def parse_with_def read_ip_addr_def read_ipv4_unfold
  read_separator_def read_number_def to_digit_def socket_addr_new_def

lemma into_address_stable_witness:
  "into_address ''1.2.3.4:80'' = Inr (SocketAddr (SV4 (Ipv4 1 2 3 4) 80)) \<and>
   into_address (show_address (SocketAddr (SV4 (Ipv4 1 2 3 4) 80))) =
     Inr (SocketAddr (SV4 (Ipv4 1 2 3 4) 80))"
proof -
  have "into_address ''1.2.3.4:80'' = Inr (SocketAddr (SV4 (Ipv4 1 2 3 4) 80))"
    by (simp add: into_address_eval)
  with into_address_stable [OF this] show ?thesis by blast
qed

text \<open>\<open>Display\<close> and \<open>FromStr\<close> of \<open>AddressDomain\<close> are inverse for every domain string, colons
  included, and every port.\<close>

lemma address_domain_roundtrip:
  "address_domain_from_str (show_address_domain d) = Inr d"
  by simp

lemma parse_ip_scoped: "parse_ip (show_ipv6 a @ CHR ''%'' # t) = None"
  using read_ipv4_addr_show_ipv6 [of "CHR ''%'' # t" a] read_ipv6_addr_show [of "CHR ''%'' # t" a]
  by (simp add: parse_ip_def parse_with_def read_ip_addr_def)

text \<open>An IPv6 socket address with a scope id does not survive printing and parsing: the
  parser turns its text into a domain name, because \<open>IpAddr::from_str\<close> knows no scope.\<close>

lemma into_address_scoped_becomes_domain:
  assumes "v6_scope_id s \<noteq> 0"
  shows "into_address (show_address (SocketAddr (SV6 s))) =
    Inr (Domain (''['' @ show_ipv6 (v6_ip s) @ ''%'' @ show_radix 10 (unat (v6_scope_id s)) @ '']'')
           (v6_port s))"
proof -
  let ?h = "show_ipv6 (v6_ip s) @ ''%'' @ show_radix 10 (unat (v6_scope_id s))"
  have "split_host_port ((CHR ''['' # ?h @ '']'') @ CHR '':'' # show_u16 (v6_port s)) =
      Inr (CHR ''['' # ?h @ '']'', v6_port s)"
    by (rule split_host_port_show)
  moreover have "strip_brackets (CHR ''['' # ?h @ '']'') = ?h" by (rule strip_brackets_bracketed)
  ultimately show ?thesis
    using assms by (simp add: into_address_def host_to_address_def parse_ip_scoped)
qed

lemma into_address_scoped_witness:
  "into_address (show_address (SocketAddr (SV6 \<lparr>v6_ip = Ipv6 0xfe80 0 0 0 0 0 0 1, v6_port = 53,
      v6_flowinfo = 0, v6_scope_id = 2\<rparr>))) =
   Inr (Domain (''['' @ show_ipv6 (Ipv6 0xfe80 0 0 0 0 0 0 1) @ ''%2]'') 53)"
proof -
  have "show_radix 10 2 = ''2''" by code_simp
  then show ?thesis
    using into_address_scoped_becomes_domain
      [of "\<lparr>v6_ip = Ipv6 0xfe80 0 0 0 0 0 0 1, v6_port = 53, v6_flowinfo = 0, v6_scope_id = 2\<rparr>"]
    by simp
qed

end
