(* ===== verification/RD_CompactVec.thy ===== *)
theory RD_CompactVec
  imports RD_Address
begin

text \<open>
  String lists of \<^verbatim>\<open>rd-interface/src/config/compact_vec_string.rs\<close> and \<open>SingleOrVec\<close> of
  \<^verbatim>\<open>single_or_vec.rs\<close>.

  \<open>CompactVecString\<close> keeps all its strings in one byte vector with the start offset of each;
  \<open>get\<close> cuts a slice out of it and trusts, unsafely, that it is UTF-8. A slice out of range
  panics: \<open>Panic\<close> is that outcome. The abstraction \<open>strings\<close> is the list of strings stored;
  the interface \<open>string_vec\<close> states what a client may rely on, and the interpretation shows
  that the offset representation keeps it: every slice is a string that was pushed.

  \<open>json\<close> is \<open>serde_json::Value\<close>, the form in which the types are stored and exchanged.
\<close>

datatype 'a outcome = Panic | Ret 'a

datatype json =
    JNull
  | JBool bool
  | JNumber int
  | JString string
  | JArray "json list"
  | JObject "string \<Rightarrow> json option"

section \<open>CompactVecString\<close>

record compact_vec_string =
  underlying :: "char list"
  index :: "nat list"

definition cvs_new :: compact_vec_string where
  "cvs_new = \<lparr>underlying = [], index = []\<rparr>"

definition cvs_push :: "string \<Rightarrow> compact_vec_string \<Rightarrow> compact_vec_string" where
  "cvs_push s c =
     (let len = length (underlying c)
      in \<lparr>underlying = underlying c @ s, index = index c @ [len]\<rparr>)"

definition cvs_pop :: "compact_vec_string \<Rightarrow> compact_vec_string" where
  "cvs_pop c =
     (if index c = [] then c
      else \<lparr>underlying = take (last (index c)) (underlying c), index = butlast (index c)\<rparr>)"

definition cvs_len :: "compact_vec_string \<Rightarrow> nat" where
  "cvs_len c = length (index c)"

text \<open>\<open>&v[start..end]\<close>, which panics unless \<open>start <= end <= v.len()\<close>.\<close>

definition slice :: "'a list \<Rightarrow> nat \<Rightarrow> nat \<Rightarrow> 'a list outcome" where
  "slice v a b = (if a \<le> b \<and> b \<le> length v then Ret (take (b - a) (drop a v)) else Panic)"

definition cvs_get :: "compact_vec_string \<Rightarrow> nat \<Rightarrow> string option outcome" where
  "cvs_get c i =
     (if length (index c) \<le> i then Ret None
      else
        (let start = index c ! i;
             fin = (if i + 1 < length (index c) then index c ! (i + 1) else length (underlying c))
         in case slice (underlying c) start fin of Panic \<Rightarrow> Panic | Ret s \<Rightarrow> Ret (Some s)))"

text \<open>\<open>Iter\<close> and its \<open>next\<close>; collecting an iterator calls \<open>next\<close> until it returns \<open>None\<close>.\<close>

record cvs_iter =
  inner :: compact_vec_string
  iter_index :: nat

definition cvs_iter_of :: "compact_vec_string \<Rightarrow> cvs_iter" where
  "cvs_iter_of c = \<lparr>inner = c, iter_index = 0\<rparr>"

definition iter_next :: "cvs_iter \<Rightarrow> string option outcome \<times> cvs_iter" where
  "iter_next it =
     (let result = cvs_get (inner it) (iter_index it)
      in (result, it\<lparr>iter_index := iter_index it + 1\<rparr>))"

function iter_collect :: "cvs_iter \<Rightarrow> string list outcome" where
  "iter_collect it =
     (case iter_next it of
        (Panic, _) \<Rightarrow> Panic
      | (Ret None, _) \<Rightarrow> Ret []
      | (Ret (Some s), it') \<Rightarrow>
          (case iter_collect it' of Panic \<Rightarrow> Panic | Ret ss \<Rightarrow> Ret (s # ss)))"
  by pat_completeness auto
termination
  by (relation "measure (\<lambda>it. length (index (inner it)) - iter_index it)")
     (auto simp: iter_next_def cvs_get_def Let_def split: if_splits)

declare iter_collect.simps [simp del]

definition cvs_join :: "compact_vec_string \<Rightarrow> string \<Rightarrow> string outcome" where
  "cvs_join c sep =
     (case iter_collect (cvs_iter_of c) of Panic \<Rightarrow> Panic | Ret ss \<Rightarrow> Ret (join_str sep ss))"

definition cvs_extend :: "string list \<Rightarrow> compact_vec_string \<Rightarrow> compact_vec_string" where
  "cvs_extend ss c = foldl (\<lambda>c s. cvs_push s c) c ss"

definition cvs_from_iter :: "string list \<Rightarrow> compact_vec_string" where
  "cvs_from_iter ss = cvs_extend ss cvs_new"

definition cvs_from_str :: "string \<Rightarrow> compact_vec_string" where
  "cvs_from_str s = cvs_push s cvs_new"

definition cvs_serialize :: "compact_vec_string \<Rightarrow> json outcome" where
  "cvs_serialize c =
     (let all_items = (case iter_collect (cvs_iter_of c) of
                         Panic \<Rightarrow> Panic | Ret ss \<Rightarrow> Ret (JArray (map JString ss)))
      in if cvs_len c = 1 then
           (case cvs_get c 0 of
              Panic \<Rightarrow> Panic | Ret (Some s) \<Rightarrow> Ret (JString s) | Ret None \<Rightarrow> all_items)
         else all_items)"

text \<open>\<open>visit_seq\<close>: every element must deserialise to a \<open>String\<close>. The error is the message of
  serde.\<close>

fun cvs_visit_seq :: "compact_vec_string \<Rightarrow> json list \<Rightarrow> string + compact_vec_string" where
  "cvs_visit_seq values [] = Inr values"
| "cvs_visit_seq values (JString s # vs) = cvs_visit_seq (cvs_push s values) vs"
| "cvs_visit_seq values (v # vs) = Inl ''invalid type, expected a string''"

fun cvs_deserialize :: "json \<Rightarrow> string + compact_vec_string" where
  "cvs_deserialize (JString s) = Inr (cvs_push s cvs_new)"
| "cvs_deserialize (JArray vs) = cvs_visit_seq cvs_new vs"
| "cvs_deserialize _ = Inl ''invalid type, expected string or [string]''"

definition cvs_eq_vec :: "compact_vec_string \<Rightarrow> string list \<Rightarrow> bool outcome" where
  "cvs_eq_vec c other =
     (if cvs_len c \<noteq> length other then Ret False
      else case iter_collect (cvs_iter_of c) of Panic \<Rightarrow> Panic | Ret ss \<Rightarrow> Ret (ss = other))"

section \<open>SingleOrVec\<close>

datatype 'a single_or_vec = Single 'a | Vec "'a list"

fun sov_extend :: "'a single_or_vec \<Rightarrow> 'a list \<Rightarrow> 'a single_or_vec" where
  "sov_extend (Single i) xs = Vec (i # xs)"
| "sov_extend (Vec v) xs = Vec (v @ xs)"

fun sov_into_vec :: "'a single_or_vec \<Rightarrow> 'a list" where
  "sov_into_vec (Single t) = [t]"
| "sov_into_vec (Vec v) = v"

datatype 'a sov_iter = SingleI "'a option" | VecI "'a list"

fun sov_iter_of :: "'a single_or_vec \<Rightarrow> 'a sov_iter" where
  "sov_iter_of (Single t) = SingleI (Some t)"
| "sov_iter_of (Vec v) = VecI v"

fun sov_next :: "'a sov_iter \<Rightarrow> 'a option \<times> 'a sov_iter" where
  "sov_next (SingleI x) = (x, SingleI None)"
| "sov_next (VecI []) = (None, VecI [])"
| "sov_next (VecI (x # xs)) = (Some x, VecI xs)"

fun sov_left :: "'a sov_iter \<Rightarrow> nat" where
  "sov_left (SingleI None) = 0"
| "sov_left (SingleI (Some x)) = 1"
| "sov_left (VecI xs) = length xs"

lemma sov_next_left: "sov_next it = (Some x, it') \<Longrightarrow> sov_left it' < sov_left it"
  by (cases it rule: sov_next.cases) auto

function sov_collect :: "'a sov_iter \<Rightarrow> 'a list" where
  "sov_collect it = (case sov_next it of (None, _) \<Rightarrow> [] | (Some x, it') \<Rightarrow> x # sov_collect it')"
  by pat_completeness auto
termination
  by (relation "measure sov_left") (auto intro: sov_next_left [OF sym])

declare sov_collect.simps [simp del]

section \<open>The abstraction\<close>

fun cut :: "char list \<Rightarrow> nat list \<Rightarrow> string list" where
  "cut u [] = []"
| "cut u [i] = [drop i u]"
| "cut u (i # j # is) = take (j - i) (drop i u) # cut u (j # is)"

definition strings :: "compact_vec_string \<Rightarrow> string list" where
  "strings c = cut (underlying c) (index c)"

fun offsets :: "nat \<Rightarrow> string list \<Rightarrow> nat list" where
  "offsets n [] = []"
| "offsets n (s # ss) = n # offsets (n + length s) ss"

definition cvs_inv :: "compact_vec_string \<Rightarrow> bool" where
  "cvs_inv c \<longleftrightarrow> concat (strings c) = underlying c \<and> offsets 0 (strings c) = index c"

text \<open>What a client relies on: a list of strings with append at the end, removal at the end
  and indexed access that never fails.\<close>

locale string_vec =
  fixes inv :: "'c \<Rightarrow> bool" and abs :: "'c \<Rightarrow> string list"
    and new :: 'c and push :: "string \<Rightarrow> 'c \<Rightarrow> 'c" and pop :: "'c \<Rightarrow> 'c"
    and len :: "'c \<Rightarrow> nat" and get :: "'c \<Rightarrow> nat \<Rightarrow> string option outcome"
  assumes inv_new: "inv new" and abs_new: "abs new = []"
    and inv_push: "inv c \<Longrightarrow> inv (push s c)"
    and abs_push: "inv c \<Longrightarrow> abs (push s c) = abs c @ [s]"
    and inv_pop: "inv c \<Longrightarrow> inv (pop c)"
    and abs_pop: "inv c \<Longrightarrow> abs (pop c) = butlast (abs c)"
    and len_abs: "inv c \<Longrightarrow> len c = length (abs c)"
    and get_abs: "inv c \<Longrightarrow> get c i = Ret (if i < length (abs c) then Some (abs c ! i) else None)"
begin

lemma extend_abs:
  "inv c \<Longrightarrow> inv (foldl (\<lambda>c s. push s c) c ss) \<and> abs (foldl (\<lambda>c s. push s c) c ss) = abs c @ ss"
  by (induction ss arbitrary: c) (simp_all add: inv_push abs_push)

lemma push_pop: "inv c \<Longrightarrow> abs (pop (push s c)) = abs c"
  by (simp add: abs_pop abs_push inv_push)

text \<open>No slice holds bytes that were not pushed as one string.\<close>

lemma get_only_pushed:
  assumes "inv c" "get c i = Ret (Some s)"
  shows "s \<in> set (abs c)"
  using assms by (auto simp: get_abs split: if_splits)

end

section \<open>The representation implements the interface\<close>

lemma cut_offsets: "n = length pre \<Longrightarrow> cut (pre @ concat ss) (offsets n ss) = ss"
proof (induction ss arbitrary: pre n rule: induct_list012)
  case 1
  then show ?case by simp
next
  case (2 x)
  then show ?case by simp
next
  case (3 x y zs)
  have "cut ((pre @ x) @ concat (y # zs)) (offsets (n + length x) (y # zs)) = y # zs"
    using 3(2) [of "n + length x" "pre @ x"] 3(3) by simp
  with 3(3) show ?case by simp
qed

definition cvs_of :: "string list \<Rightarrow> compact_vec_string" where
  "cvs_of ss = \<lparr>underlying = concat ss, index = offsets 0 ss\<rparr>"

lemma strings_cvs_of [simp]: "strings (cvs_of ss) = ss"
  using cut_offsets [of 0 "[]" ss] by (simp add: strings_def cvs_of_def)

lemma cvs_inv_cvs_of [simp]: "cvs_inv (cvs_of ss)"
  unfolding cvs_inv_def strings_cvs_of by (simp add: cvs_of_def)

lemma cvs_inv_iff: "cvs_inv c \<longleftrightarrow> c = cvs_of (strings c)"
  by (cases c) (auto simp: cvs_inv_def cvs_of_def)

lemma cvs_invE [elim]: "cvs_inv c \<Longrightarrow> (\<And>ss. c = cvs_of ss \<Longrightarrow> P) \<Longrightarrow> P"
  by (metis cvs_inv_iff)

lemma offsets_append: "offsets n (xs @ ys) = offsets n xs @ offsets (n + length (concat xs)) ys"
  by (induction xs arbitrary: n) (simp_all add: add.assoc)

lemma length_offsets [simp]: "length (offsets n ss) = length ss"
  by (induction ss arbitrary: n) simp_all

lemma offsets_nth: "i < length ss \<Longrightarrow> offsets n ss ! i = n + length (concat (take i ss))"
proof (induction ss arbitrary: n i)
  case (Cons s ss)
  then show ?case by (cases i) simp_all
qed simp

lemma cvs_new_of: "cvs_new = cvs_of []"
  by (simp add: cvs_new_def cvs_of_def)

lemma cvs_push_of [simp]: "cvs_push s (cvs_of ss) = cvs_of (ss @ [s])"
  by (simp add: cvs_push_def cvs_of_def offsets_append)

lemma cvs_pop_of [simp]: "cvs_pop (cvs_of ss) = cvs_of (butlast ss)"
proof (cases ss rule: rev_cases)
  case Nil
  then show ?thesis by (simp add: cvs_pop_def cvs_of_def)
next
  case (snoc ys y)
  then show ?thesis by (simp add: cvs_pop_def cvs_of_def offsets_append)
qed

lemma concat_take_nth:
  "i < length ss \<Longrightarrow> concat ss = concat (take i ss) @ ss ! i @ concat (drop (Suc i) ss)"
  by (metis append_take_drop_id concat_append concat.simps(2) Cons_nth_drop_Suc)

lemma cvs_get_of [simp]:
  "cvs_get (cvs_of ss) i = Ret (if i < length ss then Some (ss ! i) else None)"
proof (cases "i < length ss")
  case True
  define a where "a = length (concat (take i ss))"
  have st: "offsets 0 ss ! i = a" using True by (simp add: offsets_nth a_def)
  have fin: "(if i + 1 < length ss then offsets 0 ss ! (i + 1) else length (concat ss)) =
      a + length (ss ! i)"
  proof (cases "i + 1 < length ss")
    case True
    then show ?thesis by (simp add: offsets_nth a_def take_Suc_conv_app_nth)
  next
    case False
    with True have "Suc i = length ss" by simp
    then show ?thesis using concat_take_nth [OF True] by (simp add: a_def)
  qed
  have cat: "concat ss = concat (take i ss) @ ss ! i @ concat (drop (Suc i) ss)"
    by (rule concat_take_nth [OF True])
  have "slice (concat ss) a (a + length (ss ! i)) = Ret (ss ! i)"
    unfolding slice_def by (subst (1 2) cat) (simp add: a_def)
  with True st fin show ?thesis by (auto simp: cvs_get_def cvs_of_def split: if_splits)
qed (simp add: cvs_get_def cvs_of_def)

interpretation cvs: string_vec cvs_inv strings cvs_new cvs_push cvs_pop cvs_len cvs_get
proof unfold_locales
  fix c :: compact_vec_string and s :: string and i :: nat
  show "cvs_inv cvs_new" "strings cvs_new = []" by (simp_all add: cvs_new_of)
  assume "cvs_inv c"
  then obtain ss where c: "c = cvs_of ss" by auto
  show "cvs_inv (cvs_push s c)" "strings (cvs_push s c) = strings c @ [s]"
    "cvs_inv (cvs_pop c)" "strings (cvs_pop c) = butlast (strings c)"
    "cvs_get c i = Ret (if i < length (strings c) then Some (strings c ! i) else None)"
    by (simp_all add: c)
  show "cvs_len c = length (strings c)"
    unfolding c strings_cvs_of by (simp add: cvs_len_def cvs_of_def)
qed

lemma cvs_extend_of [simp]: "cvs_extend ts (cvs_of ss) = cvs_of (ss @ ts)"
  using cvs.extend_abs [of "cvs_of ss" ts] by (metis cvs_extend_def cvs_inv_cvs_of cvs_inv_iff strings_cvs_of)

lemma cvs_from_iter_of [simp]: "cvs_from_iter ss = cvs_of ss"
  by (simp add: cvs_from_iter_def cvs_new_of)

lemma iter_collect_of:
  "iter_collect \<lparr>inner = cvs_of ss, iter_index = i\<rparr> = Ret (drop i ss)"
proof (induction "length ss - i" arbitrary: i)
  case 0
  then show ?case by (subst iter_collect.simps) (simp add: iter_next_def)
next
  case (Suc n)
  then have "iter_collect \<lparr>inner = cvs_of ss, iter_index = i + 1\<rparr> = Ret (drop (i + 1) ss)"
    by simp
  with Suc show ?case
    by (subst iter_collect.simps) (simp add: iter_next_def Cons_nth_drop_Suc)
qed

lemma iter_collect_strings: "cvs_inv c \<Longrightarrow> iter_collect (cvs_iter_of c) = Ret (strings c)"
  by (auto simp: cvs_iter_of_def iter_collect_of)

lemma cvs_join_strings: "cvs_inv c \<Longrightarrow> cvs_join c sep = Ret (join_str sep (strings c))"
  by (simp add: cvs_join_def iter_collect_strings)

lemma cvs_eq_vec_strings: "cvs_inv c \<Longrightarrow> cvs_eq_vec c v = Ret (strings c = v)"
  by (auto simp: cvs_eq_vec_def iter_collect_strings cvs.len_abs)

lemma cvs_visit_seq_strings: "cvs_visit_seq (cvs_of ss) (map JString ts) = Inr (cvs_of (ss @ ts))"
  by (induction ts arbitrary: ss) simp_all

lemma cvs_serialize_strings:
  assumes "cvs_inv c"
  shows "cvs_serialize c =
    Ret (case strings c of [s] \<Rightarrow> JString s | ss \<Rightarrow> JArray (map JString ss))"
  using assms iter_collect_strings [OF assms] cvs.get_abs [OF assms, of 0] cvs.len_abs [OF assms]
  by (auto simp: cvs_serialize_def Let_def split: list.splits)

lemma sov_collect_VecI [simp]: "sov_collect (VecI xs) = xs"
  by (induction xs) (subst sov_collect.simps, simp)+

lemma sov_collect_iter [simp]: "sov_collect (sov_iter_of v) = sov_into_vec v"
proof -
  have "sov_collect (SingleI None) = ([] :: 'a list)"
    by (subst sov_collect.simps) simp
  then show ?thesis by (cases v) (simp_all add: sov_collect.simps [of "SingleI (Some _)"])
qed

lemma sov_extend_into_vec [simp]: "sov_into_vec (sov_extend v xs) = sov_into_vec v @ xs"
  by (cases v) simp_all

section \<open>Properties\<close>

text \<open>The mutating operations, for sequences of them.\<close>

datatype cvs_op = Push string | Pop | Extend "string list"

fun cvs_apply :: "compact_vec_string \<Rightarrow> cvs_op \<Rightarrow> compact_vec_string" where
  "cvs_apply c (Push s) = cvs_push s c"
| "cvs_apply c Pop = cvs_pop c"
| "cvs_apply c (Extend ss) = cvs_extend ss c"

fun list_apply :: "string list \<Rightarrow> cvs_op \<Rightarrow> string list" where
  "list_apply xs (Push s) = xs @ [s]"
| "list_apply xs Pop = butlast xs"
| "list_apply xs (Extend ss) = xs @ ss"

lemma cvs_apply_of: "foldl cvs_apply (cvs_of ss) ops = cvs_of (foldl list_apply ss ops)"
proof (induction ops arbitrary: ss)
  case (Cons x ops)
  then show ?case by (cases x) simp_all
qed simp

text \<open>C27: after any sequence of pushes, pops and extends the compact representation reads as
  the list of strings the same operations give: its length, every indexed access, in range or
  not, and the iterator; no access panics and no slice holds anything but one pushed string.\<close>

theorem cvs_refines_list:
  "let c = foldl cvs_apply cvs_new ops; xs = foldl list_apply [] ops
   in cvs_len c = length xs \<and>
      (\<forall>i. cvs_get c i = Ret (if i < length xs then Some (xs ! i) else None)) \<and>
      iter_collect (cvs_iter_of c) = Ret xs"
  using cvs.len_abs [of "cvs_of (foldl list_apply [] ops)"]
  by (simp add: cvs_new_of cvs_apply_of iter_collect_strings Let_def)

text \<open>Serialising a string list and deserialising the result gives the same value, also for
  the list of one string that is written as a bare string.\<close>

lemma cvs_serde_roundtrip:
  "case cvs_serialize (cvs_from_iter ss) of
     Panic \<Rightarrow> False
   | Ret v \<Rightarrow> cvs_deserialize v = Inr (cvs_from_iter ss)"
  using cvs_visit_seq_strings [of "[]" ss]
  by (auto simp: cvs_serialize_strings cvs_new_of split: list.splits)

end
