(* ===== verification/RD_CopyUdp.thy ===== *)
theory RD_CopyUdp
  imports RD_CopyTcp RD_CompactVec
begin

text \<open>
  The UDP relay of \<^verbatim>\<open>rd-std/src/context/connect_udp.rs\<close>: a queue of packet buffers per
  direction with a pool of free ones, and the future that pumps both directions.

  The two directions are the same program up to the address type of their source: \<open>conv\<close> is
  the conversion stored with a packet and \<open>unconv\<close> the match on it when it is delivered, whose
  other arm is \<open>unreachable!()\<close>. The contract \<open>packet_addr\<close> relates the two and is interpreted
  for both directions. Sources and sinks answer from arbitrary lists, as the streams of the
  TCP relay do. A call that would never return is \<open>None\<close>, a panic \<open>Panic\<close>.
\<close>

section \<open>Datagram endpoints\<close>

record 'a dgram_source =
  src_script :: "(u8 list \<times> 'a) answer list"
  received :: "(u8 list \<times> 'a) list"

record 'a dgram_sink =
  snk_script :: "unit answer list"
  delivered :: "(u8 list \<times> 'a) list"

text \<open>A datagram longer than the room is cut to it.\<close>

definition poll_fetch ::
  "nat \<Rightarrow> 'a dgram_source \<Rightarrow> (io_error + u8 list \<times> 'a) poll \<times> 'a dgram_source" where
  "poll_fetch room s =
     (case src_script s of
        [] \<Rightarrow> (Pending, s)
      | APending # as \<Rightarrow> (Pending, s\<lparr>src_script := as\<rparr>)
      | AErr e # as \<Rightarrow> (Ready (Inl e), s\<lparr>src_script := as\<rparr>)
      | AOk (d, a) # as \<Rightarrow>
          (Ready (Inr (take room d, a)),
           s\<lparr>src_script := as, received := received s @ [(take room d, a)]\<rparr>))"

definition poll_deliver ::
  "u8 list \<Rightarrow> 'a \<Rightarrow> 'a dgram_sink \<Rightarrow> (io_error + unit) poll \<times> 'a dgram_sink" where
  "poll_deliver d a k =
     (case snk_script k of
        [] \<Rightarrow> (Pending, k)
      | APending # as \<Rightarrow> (Pending, k\<lparr>snk_script := as\<rparr>)
      | AErr e # as \<Rightarrow> (Ready (Inl e), k\<lparr>snk_script := as\<rparr>)
      | AOk _ # as \<Rightarrow> (Ready (Inr ()), k\<lparr>snk_script := as, delivered := delivered k @ [(d, a)]\<rparr>))"

section \<open>Packet buffers\<close>

definition UDP_BUFFER_SIZE :: nat where
  "UDP_BUFFER_SIZE = 2 * 1024"

record packet_buffer =
  pb_buf :: "u8 list"
  pb_filled :: "(nat \<times> address) option"

definition pb_new :: packet_buffer where
  "pb_new = \<lparr>pb_buf = replicate UDP_BUFFER_SIZE 0, pb_filled = None\<rparr>"

definition pb_borrow :: "packet_buffer \<Rightarrow> (u8 list \<times> address) option" where
  "pb_borrow p = map_option (\<lambda>(len, addr). (take len (pb_buf p), addr)) (pb_filled p)"

record packet_queue =
  pool :: "packet_buffer list"
  pqueue :: "packet_buffer list"
  max_buffer_size :: nat

definition pq_new :: "nat \<Rightarrow> nat \<Rightarrow> packet_queue" where
  "pq_new buffer_size max_size =
     \<lparr>pool = replicate buffer_size pb_new, pqueue = [], max_buffer_size = max_size\<rparr>"

definition pq_pop_front :: "packet_queue \<Rightarrow> packet_queue" where
  "pq_pop_front q =
     (case pqueue q of
        [] \<Rightarrow> q
      | p # ps \<Rightarrow> q\<lparr>pqueue := ps, pool := pool q @ [p\<lparr>pb_filled := None\<rparr>]\<rparr>)"

text \<open>\<open>grow\<close>: the subtraction panics when it underflows.\<close>

definition pq_grow :: "packet_queue \<Rightarrow> packet_queue outcome" where
  "pq_grow q =
     (if pool q = [] then
        (let goal = min (max_buffer_size q) (length (pqueue q) * 2)
         in if goal < length (pqueue q) then Panic
            else Ret (q\<lparr>pool := replicate (goal - length (pqueue q)) pb_new\<rparr>))
      else Ret q)"

text \<open>\<open>borrow_back\<close>: whether there is a free buffer at the back of the queue, and the queue with
  it there. \<open>Vec::pop\<close> takes the last of the pool.\<close>

definition pq_borrow_back :: "packet_queue \<Rightarrow> (bool \<times> packet_queue) outcome" where
  "pq_borrow_back q =
     (if pqueue q = [] \<or> pb_filled (last (pqueue q)) \<noteq> None then
        (case pq_grow q of
           Panic \<Rightarrow> Panic
         | Ret q' \<Rightarrow>
             if pool q' = [] then Ret (False, q')
             else Ret (True, q'\<lparr>pool := butlast (pool q'), pqueue := pqueue q' @ [last (pool q')]\<rparr>))
      else Ret (True, q))"

text \<open>Writing to the borrowed back buffer.\<close>

definition pq_set_back :: "u8 list \<Rightarrow> address \<Rightarrow> packet_queue \<Rightarrow> packet_queue" where
  "pq_set_back d addr q =
     (let p = last (pqueue q);
          p' = \<lparr>pb_buf = d @ drop (length d) (pb_buf p), pb_filled = Some (length d, addr)\<rparr>
      in q\<lparr>pqueue := butlast (pqueue q) @ [p']\<rparr>)"

section \<open>One direction\<close>

datatype fetch_end = FFull | FPending | FErr io_error

function fetch_loop ::
  "('a \<Rightarrow> address) \<Rightarrow> 'a dgram_source \<Rightarrow> packet_queue \<Rightarrow>
   (fetch_end \<times> 'a dgram_source \<times> packet_queue) outcome" where
  "fetch_loop conv s q =
     (case pq_borrow_back q of
        Panic \<Rightarrow> Panic
      | Ret (False, q') \<Rightarrow> Ret (FFull, s, q')
      | Ret (True, q') \<Rightarrow>
          (case poll_fetch (length (pb_buf (last (pqueue q')))) s of
             (Pending, s') \<Rightarrow> Ret (FPending, s', q')
           | (Ready (Inl e), s') \<Rightarrow> Ret (FErr e, s', q')
           | (Ready (Inr (d, a)), s') \<Rightarrow> fetch_loop conv s' (pq_set_back d (conv a) q')))"
  by pat_completeness auto
termination
  by (relation "measure (\<lambda>(conv, s, q). length (src_script s))")
     (auto simp: poll_fetch_def split: list.splits answer.splits)

declare fetch_loop.simps [simp del]

datatype deliver_end = DIdle | DPending | DErr io_error

function deliver_loop ::
  "(address \<Rightarrow> 'a outcome) \<Rightarrow> packet_queue \<Rightarrow> 'a dgram_sink \<Rightarrow>
   (deliver_end \<times> packet_queue \<times> 'a dgram_sink) outcome" where
  "deliver_loop unconv q k =
     (case pqueue q of
        [] \<Rightarrow> Ret (DIdle, q, k)
      | p # ps \<Rightarrow>
          (case pb_borrow p of
             None \<Rightarrow> Ret (DIdle, q, k)
           | Some (d, addr) \<Rightarrow>
               (case unconv addr of
                  Panic \<Rightarrow> Panic
                | Ret a \<Rightarrow>
                    (case poll_deliver d a k of
                       (Pending, k') \<Rightarrow> Ret (DPending, q, k')
                     | (Ready (Inl e), k') \<Rightarrow> Ret (DErr e, q, k')
                     | (Ready (Inr _), k') \<Rightarrow> deliver_loop unconv (pq_pop_front q) k'))))"
  by pat_completeness auto
termination
  by (relation "measure (\<lambda>(u, q, k). length (pqueue q))") (auto simp: pq_pop_front_def)

declare deliver_loop.simps [simp del]

text \<open>The loop around both: it returns when one of them has registered a waker. A round in which
  neither endpoint was asked anything would repeat for ever: \<open>None\<close>.\<close>

function pump ::
  "('a \<Rightarrow> address) \<Rightarrow> (address \<Rightarrow> 'a outcome) \<Rightarrow> 'a dgram_source \<Rightarrow> packet_queue \<Rightarrow> 'a dgram_sink \<Rightarrow>
   ((io_error + unit) poll \<times> 'a dgram_source \<times> packet_queue \<times> 'a dgram_sink) outcome option" where
  "pump conv unconv s q k =
     (case fetch_loop conv s q of
        Panic \<Rightarrow> Some Panic
      | Ret (FErr e, s1, q1) \<Rightarrow> Some (Ret (Ready (Inl e), s1, q1, k))
      | Ret (fe, s1, q1) \<Rightarrow>
          (case deliver_loop unconv q1 k of
             Panic \<Rightarrow> Some Panic
           | Ret (DErr e, q2, k2) \<Rightarrow> Some (Ret (Ready (Inl e), s1, q2, k2))
           | Ret (de, q2, k2) \<Rightarrow>
               if fe = FPending \<or> de = DPending then Some (Ret (Pending, s1, q2, k2))
               else if length (src_script s1) + length (snk_script k2) <
                       length (src_script s) + length (snk_script k)
               then pump conv unconv s1 q2 k2
               else None))"
  by pat_completeness auto
termination
  by (relation "measure (\<lambda>(c, u, s, q, k). length (src_script s) + length (snk_script k))") auto

declare pump.simps [simp del]

section \<open>Both directions\<close>

fun unconv_addr :: "address \<Rightarrow> address outcome" where
  "unconv_addr a = Ret a"

fun unconv_socket_addr :: "address \<Rightarrow> socket_addr outcome" where
  "unconv_socket_addr (SocketAddr s) = Ret s"
| "unconv_socket_addr (Domain d p) = Panic"

record udp_relay =
  chan_src :: "address dgram_source"
  sock_snk :: "address dgram_sink"
  sock_src :: "socket_addr dgram_source"
  chan_snk :: "socket_addr dgram_sink"
  send_queue :: packet_queue
  recv_queue :: packet_queue

definition relay_poll_send_to :: "udp_relay \<Rightarrow> ((io_error + unit) poll \<times> udp_relay) outcome option" where
  "relay_poll_send_to c =
     (case pump (\<lambda>a. a) unconv_addr (chan_src c) (send_queue c) (sock_snk c) of
        None \<Rightarrow> None
      | Some Panic \<Rightarrow> Some Panic
      | Some (Ret (r, s, q, k)) \<Rightarrow> Some (Ret (r, c\<lparr>chan_src := s, send_queue := q, sock_snk := k\<rparr>)))"

definition relay_poll_recv_from :: "udp_relay \<Rightarrow> ((io_error + unit) poll \<times> udp_relay) outcome option" where
  "relay_poll_recv_from c =
     (case pump SocketAddr unconv_socket_addr (sock_src c) (recv_queue c) (chan_snk c) of
        None \<Rightarrow> None
      | Some Panic \<Rightarrow> Some Panic
      | Some (Ret (r, s, q, k)) \<Rightarrow> Some (Ret (r, c\<lparr>sock_src := s, recv_queue := q, chan_snk := k\<rparr>)))"

definition relay_poll :: "udp_relay \<Rightarrow> ((io_error + unit) poll \<times> udp_relay) outcome option" where
  "relay_poll c =
     (case relay_poll_send_to c of
        None \<Rightarrow> None
      | Some Panic \<Rightarrow> Some Panic
      | Some (Ret (Ready (Inl e), c1)) \<Rightarrow> Some (Ret (Ready (Inl e), c1))
      | Some (Ret (r1, c1)) \<Rightarrow>
          (case relay_poll_recv_from c1 of
             None \<Rightarrow> None
           | Some Panic \<Rightarrow> Some Panic
           | Some (Ret (Ready (Inl e), c2)) \<Rightarrow> Some (Ret (Ready (Inl e), c2))
           | Some (Ret (r2, c2)) \<Rightarrow>
               Some (Ret (case (r1, r2) of (Pending, Pending) \<Rightarrow> Pending | _ \<Rightarrow> Ready (Inr ()), c2))))"

definition connect_udp_new ::
  "address dgram_source \<Rightarrow> socket_addr dgram_sink \<Rightarrow> socket_addr dgram_source \<Rightarrow>
   address dgram_sink \<Rightarrow> udp_relay" where
  "connect_udp_new asrc asnk bsrc bsnk =
     \<lparr>chan_src = asrc, sock_snk = bsnk, sock_src = bsrc, chan_snk = asnk,
      send_queue = pq_new 1 16, recv_queue = pq_new 1 16\<rparr>"

text \<open>The future polled up to \<open>n\<close> times, until it has a result.\<close>

fun relay_run :: "nat \<Rightarrow> udp_relay \<Rightarrow> ((io_error + unit) poll \<times> udp_relay) outcome option" where
  "relay_run 0 c = Some (Ret (Pending, c))"
| "relay_run (Suc n) c =
     (case relay_poll c of
        None \<Rightarrow> None
      | Some Panic \<Rightarrow> Some Panic
      | Some (Ret (Pending, c')) \<Rightarrow> relay_run n c'
      | Some (Ret (Ready r, c')) \<Rightarrow> Some (Ret (Ready r, c')))"

section \<open>The queue of packets\<close>

definition is_filled :: "packet_buffer \<Rightarrow> bool" where
  "is_filled p \<longleftrightarrow> pb_filled p \<noteq> None"

definition pb_ok :: "packet_buffer \<Rightarrow> bool" where
  "pb_ok p \<longleftrightarrow> length (pb_buf p) = UDP_BUFFER_SIZE"

definition pq_inv :: "packet_queue \<Rightarrow> bool" where
  "pq_inv q \<longleftrightarrow>
     1 \<le> length (pool q) + length (pqueue q) \<and>
     length (pool q) + length (pqueue q) \<le> max_buffer_size q \<and>
     list_all (\<lambda>p. pb_ok p \<and> pb_filled p = None) (pool q) \<and> list_all pb_ok (pqueue q) \<and>
     list_all (\<lambda>p. is_filled p) (butlast (pqueue q))"

text \<open>The packets waiting in the queue.\<close>

definition packets :: "packet_queue \<Rightarrow> (u8 list \<times> address) list" where
  "packets q = List.map_filter pb_borrow (pqueue q)"

lemma packets_append [simp]: "List.map_filter f (xs @ ys) = List.map_filter f xs @ List.map_filter f ys"
  by (induction xs) (simp_all add: List.map_filter_simps split: option.splits)

lemma map_filter_Cons: "List.map_filter f (x # xs) =
    (case f x of None \<Rightarrow> [] | Some y \<Rightarrow> [y]) @ List.map_filter f xs"
  by (simp add: List.map_filter_simps split: option.splits)

lemma map_filter_Nil [simp]: "List.map_filter f [] = []"
  by (simp add: List.map_filter_simps)

lemma pb_borrow_None: "pb_borrow p = None \<longleftrightarrow> \<not> is_filled p"
  by (cases "pb_filled p") (simp_all add: pb_borrow_def is_filled_def)

lemma pb_borrow_unfilled [simp]: "pb_filled p = None \<Longrightarrow> pb_borrow p = None"
  by (simp add: pb_borrow_def)

lemma pb_new_ok [simp]: "pb_ok pb_new" "pb_filled pb_new = None"
  by (simp_all add: pb_ok_def pb_new_def)

lemma pq_new_inv: "1 \<le> n \<Longrightarrow> n \<le> m \<Longrightarrow> pq_inv (pq_new n m) \<and> packets (pq_new n m) = []"
  by (simp add: pq_inv_def pq_new_def packets_def list_all_iff)

lemma pq_grow_inv:
  assumes "pq_inv q"
  shows "\<exists>q'. pq_grow q = Ret q' \<and> pq_inv q' \<and> pqueue q' = pqueue q \<and>
    (pool q' = [] \<longrightarrow> q' = q)"
proof (cases "pool q = []")
  case False
  with assms show ?thesis by (simp add: pq_grow_def)
next
  case True
  let ?n = "length (pqueue q)"
  have "1 \<le> ?n" "?n \<le> max_buffer_size q" using assms True by (simp_all add: pq_inv_def)
  then have g: "\<not> min (max_buffer_size q) (?n * 2) < ?n" by simp
  then show ?thesis using assms True by (auto simp: pq_grow_def pq_inv_def Let_def list_all_iff)
qed

lemma pq_borrow_back_inv:
  assumes "pq_inv q"
  obtains (free) q' where "pq_borrow_back q = Ret (True, q')" "pq_inv q'" "packets q' = packets q"
      "pqueue q' \<noteq> []" "pb_filled (last (pqueue q')) = None"
    | (full) "pq_borrow_back q = Ret (False, q)" "pqueue q \<noteq> []"
      "list_all (\<lambda>p. is_filled p) (pqueue q)"
proof (cases "pqueue q = [] \<or> pb_filled (last (pqueue q)) \<noteq> None")
  case False
  then have "pb_filled (last (pqueue q)) = None" "pqueue q \<noteq> []" by blast+
  then show ?thesis using free [of q] assms by (simp add: pq_borrow_back_def)
next
  case True
  note ex = True
  obtain q' where g: "pq_grow q = Ret q'" "pq_inv q'" "pqueue q' = pqueue q" "pool q' = [] \<longrightarrow> q' = q"
    using pq_grow_inv [OF assms] by blast
  have fill: "list_all (\<lambda>p. is_filled p) (pqueue q)"
    using True assms by (cases "pqueue q" rule: rev_cases) (auto simp: pq_inv_def is_filled_def)
  show ?thesis
  proof (cases "pool q' = []")
    case True
    with g(4) have q: "q' = q" "pool q = []" by auto
    have "pqueue q \<noteq> []" using assms q(2) by (auto simp: pq_inv_def)
    moreover have "pq_borrow_back q = Ret (False, q)"
      unfolding pq_borrow_back_def if_P [OF ex] g(1) q(1) by (simp add: q(2))
    ultimately show ?thesis using full fill by blast
  next
    case False
    then obtain ps p where ps: "pool q' = ps @ [p]" by (metis rev_exhaust)
    let ?q = "q'\<lparr>pool := butlast (pool q'), pqueue := pqueue q' @ [last (pool q')]\<rparr>"
    have "pb_filled p = None" "pb_ok p" using g(2) ps by (auto simp: pq_inv_def)
    moreover have "pq_inv ?q" using g(2,3) ps fill \<open>pb_ok p\<close> by (auto simp: pq_inv_def)
    moreover have "pq_borrow_back q = Ret (True, ?q)"
      unfolding pq_borrow_back_def if_P [OF ex] g(1) by (simp add: False)
    ultimately show ?thesis
      using free [of ?q] g(3) ps by (simp add: packets_def map_filter_Cons)
  qed
qed

lemma pq_set_back_inv:
  assumes "pq_inv q" "pqueue q \<noteq> []" "pb_filled (last (pqueue q)) = None" "length d \<le> UDP_BUFFER_SIZE"
  shows "pq_inv (pq_set_back d addr q)" "packets (pq_set_back d addr q) = packets q @ [(d, addr)]"
proof -
  obtain ps p where ps: "pqueue q = ps @ [p]" using assms(2) by (metis rev_exhaust)
  with assms show "pq_inv (pq_set_back d addr q)"
    by (auto simp: pq_inv_def pq_set_back_def pb_ok_def)
  show "packets (pq_set_back d addr q) = packets q @ [(d, addr)]"
    using ps assms(3) by (simp add: packets_def pq_set_back_def map_filter_Cons pb_borrow_def)
qed

lemma pq_pop_front_inv:
  assumes "pq_inv q" "pqueue q = p # ps" "pb_borrow p = Some x"
  shows "pq_inv (pq_pop_front q)" "packets q = x # packets (pq_pop_front q)"
    "pqueue (pq_pop_front q) = ps"
proof -
  show "pq_inv (pq_pop_front q)"
    using assms(1,2) by (cases ps) (auto simp: pq_inv_def pq_pop_front_def pb_ok_def)
  show "packets q = x # packets (pq_pop_front q)" "pqueue (pq_pop_front q) = ps"
    using assms(2,3) by (simp_all add: packets_def pq_pop_front_def map_filter_Cons)
qed

lemma pq_borrow_back_max: "pq_borrow_back q = Ret (b, q') \<Longrightarrow> max_buffer_size q' = max_buffer_size q"
  by (auto simp: pq_borrow_back_def pq_grow_def Let_def split: if_splits outcome.splits)

section \<open>One direction keeps the order\<close>

lemma poll_fetch_spec:
  assumes "poll_fetch room s = (res, s')"
  shows "received s' = received s @ (case res of Ready (Inr x) \<Rightarrow> [x] | _ \<Rightarrow> [])"
    and "length (src_script s') \<le> length (src_script s)"
    and "res = Ready (Inr (d, a)) \<Longrightarrow> length d \<le> room"
  using assms by (auto simp: poll_fetch_def split: list.splits answer.splits)

lemma poll_deliver_spec:
  assumes "poll_deliver d a k = (res, k')"
  shows "delivered k' = delivered k @ (case res of Ready (Inr _) \<Rightarrow> [(d, a)] | _ \<Rightarrow> [])"
    and "length (snk_script k') \<le> length (snk_script k)"
    and "res = Ready (Inr ()) \<Longrightarrow> length (snk_script k') < length (snk_script k)"
  using assms by (auto simp: poll_deliver_def split: list.splits answer.splits)

text \<open>Since the start (\<open>r0\<close> received, \<open>d0\<close> delivered): what was received is what was delivered,
  then what is in the queue.\<close>

definition flow ::
  "('a \<Rightarrow> address) \<Rightarrow> (u8 list \<times> 'a) list \<Rightarrow> (u8 list \<times> 'a) list \<Rightarrow>
   'a dgram_source \<Rightarrow> packet_queue \<Rightarrow> 'a dgram_sink \<Rightarrow> bool" where
  "flow conv r0 d0 s q k \<longleftrightarrow>
     pq_inv q \<and> (\<exists>X P. received s = r0 @ X @ P \<and> delivered k = d0 @ X \<and> map (apsnd conv) P = packets q)"

text \<open>A packet's address is read back as it was stored.\<close>

locale packet_addr =
  fixes conv :: "'a \<Rightarrow> address" and unconv :: "address \<Rightarrow> 'a outcome"
  assumes unconv_conv: "unconv (conv a) = Ret a"
begin

lemma fetch_loop_flow:
  assumes "flow conv r0 d0 s q k"
  shows "\<exists>fe s' q'. fetch_loop conv s q = Ret (fe, s', q') \<and> flow conv r0 d0 s' q' k \<and>
    max_buffer_size q' = max_buffer_size q \<and>
    length (src_script s') \<le> length (src_script s) \<and>
    (fe = FFull \<longrightarrow> pqueue q' \<noteq> [] \<and> list_all (\<lambda>p. is_filled p) (pqueue q'))"
  using assms
proof (induction conv s q rule: fetch_loop.induct)
  case (1 cv s q)
  have q: "pq_inv q" using 1(2) by (simp add: flow_def)
  then show ?case
  proof (cases rule: pq_borrow_back_inv)
    case full
    then show ?thesis using 1(2) by (simp add: fetch_loop.simps [of cv s q])
  next
    case (free q')
    obtain a s' where p: "poll_fetch (length (pb_buf (last (pqueue q')))) s = (a, s')" by fastforce
    note sp = poll_fetch_spec [OF p]
    have len: "length (pb_buf (last (pqueue q'))) = UDP_BUFFER_SIZE"
      using free(2,4) by (cases "pqueue q'" rule: rev_cases) (auto simp: pq_inv_def pb_ok_def)
    have m: "max_buffer_size q' = max_buffer_size q" by (rule pq_borrow_back_max [OF free(1)])
    consider (stop) "\<forall>x. a \<noteq> Ready (Inr x)" | (ok) d x where "a = Ready (Inr (d, x))"
      by (metis prod.exhaust)
    then show ?thesis
    proof cases
      case stop
      then have "flow cv r0 d0 s' q' k" using 1(2) sp(1) free(2,3)
        by (cases a) (auto simp: flow_def split: sum.splits)
      with stop free(1) p sp(2) m show ?thesis
        by (cases a) (auto simp: fetch_loop.simps [of cv s q] split: sum.splits)
    next
      case (ok d x)
      note sb = pq_set_back_inv [OF free(2,4,5), of d "cv x"]
      have "length d \<le> UDP_BUFFER_SIZE" using sp(3) ok len by simp
      note sb = sb [OF this]
      obtain X P where XP: "received s = r0 @ X @ P" "delivered k = d0 @ X"
        "map (apsnd cv) P = packets q" using 1(2) by (auto simp: flow_def)
      have "flow cv r0 d0 s' (pq_set_back d (cv x) q') k"
        unfolding flow_def
        by (intro conjI exI [of _ X] exI [of _ "P @ [(d, x)]"]) (use sb XP sp(1) ok free(3) in simp_all)
      note IH = 1(1) [OF free(1) refl refl p [symmetric] ok refl refl this]
      moreover have "max_buffer_size (pq_set_back d (cv x) q') = max_buffer_size q"
        using m by (simp add: pq_set_back_def)
      ultimately show ?thesis using free(1) p ok sp(2)
        by (auto simp: fetch_loop.simps [of cv s q])
    qed
  qed
qed

lemma deliver_loop_flow:
  assumes "flow conv r0 d0 s q k"
  shows "\<exists>de q' k'. deliver_loop unconv q k = Ret (de, q', k') \<and> flow conv r0 d0 s q' k' \<and>
    max_buffer_size q' = max_buffer_size q \<and>
    length (snk_script k') \<le> length (snk_script k) \<and>
    (de = DIdle \<and> pqueue q \<noteq> [] \<and> is_filled (hd (pqueue q)) \<longrightarrow>
       length (snk_script k') < length (snk_script k))"
  using assms
proof (induction "length (pqueue q)" arbitrary: q k rule: less_induct)
  case less
  obtain X P where inv: "pq_inv q" and XP: "received s = r0 @ X @ P" "delivered k = d0 @ X"
    "map (apsnd conv) P = packets q" using less(2) by (auto simp: flow_def)
  show ?case
  proof (cases "pqueue q = [] \<or> pb_borrow (hd (pqueue q)) = None")
    case True
    then have "deliver_loop unconv q k = Ret (DIdle, q, k)"
      by (cases "pqueue q") (simp_all add: deliver_loop.simps [of unconv q k])
    then show ?thesis using less(2) True by (auto simp: pb_borrow_None)
  next
    case False
    then obtain p ps d addr where ps: "pqueue q = p # ps" and b: "pb_borrow p = Some (d, addr)"
      by (cases "pqueue q") auto
    note pop = pq_pop_front_inv [OF inv ps b]
    obtain a P' where P: "P = (d, a) # P'" "addr = conv a" "map (apsnd conv) P' = packets (pq_pop_front q)"
      using XP(3) pop(2) by (cases P) auto
    obtain r k1 where pd: "poll_deliver d a k = (r, k1)" by fastforce
    note sp = poll_deliver_spec [OF pd]
    have mx: "max_buffer_size (pq_pop_front q) = max_buffer_size q"
      by (simp add: pq_pop_front_def split: list.splits)
    show ?thesis
    proof (cases "r = Ready (Inr ())")
      case False
      then have "flow conv r0 d0 s q k1"
        using less(2) sp(1) by (cases r) (auto simp: flow_def split: sum.splits)
      with False ps b P(2) pd sp(2) unconv_conv show ?thesis
        by (cases r) (auto simp: deliver_loop.simps [of unconv q k] split: sum.splits)
    next
      case True
      have f: "flow conv r0 d0 s (pq_pop_front q) k1"
        unfolding flow_def
        by (intro conjI exI [of _ "X @ [(d, a)]"] exI [of _ P']) (use pop(1) XP P sp(1) True in simp_all)
      have "length (pqueue (pq_pop_front q)) < length (pqueue q)" using pop(3) ps by simp
      from less(1) [OF this f] obtain de q' k' where
        r: "deliver_loop unconv (pq_pop_front q) k1 = Ret (de, q', k')" "flow conv r0 d0 s q' k'"
          "max_buffer_size q' = max_buffer_size q" "length (snk_script k') \<le> length (snk_script k1)"
        using mx by auto
      have "deliver_loop unconv q k = deliver_loop unconv (pq_pop_front q) k1"
        using ps b P(2) pd True unconv_conv by (simp add: deliver_loop.simps [of unconv q k])
      with r sp(3) [OF True] show ?thesis by auto
    qed
  qed
qed

text \<open>The pump returns, without a panic, and keeps the flow.\<close>

lemma pump_flow:
  assumes "flow conv r0 d0 s q k"
  shows "\<exists>res s' q' k'. pump conv unconv s q k = Some (Ret (res, s', q', k')) \<and>
    flow conv r0 d0 s' q' k' \<and> max_buffer_size q' = max_buffer_size q \<and> res \<noteq> Ready (Inr ())"
  using assms
proof (induction "length (src_script s) + length (snk_script k)" arbitrary: s q k rule: less_induct)
  case less
  obtain fe s1 q1 where f: "fetch_loop conv s q = Ret (fe, s1, q1)" "flow conv r0 d0 s1 q1 k"
    "max_buffer_size q1 = max_buffer_size q" "length (src_script s1) \<le> length (src_script s)"
    "fe = FFull \<longrightarrow> pqueue q1 \<noteq> [] \<and> list_all (\<lambda>p. is_filled p) (pqueue q1)"
    using fetch_loop_flow [OF less(2)] by blast
  obtain de q2 k2 where d: "deliver_loop unconv q1 k = Ret (de, q2, k2)" "flow conv r0 d0 s1 q2 k2"
    "max_buffer_size q2 = max_buffer_size q" "length (snk_script k2) \<le> length (snk_script k)"
    "de = DIdle \<and> pqueue q1 \<noteq> [] \<and> is_filled (hd (pqueue q1)) \<longrightarrow>
       length (snk_script k2) < length (snk_script k)"
    using deliver_loop_flow [OF f(2)] f(3) by metis
  show ?case
  proof (cases "fe = FFull \<and> de = DIdle")
    case False
    then show ?thesis
      using f d by (cases fe; cases de) (auto simp: pump.simps [of conv unconv s q k])
  next
    case True
    with f(5) have "pqueue q1 \<noteq> []" "is_filled (hd (pqueue q1))"
      by (auto simp: list_all_iff)
    with d(5) True f(4) have lt: "length (src_script s1) + length (snk_script k2) <
        length (src_script s) + length (snk_script k)" by auto
    from less(1) [OF this d(2)] d(3) f(1) d(1) True lt show ?thesis
      by (auto simp: pump.simps [of conv unconv s q k])
  qed
qed

end

interpretation send_dir: packet_addr "\<lambda>a. a" unconv_addr
  by unfold_locales simp

interpretation recv_dir: packet_addr SocketAddr unconv_socket_addr
  by unfold_locales simp

section \<open>Both directions keep the order\<close>

definition relay_flow ::
  "(u8 list \<times> address) list \<Rightarrow> (u8 list \<times> socket_addr) list \<Rightarrow> (u8 list \<times> socket_addr) list \<Rightarrow>
   (u8 list \<times> address) list \<Rightarrow> udp_relay \<Rightarrow> bool" where
  "relay_flow ra da rb db c \<longleftrightarrow>
     flow (\<lambda>a. a) ra db (chan_src c) (send_queue c) (sock_snk c) \<and>
     flow SocketAddr rb da (sock_src c) (recv_queue c) (chan_snk c) \<and>
     max_buffer_size (send_queue c) = 16 \<and> max_buffer_size (recv_queue c) = 16"

lemma relay_poll_send_to_flow:
  assumes "relay_flow ra da rb db c"
  shows "\<exists>res c'. relay_poll_send_to c = Some (Ret (res, c')) \<and> relay_flow ra da rb db c' \<and>
    res \<noteq> Ready (Inr ())"
  using send_dir.pump_flow [of ra db "chan_src c" "send_queue c" "sock_snk c"] assms
  by (auto simp: relay_flow_def relay_poll_send_to_def)

lemma relay_poll_recv_from_flow:
  assumes "relay_flow ra da rb db c"
  shows "\<exists>res c'. relay_poll_recv_from c = Some (Ret (res, c')) \<and> relay_flow ra da rb db c' \<and>
    res \<noteq> Ready (Inr ())"
  using recv_dir.pump_flow [of rb da "sock_src c" "recv_queue c" "chan_snk c"] assms
  by (auto simp: relay_flow_def relay_poll_recv_from_def)

lemma relay_poll_flow:
  assumes "relay_flow ra da rb db c"
  shows "\<exists>res c'. relay_poll c = Some (Ret (res, c')) \<and> relay_flow ra da rb db c' \<and>
    res \<noteq> Ready (Inr ())"
proof -
  obtain r1 c1 where s: "relay_poll_send_to c = Some (Ret (r1, c1))" "relay_flow ra da rb db c1"
    "r1 \<noteq> Ready (Inr ())" using relay_poll_send_to_flow [OF assms] by blast
  obtain r2 c2 where r: "relay_poll_recv_from c1 = Some (Ret (r2, c2))" "relay_flow ra da rb db c2"
    "r2 \<noteq> Ready (Inr ())" using relay_poll_recv_from_flow [OF s(2)] by blast
  have e: "x \<noteq> Ready (Inr ()) \<Longrightarrow> x = Pending \<or> (\<exists>e. x = Ready (Inl e))" for x :: "(io_error + unit) poll"
    by (cases x) (auto split: sum.splits intro: sum.exhaust)
  from e [OF s(3)] e [OF r(3)] s r show ?thesis by (auto simp: relay_poll_def)
qed

lemma relay_run_flow:
  assumes "relay_flow ra da rb db c"
  shows "\<exists>res c'. relay_run n c = Some (Ret (res, c')) \<and> relay_flow ra da rb db c' \<and>
    res \<noteq> Ready (Inr ())"
  using assms
proof (induction n arbitrary: c)
  case (Suc n)
  obtain r c1 where p: "relay_poll c = Some (Ret (r, c1))" "relay_flow ra da rb db c1"
    "r \<noteq> Ready (Inr ())" using relay_poll_flow [OF Suc.prems] by blast
  with Suc.IH [OF p(2)] show ?case by (cases r) auto
qed simp

lemma flow_prefix:
  assumes "flow conv r0 d0 s q k"
  shows "\<exists>X P. received s = r0 @ X @ P \<and> delivered k = d0 @ X \<and> length P \<le> max_buffer_size q"
proof -
  have "length (List.map_filter f xs) \<le> length xs" for f :: "packet_buffer \<Rightarrow> (u8 list \<times> address) option" and xs
    by (induction xs) (auto simp: map_filter_Cons split: option.splits)
  then have "length (packets q) \<le> max_buffer_size q"
    using assms unfolding flow_def pq_inv_def packets_def by (meson le_trans le_add2)
  with assms show ?thesis unfolding flow_def by (metis length_map)
qed

section \<open>Properties\<close>

text \<open>C10: the UDP relay delivers datagrams in both directions in the order received, each with its
  address, none lost and none repeated; at most 16 wait in a queue; every poll returns, the
  buffer arithmetic never underflows and the \<open>unreachable!()\<close> arm is never reached; the relay
  ends by an error only.\<close>

theorem udp_relay_in_order:
  "\<exists>res c X P Y Q.
     relay_run n (connect_udp_new asrc asnk bsrc bsnk) = Some (Ret (res, c)) \<and> res \<noteq> Ready (Inr ()) \<and>
     received (chan_src c) = received asrc @ X @ P \<and> delivered (sock_snk c) = delivered bsnk @ X \<and>
     length P \<le> 16 \<and>
     received (sock_src c) = received bsrc @ Y @ Q \<and> delivered (chan_snk c) = delivered asnk @ Y \<and>
     length Q \<le> 16"
proof -
  have "flow (\<lambda>a. a) (received asrc) (delivered bsnk) asrc (pq_new 1 16) bsnk"
    "flow SocketAddr (received bsrc) (delivered asnk) bsrc (pq_new 1 16) asnk"
    using pq_new_inv [of 1 16] by (simp_all add: flow_def)
  then have "relay_flow (received asrc) (delivered asnk) (received bsrc) (delivered bsnk)
      (connect_udp_new asrc asnk bsrc bsnk)"
    by (simp add: relay_flow_def connect_udp_new_def pq_new_def)
  from relay_run_flow [OF this, of n] obtain res c where
    r: "relay_run n (connect_udp_new asrc asnk bsrc bsnk) = Some (Ret (res, c))" "res \<noteq> Ready (Inr ())"
    and f: "relay_flow (received asrc) (delivered asnk) (received bsrc) (delivered bsnk) c" by blast
  then show ?thesis
    using flow_prefix [of "\<lambda>a. a" "received asrc" "delivered bsnk" "chan_src c" "send_queue c" "sock_snk c"]
      flow_prefix [of SocketAddr "received bsrc" "delivered asnk" "sock_src c" "recv_queue c" "chan_snk c"]
    unfolding relay_flow_def by metis
qed

end
