(* ===== verification/RD_UdpConnector.thy ===== *)
theory RD_UdpConnector
  imports RD_CopyUdp
begin

text \<open>
  The lazily bound UDP socket of \<^verbatim>\<open>rd-std/src/util/udp_connector.rs\<close>: a state machine
  \<open>Idle\<close>, \<open>Binding\<close>, \<open>Binded\<close> with a semaphore on which receivers wait until it is bound.

  The future that binds is what it answers when polled; polling it again after it has
  finished panics, as for every \<open>async\<close> block. The semaphore is its number of permits: an
  acquire succeeds when there is one, and the permit comes back when it is dropped, which
  \<open>poll_recv_from\<close> does at once. A call that does not return is \<open>None\<close>.
\<close>

section \<open>Sockets and futures\<close>

record udp_sock =
  us_src :: "socket_addr dgram_source"
  us_snk :: "address dgram_sink"

definition sock_poll_send_to ::
  "u8 list \<Rightarrow> address \<Rightarrow> udp_sock \<Rightarrow> (io_error + unit) poll \<times> udp_sock" where
  "sock_poll_send_to d a u =
     (case poll_deliver d a (us_snk u) of (r, k) \<Rightarrow> (r, u\<lparr>us_snk := k\<rparr>))"

definition sock_poll_recv_from ::
  "nat \<Rightarrow> udp_sock \<Rightarrow> (io_error + u8 list \<times> socket_addr) poll \<times> udp_sock" where
  "sock_poll_recv_from room u =
     (case poll_fetch room (us_src u) of (r, s) \<Rightarrow> (r, u\<lparr>us_src := s\<rparr>))"

record 'u bind_fut =
  bf_script :: "(error + 'u) poll list"
  bf_done :: bool

definition poll_fut :: "'u bind_fut \<Rightarrow> ((error + 'u) poll \<times> 'u bind_fut) outcome" where
  "poll_fut f =
     (if bf_done f then Panic
      else
        (case bf_script f of
           [] \<Rightarrow> Ret (Pending, f)
         | Pending # as \<Rightarrow> Ret (Pending, f\<lparr>bf_script := as\<rparr>)
         | Ready r # as \<Rightarrow> Ret (Ready r, f\<lparr>bf_script := as, bf_done := True\<rparr>)))"

section \<open>UdpConnector\<close>

type_synonym connector = "u8 list \<Rightarrow> address \<Rightarrow> udp_sock bind_fut"

datatype uc_state =
    Idle "connector option"
  | Binding "udp_sock bind_fut"
  | Binded udp_sock

record udp_connector =
  permits :: nat
  uc_state :: uc_state

definition udp_connector_new :: "connector \<Rightarrow> udp_connector" where
  "udp_connector_new c = \<lparr>permits = 0, uc_state = Idle (Some c)\<rparr>"

text \<open>\<open>local_addr\<close>, given that of the socket.\<close>

definition uc_local_addr ::
  "(udp_sock \<Rightarrow> error + socket_addr) \<Rightarrow> udp_connector \<Rightarrow> error + socket_addr" where
  "uc_local_addr la c =
     (case uc_state c of
        Binded udp \<Rightarrow> la udp
      | _ \<Rightarrow> Inl (NotFound ''UdpConnector is not connected''))"

definition uc_poll_recv_from ::
  "nat \<Rightarrow> udp_connector \<Rightarrow>
   ((io_error + u8 list \<times> socket_addr) poll \<times> udp_connector) option" where
  "uc_poll_recv_from room c =
     (case uc_state c of
        Binded udp \<Rightarrow>
          (case sock_poll_recv_from room udp of (r, udp') \<Rightarrow> Some (r, c\<lparr>uc_state := Binded udp'\<rparr>))
      | _ \<Rightarrow> if permits c = 0 then Some (Pending, c) else None)"

fun uc_rank :: "uc_state \<Rightarrow> nat" where
  "uc_rank (Idle _) = 2"
| "uc_rank (Binding _) = 1"
| "uc_rank (Binded _) = 0"

function uc_poll_send_to ::
  "u8 list \<Rightarrow> address \<Rightarrow> udp_connector \<Rightarrow> ((io_error + unit) poll \<times> udp_connector) outcome" where
  "uc_poll_send_to d tgt c =
     (case uc_state c of
        Binded udp \<Rightarrow>
          (case sock_poll_send_to d tgt udp of
             (r, udp') \<Rightarrow> Ret (r, c\<lparr>uc_state := Binded udp'\<rparr>))
      | Binding fut \<Rightarrow>
          (case poll_fut fut of
             Panic \<Rightarrow> Panic
           | Ret (Pending, fut') \<Rightarrow> Ret (Pending, c\<lparr>uc_state := Binding fut'\<rparr>)
           | Ret (Ready (Inl e), fut') \<Rightarrow>
               Ret (Ready (Inl (to_io_err e)), \<lparr>permits = permits c + 1, uc_state = Binding fut'\<rparr>)
           | Ret (Ready (Inr udp), fut') \<Rightarrow>
               uc_poll_send_to d tgt \<lparr>permits = permits c + 1, uc_state = Binded udp\<rparr>)
      | Idle cn \<Rightarrow>
          (case cn of
             None \<Rightarrow> Panic
           | Some f \<Rightarrow> uc_poll_send_to d tgt (c\<lparr>uc_state := Binding (f d tgt)\<rparr>)))"
  by pat_completeness auto
termination
  by (relation "measure (\<lambda>(b, t, c). uc_rank (uc_state c))") auto

declare uc_poll_send_to.simps [simp del]

text \<open>Calls in any order.\<close>

datatype uc_call = CallSend "u8 list" address | CallRecv nat

fun uc_calls :: "uc_call list \<Rightarrow> udp_connector \<Rightarrow> udp_connector outcome option" where
  "uc_calls [] c = Some (Ret c)"
| "uc_calls (CallSend d a # cs) c =
     (case uc_poll_send_to d a c of
        Panic \<Rightarrow> Some Panic
      | Ret (_, c') \<Rightarrow> uc_calls cs c')"
| "uc_calls (CallRecv room # cs) c =
     (case uc_poll_recv_from room c of
        None \<Rightarrow> None
      | Some (_, c') \<Rightarrow> uc_calls cs c')"

section \<open>Invariant\<close>

text \<open>The states in which the socket works: nobody has been woken before it is bound, and the
  binding future has not finished.\<close>

fun uc_ok :: "udp_connector \<Rightarrow> bool" where
  "uc_ok c =
     (case uc_state c of
        Idle cn \<Rightarrow> permits c = 0 \<and> cn \<noteq> None
      | Binding f \<Rightarrow> permits c = 0 \<and> \<not> bf_done f
      | Binded _ \<Rightarrow> True)"

text \<open>The answers of the binding future hold no error, for any first datagram.\<close>

definition fut_binds :: "udp_sock bind_fut \<Rightarrow> bool" where
  "fut_binds f \<longleftrightarrow> \<not> bf_done f \<and> (\<forall>e. Ready (Inl e) \<notin> set (bf_script f))"

definition binds :: "connector \<Rightarrow> bool" where
  "binds f \<longleftrightarrow> (\<forall>d a. fut_binds (f d a))"

fun uc_binds :: "udp_connector \<Rightarrow> bool" where
  "uc_binds c =
     (case uc_state c of
        Idle cn \<Rightarrow> (case cn of None \<Rightarrow> False | Some f \<Rightarrow> binds f)
      | Binding f \<Rightarrow> fut_binds f
      | Binded _ \<Rightarrow> True)"

lemma poll_fut_binds:
  assumes "fut_binds f"
  obtains (pending) f' where "poll_fut f = Ret (Pending, f')" "fut_binds f'"
    | (ready) udp f' where "poll_fut f = Ret (Ready (Inr udp), f')"
proof (cases "bf_script f")
  case Nil
  then show ?thesis using assms pending [of f] by (simp add: poll_fut_def fut_binds_def)
next
  case (Cons x as)
  show ?thesis
  proof (cases x)
    case Pending
    then show ?thesis
      using assms Cons pending [of "f\<lparr>bf_script := as\<rparr>"] by (simp add: poll_fut_def fut_binds_def)
  next
    case (Ready r)
    then obtain udp where "r = Inr udp" using assms Cons by (cases r) (auto simp: fut_binds_def)
    then show ?thesis
      using assms Cons Ready ready [of udp "f\<lparr>bf_script := as, bf_done := True\<rparr>"]
      by (simp add: poll_fut_def fut_binds_def)
  qed
qed

lemma send_step:
  "uc_poll_send_to d a \<lparr>permits = p, uc_state = Idle (Some f)\<rparr> =
     uc_poll_send_to d a \<lparr>permits = p, uc_state = Binding (f d a)\<rparr>"
  "poll_fut g = Ret (Ready (Inl e), g') \<Longrightarrow>
   uc_poll_send_to d a \<lparr>permits = p, uc_state = Binding g\<rparr> =
     Ret (Ready (Inl (to_io_err e)), \<lparr>permits = p + 1, uc_state = Binding g'\<rparr>)"
  "poll_fut g = Ret (Ready (Inr udp), g') \<Longrightarrow>
   uc_poll_send_to d a \<lparr>permits = p, uc_state = Binding g\<rparr> =
     uc_poll_send_to d a \<lparr>permits = p + 1, uc_state = Binded udp\<rparr>"
  "sock_poll_send_to d a udp = (r, udp') \<Longrightarrow>
   uc_poll_send_to d a \<lparr>permits = p, uc_state = Binded udp\<rparr> =
     Ret (r, \<lparr>permits = p, uc_state = Binded udp'\<rparr>)"
  by (subst uc_poll_send_to.simps, simp)+

lemma send_binded:
  assumes "uc_state c = Binded udp" "sock_poll_send_to d a udp = (r, udp')"
  shows "uc_poll_send_to d a c = Ret (r, c\<lparr>uc_state := Binded udp'\<rparr>)"
  using assms by (subst uc_poll_send_to.simps) simp

lemma send_keeps_binding:
  assumes "uc_ok c" "uc_binds c"
  shows "\<exists>r c'. uc_poll_send_to d a c = Ret (r, c') \<and> uc_ok c' \<and> uc_binds c'"
proof -
  have binded: "\<exists>r c'. uc_poll_send_to d a c = Ret (r, c') \<and> uc_ok c' \<and> uc_binds c'"
    if "uc_state c = Binded udp" for c udp
  proof -
    obtain r udp' where "sock_poll_send_to d a udp = (r, udp')" by fastforce
    from send_binded [OF that this] show ?thesis by simp
  qed
  have binding: "\<exists>r c'. uc_poll_send_to d a c = Ret (r, c') \<and> uc_ok c' \<and> uc_binds c'"
    if c: "uc_state c = Binding f" "permits c = 0" "fut_binds f" for c f
    using c(3)
  proof (cases rule: poll_fut_binds)
    case (pending f')
    then show ?thesis
      using c by (subst uc_poll_send_to.simps) (auto simp: fut_binds_def)
  next
    case (ready udp f')
    then have "uc_poll_send_to d a c =
        uc_poll_send_to d a \<lparr>permits = permits c + 1, uc_state = Binded udp\<rparr>"
      using c by (subst uc_poll_send_to.simps) simp
    then show ?thesis using binded [of "\<lparr>permits = permits c + 1, uc_state = Binded udp\<rparr>"] by simp
  qed
  show ?thesis
  proof (cases "uc_state c")
    case (Idle cn)
    then obtain f where f: "cn = Some f" "binds f" using assms by (auto split: option.splits)
    then have "uc_poll_send_to d a c = uc_poll_send_to d a (c\<lparr>uc_state := Binding (f d a)\<rparr>)"
      using Idle by (subst uc_poll_send_to.simps) simp
    then show ?thesis
      using binding [of "c\<lparr>uc_state := Binding (f d a)\<rparr>" "f d a"] f(2) assms(1) Idle
      by (simp add: binds_def)
  next
    case (Binding f)
    then show ?thesis using binding assms by simp
  next
    case (Binded udp)
    then show ?thesis using binded by simp
  qed
qed

lemma recv_keeps_binding:
  assumes "uc_ok c" "uc_binds c"
  shows "\<exists>r c'. uc_poll_recv_from room c = Some (r, c') \<and> uc_ok c' \<and> uc_binds c'"
  using assms
  by (cases "uc_state c") (auto simp: uc_poll_recv_from_def split: prod.splits option.splits)

section \<open>Properties\<close>

text \<open>C37: if the connector succeeds whenever it finishes, then every sequence of sends and
  receives returns without a panic, whatever the datagrams and however long binding takes.\<close>

theorem udp_connector_total:
  assumes "binds f"
  shows "\<exists>c. uc_calls cs (udp_connector_new f) = Some (Ret c)"
proof -
  have "uc_ok c \<Longrightarrow> uc_binds c \<Longrightarrow> \<exists>c'. uc_calls cs c = Some (Ret c')" for c
  proof (induction cs c rule: uc_calls.induct)
    case (2 d a cs c)
    then show ?case using send_keeps_binding [OF 2(2,3), of d a] by fastforce
  next
    case (3 room cs c)
    then show ?case using recv_keeps_binding [OF 3(2,3), of room] by fastforce
  qed simp
  then show ?thesis using assms by (simp add: udp_connector_new_def)
qed

text \<open>After the binding future has failed, the next send panics, because it polls the
  finished future again, and a receive never returns, because the permit released on failure
  is acquired over and over.\<close>

lemma udp_connector_after_failure:
  assumes "bf_script (f d a) = Ready (Inl e) # as" "\<not> bf_done (f d a)"
  shows "\<exists>c. uc_poll_send_to d a (udp_connector_new f) = Ret (Ready (Inl (to_io_err e)), c) \<and>
    uc_poll_send_to d' a' c = Panic \<and> uc_poll_recv_from room c = None"
proof -
  let ?c = "\<lparr>permits = 1, uc_state = Binding ((f d a)\<lparr>bf_script := as, bf_done := True\<rparr>)\<rparr>"
  have "uc_poll_send_to d a (udp_connector_new f) = Ret (Ready (Inl (to_io_err e)), ?c)"
    using assms by (simp add: udp_connector_new_def send_step poll_fut_def)
  moreover have "uc_poll_send_to d' a' ?c = Panic"
    by (subst uc_poll_send_to.simps) (simp add: poll_fut_def)
  moreover have "uc_poll_recv_from room ?c = None" by (simp add: uc_poll_recv_from_def)
  ultimately show ?thesis by blast
qed

text \<open>A connector that itself sends the first datagram, as the one of the rule net does,
  makes the first datagram go out twice: the socket it returns is sent the same datagram
  again.\<close>

lemma udp_connector_first_datagram_twice:
  assumes "bf_script (f d a) = [Ready (Inr udp)]" "\<not> bf_done (f d a)"
    and "delivered (us_snk udp) = [(d, a)]" "snk_script (us_snk udp) = AOk () # as"
  shows "\<exists>c udp'. uc_poll_send_to d a (udp_connector_new f) = Ret (Ready (Inr ()), c) \<and>
    uc_state c = Binded udp' \<and> delivered (us_snk udp') = [(d, a), (d, a)]"
  using assms
  by (simp add: udp_connector_new_def send_step poll_fut_def sock_poll_send_to_def poll_deliver_def)

definition demo_sock :: "(u8 list \<times> address) list \<Rightarrow> udp_sock" where
  "demo_sock sent =
     \<lparr>us_src = \<lparr>src_script = [], received = []\<rparr>,
      us_snk = \<lparr>snk_script = [AOk ()], delivered = sent\<rparr>\<rparr>"

definition demo_connector :: connector where
  "demo_connector d a = \<lparr>bf_script = [Ready (Inr (demo_sock [(d, a)]))], bf_done = False\<rparr>"

definition failing_connector :: connector where
  "failing_connector d a = \<lparr>bf_script = [Ready (Inl NotMatched)], bf_done = False\<rparr>"

lemma udp_connector_total_witness:
  "\<exists>c. uc_calls [CallRecv 8, CallSend [1] (Domain ''a'' 53)] (udp_connector_new demo_connector) =
     Some (Ret c)"
  by (rule udp_connector_total) (simp add: binds_def fut_binds_def demo_connector_def)

lemma udp_connector_after_failure_witness:
  "\<exists>c. uc_poll_send_to [1] (Domain ''a'' 53) (udp_connector_new failing_connector) =
       Ret (Ready (Inl (IoBoxed KindOther NotMatched)), c) \<and>
     uc_poll_send_to [2] (Domain ''b'' 53) c = Panic \<and> uc_poll_recv_from 8 c = None"
  using udp_connector_after_failure [of failing_connector "[1]" "Domain ''a'' 53" NotMatched "[]"
      "[2]" "Domain ''b'' 53" 8]
  by (simp add: failing_connector_def to_io_err_def)

lemma udp_connector_twice_witness:
  "\<exists>c udp'. uc_poll_send_to [1] (Domain ''a'' 53) (udp_connector_new demo_connector) =
       Ret (Ready (Inr ()), c) \<and>
     uc_state c = Binded udp' \<and>
     delivered (us_snk udp') = [([1], Domain ''a'' 53), ([1], Domain ''a'' 53)]"
  by (rule udp_connector_first_datagram_twice
        [where udp = "demo_sock [([1], Domain ''a'' 53)]" and as = "[]"])
     (simp_all add: demo_connector_def demo_sock_def)

end
