(* ===== verification/RD_Config.thy ===== *)
theory RD_Config
  imports RD_CompactVec
begin

text \<open>
  Configuration values: \<open>Resolvable\<close> (\<^verbatim>\<open>rd-interface/src/config/resolvable.rs\<close>), the visitor
  protocol of \<^verbatim>\<open>rd-interface/src/config.rs\<close> and the \<open>Config\<close> instances, written by hand for
  the containers and generated by the derive macro of \<^verbatim>\<open>rd-derive/src/lib.rs\<close> for structs
  and enums.

  A configuration is a tree: \<open>CEmpty\<close> for a value of a type with an empty \<open>visit\<close>, \<open>CRef\<close> for a
  \<open>NetRef\<close>, and one constructor per way of visiting children. The visitor is the argument
  \<open>vis\<close>: it is given the path and the reference, and may fail, replace the reference and
  change a state of its own. The lemmas reduce a visit to the sequence of references in the
  tree with their paths.
\<close>

section \<open>Resolvable\<close>

record ('r, 'v) resolvable =
  represent :: 'r
  res_value :: "'v option"

definition resolvable_new :: "'r \<Rightarrow> ('r, 'v) resolvable" where
  "resolvable_new r = \<lparr>represent = r, res_value = None\<rparr>"

definition new_with_value :: "'r \<Rightarrow> 'v \<Rightarrow> ('r, 'v) resolvable" where
  "new_with_value r v = \<lparr>represent = r, res_value = Some v\<rparr>"

definition set_value :: "('r, 'v) resolvable \<Rightarrow> 'v \<Rightarrow> ('r, 'v) resolvable" where
  "set_value x v = x\<lparr>res_value := Some v\<rparr>"

text \<open>\<open>value_cloned\<close> and \<open>Deref\<close>: the value, or a panic when it is not set.\<close>

definition value_cloned :: "('r, 'v) resolvable \<Rightarrow> 'v outcome" where
  "value_cloned x = (case res_value x of None \<Rightarrow> Panic | Some v \<Rightarrow> Ret v)"

text \<open>\<open>Serialize\<close> and \<open>Deserialize\<close>, given those of the representation.\<close>

definition resolvable_serialize :: "('r \<Rightarrow> json) \<Rightarrow> ('r, 'v) resolvable \<Rightarrow> json" where
  "resolvable_serialize ser x = ser (represent x)"

definition resolvable_deserialize ::
  "(json \<Rightarrow> string + 'r) \<Rightarrow> json \<Rightarrow> string + ('r, 'v) resolvable" where
  "resolvable_deserialize de j = map_ok resolvable_new (de j)"

type_synonym 'n net_ref = "(json, 'n) resolvable"

definition net_ref_default :: "'n net_ref" where
  "net_ref_default = resolvable_new (JString ''local'')"

section \<open>The visitor\<close>

type_synonym visitor_context = compact_vec_string

definition vc_new :: visitor_context where
  "vc_new = cvs_new"

definition vc_push :: "string \<Rightarrow> visitor_context \<Rightarrow> visitor_context" where
  "vc_push field ctx = cvs_push field ctx"

definition vc_pop :: "visitor_context \<Rightarrow> visitor_context" where
  "vc_pop ctx = cvs_pop ctx"

type_synonym ('n, 's) visitor =
  "visitor_context \<Rightarrow> 'n net_ref \<Rightarrow> 's \<Rightarrow> (error + 'n net_ref) \<times> 's"

section \<open>Configuration trees\<close>

datatype ('d, 'n) config =
    CEmpty 'd
  | CRef "'n net_ref"
  | CSeq "('d, 'n) config list"
  | CKeyed "(string \<times> ('d, 'n) config) list"
  | CPair "('d, 'n) config" "('d, 'n) config"
  | CSingleOrVec "('d, 'n) config single_or_vec"
  | CStruct "(string \<times> ('d, 'n) config) list"
  | CTuple "('d, 'n) config list"

text \<open>One child under a key: \<open>ctx.push(key); x.visit(ctx, visitor)?; ctx.pop()\<close>.\<close>

definition visit_at ::
  "string \<Rightarrow> (visitor_context \<times> 's \<Rightarrow> (error + 'c) \<times> visitor_context \<times> 's) \<Rightarrow>
   visitor_context \<times> 's \<Rightarrow> (error + 'c) \<times> visitor_context \<times> 's" where
  "visit_at key f cs =
     (case f (vc_push key (fst cs), snd cs) of
        (Inl e, r) \<Rightarrow> (Inl e, r)
      | (Inr c, ctx, s) \<Rightarrow> (Inr c, vc_pop ctx, s))"

text \<open>Visit one child, then the rest, stopping at the first error.\<close>

definition visit_then ::
  "('x \<Rightarrow> (error + 'a) \<times> 'x) \<Rightarrow> ('x \<Rightarrow> (error + 'b list) \<times> 'x) \<Rightarrow> ('a \<Rightarrow> 'b) \<Rightarrow>
   'x \<Rightarrow> (error + 'b list) \<times> 'x" where
  "visit_then f g h x =
     (case f x of
        (Inl e, y) \<Rightarrow> (Inl e, y)
      | (Inr a, y) \<Rightarrow> (case g y of (Inl e, z) \<Rightarrow> (Inl e, z) | (Inr bs, z) \<Rightarrow> (Inr (h a # bs), z)))"

text \<open>\<open>Config::visit\<close>. \<open>visit_seq\<close> numbers its children from \<open>n\<close> with the prefix \<open>pre\<close> (empty
  for containers, \<open>i\<close> for tuple variants), \<open>visit_named\<close> uses their keys, \<open>visit_bare\<close> pushes
  nothing.\<close>

fun visit :: "('n, 's) visitor \<Rightarrow> ('d, 'n) config \<Rightarrow> visitor_context \<times> 's \<Rightarrow>
      (error + ('d, 'n) config) \<times> visitor_context \<times> 's"
  and visit_seq :: "('n, 's) visitor \<Rightarrow> string \<Rightarrow> nat \<Rightarrow> ('d, 'n) config list \<Rightarrow> visitor_context \<times> 's \<Rightarrow>
      (error + ('d, 'n) config list) \<times> visitor_context \<times> 's"
  and visit_named :: "('n, 's) visitor \<Rightarrow> (string \<times> ('d, 'n) config) list \<Rightarrow> visitor_context \<times> 's \<Rightarrow>
      (error + (string \<times> ('d, 'n) config) list) \<times> visitor_context \<times> 's"
  and visit_bare :: "('n, 's) visitor \<Rightarrow> ('d, 'n) config list \<Rightarrow> visitor_context \<times> 's \<Rightarrow>
      (error + ('d, 'n) config list) \<times> visitor_context \<times> 's"
where
  "visit vis (CEmpty v) cs = (Inr (CEmpty v), cs)"
| "visit vis (CRef r) cs =
     (case vis (fst cs) r (snd cs) of (res, s) \<Rightarrow> (map_ok CRef res, fst cs, s))"
| "visit vis (CSeq xs) cs = (case visit_seq vis [] 0 xs cs of (r, y) \<Rightarrow> (map_ok CSeq r, y))"
| "visit vis (CKeyed kxs) cs = (case visit_named vis kxs cs of (r, y) \<Rightarrow> (map_ok CKeyed r, y))"
| "visit vis (CPair a b) cs = (Inr (CPair a b), cs)"
| "visit vis (CSingleOrVec (Single x)) cs =
     (case visit vis x cs of (r, y) \<Rightarrow> (map_ok (CSingleOrVec \<circ> Single) r, y))"
| "visit vis (CSingleOrVec (Vec xs)) cs =
     (case visit_bare vis xs cs of (r, y) \<Rightarrow> (map_ok (CSingleOrVec \<circ> Vec) r, y))"
| "visit vis (CStruct fs) cs = (case visit_named vis fs cs of (r, y) \<Rightarrow> (map_ok CStruct r, y))"
| "visit vis (CTuple xs) cs = (case visit_seq vis ''i'' 0 xs cs of (r, y) \<Rightarrow> (map_ok CTuple r, y))"
| "visit_seq vis pre n [] cs = (Inr [], cs)"
| "visit_seq vis pre n (x # xs) cs =
     visit_then (visit_at (pre @ show_radix 10 n) (visit vis x)) (visit_seq vis pre (n + 1) xs)
       (\<lambda>c. c) cs"
| "visit_named vis [] cs = (Inr [], cs)"
| "visit_named vis ((k, x) # kxs) cs =
     visit_then (visit_at k (visit vis x)) (visit_named vis kxs) (\<lambda>c. (k, c)) cs"
| "visit_bare vis [] cs = (Inr [], cs)"
| "visit_bare vis (x # xs) cs = visit_then (visit vis x) (visit_bare vis xs) (\<lambda>c. c) cs"

section \<open>The references of a tree\<close>

fun refs_of :: "string list \<Rightarrow> ('d, 'n) config \<Rightarrow> (string list \<times> 'n net_ref) list"
  and refs_seq :: "string list \<Rightarrow> string \<Rightarrow> nat \<Rightarrow> ('d, 'n) config list \<Rightarrow> (string list \<times> 'n net_ref) list"
  and refs_named :: "string list \<Rightarrow> (string \<times> ('d, 'n) config) list \<Rightarrow> (string list \<times> 'n net_ref) list"
  and refs_bare :: "string list \<Rightarrow> ('d, 'n) config list \<Rightarrow> (string list \<times> 'n net_ref) list"
where
  "refs_of p (CEmpty v) = []"
| "refs_of p (CRef r) = [(p, r)]"
| "refs_of p (CSeq xs) = refs_seq p [] 0 xs"
| "refs_of p (CKeyed kxs) = refs_named p kxs"
| "refs_of p (CPair a b) = []"
| "refs_of p (CSingleOrVec (Single x)) = refs_of p x"
| "refs_of p (CSingleOrVec (Vec xs)) = refs_bare p xs"
| "refs_of p (CStruct fs) = refs_named p fs"
| "refs_of p (CTuple xs) = refs_seq p ''i'' 0 xs"
| "refs_seq p pre n [] = []"
| "refs_seq p pre n (x # xs) = refs_of (p @ [pre @ show_radix 10 n]) x @ refs_seq p pre (n + 1) xs"
| "refs_named p [] = []"
| "refs_named p ((k, x) # kxs) = refs_of (p @ [k]) x @ refs_named p kxs"
| "refs_bare p [] = []"
| "refs_bare p (x # xs) = refs_of p x @ refs_bare p xs"

text \<open>Visiting a list of references in order, stopping at the first error.\<close>

fun visit_refs :: "('n, 's) visitor \<Rightarrow> (string list \<times> 'n net_ref) list \<Rightarrow> 's \<Rightarrow>
    (error + (string list \<times> 'n net_ref) list) \<times> 's" where
  "visit_refs vis [] s = (Inr [], s)"
| "visit_refs vis ((p, r) # rs) s =
     (case vis (cvs_of p) r s of
        (Inl e, s') \<Rightarrow> (Inl e, s')
      | (Inr r', s') \<Rightarrow>
          (case visit_refs vis rs s' of
             (Inl e, s'') \<Rightarrow> (Inl e, s'')
           | (Inr rs', s'') \<Rightarrow> (Inr ((p, r') # rs'), s'')))"

lemma visit_refs_append:
  "visit_refs vis (xs @ ys) s =
     (case visit_refs vis xs s of
        (Inl e, s') \<Rightarrow> (Inl e, s')
      | (Inr xs', s') \<Rightarrow>
          (case visit_refs vis ys s' of
             (Inl e, s'') \<Rightarrow> (Inl e, s'')
           | (Inr ys', s'') \<Rightarrow> (Inr (xs' @ ys'), s'')))"
  by (induction vis xs s rule: visit_refs.induct)
     (auto split: prod.splits sum.splits)

text \<open>A visit \<open>V\<close> of a tree at path \<open>p\<close> agrees with the sequence of its references: same errors,
  same final visitor state, and on success the path is as before and the references of the
  result are the visited ones.\<close>

definition visit_agrees ::
  "('n, 's) visitor \<Rightarrow> string list \<Rightarrow> (string list \<times> 'n net_ref) list \<Rightarrow>
   ('c \<Rightarrow> (string list \<times> 'n net_ref) list) \<Rightarrow> 's \<Rightarrow>
   (error + 'c) \<times> visitor_context \<times> 's \<Rightarrow> bool" where
  "visit_agrees vis p rs refs s res \<longleftrightarrow>
     map_ok refs (fst res) = fst (visit_refs vis rs s) \<and>
     snd (snd res) = snd (visit_refs vis rs s) \<and>
     (is_ok (fst res) \<longrightarrow> fst (snd res) = cvs_of p)"

lemma visit_agrees_at:
  assumes "visit_agrees vis (p @ [k]) rs refs s (f (cvs_of (p @ [k]), s))"
  shows "visit_agrees vis p rs refs s (visit_at k f (cvs_of p, s))"
proof (cases "f (cvs_of (p @ [k]), s)")
  case (fields r ctx s')
  with assms show ?thesis
    by (cases r) (simp_all add: visit_agrees_def visit_at_def vc_push_def vc_pop_def)
qed

lemma visit_agrees_then:
  assumes "visit_agrees vis p rs refs s (f (cvs_of p, s))"
    and "\<And>s. visit_agrees vis p rs2 refs2 s (g (cvs_of p, s))"
    and "\<And>c cs. refs3 (h c # cs) = refs c @ refs2 cs"
  shows "visit_agrees vis p (rs @ rs2) refs3 s (visit_then f g h (cvs_of p, s))"
proof -
  obtain r ctx s' where f: "f (cvs_of p, s) = (r, ctx, s')" by (metis prod_cases3)
  obtain q t where q: "visit_refs vis rs s = (q, t)" by fastforce
  show ?thesis
  proof (cases r)
    case (Inl e)
    with f q assms(1) have "q = Inl e" "t = s'" by (auto simp: visit_agrees_def)
    with f q Inl show ?thesis by (simp add: visit_agrees_def visit_then_def visit_refs_append)
  next
    case (Inr c)
    with f q assms(1) have q': "q = Inr (refs c)" "t = s'" "ctx = cvs_of p"
      by (auto simp: visit_agrees_def)
    obtain r2 ctx2 s2 where g: "g (cvs_of p, s') = (r2, ctx2, s2)" by (metis prod_cases3)
    obtain q2 t2 where q2: "visit_refs vis rs2 s' = (q2, t2)" by fastforce
    from assms(2) [of s'] g q2 have "map_ok refs2 r2 = q2" "t2 = s2" "is_ok r2 \<longrightarrow> ctx2 = cvs_of p"
      by (auto simp: visit_agrees_def)
    with f q q' g q2 Inr show ?thesis
      by (cases r2) (auto simp: visit_agrees_def visit_then_def visit_refs_append assms(3))
  qed
qed

lemma visit_agrees_map:
  assumes "visit_agrees vis p rs refs s V" "\<And>c. refs' (F c) = refs c"
  shows "visit_agrees vis p rs refs' s (case V of (r, y) \<Rightarrow> (map_ok F r, y))"
proof (cases V)
  case (fields r ctx s')
  with assms show ?thesis by (cases r) (simp_all add: visit_agrees_def)
qed

lemma visit_agrees_refs:
  fixes c :: "('d, 'n) config" and xs :: "('d, 'n) config list" and kxs :: "(string \<times> ('d, 'n) config) list"
  shows "visit_agrees vis p (refs_of p c) (refs_of p) s (visit vis c (cvs_of p, s))"
    "visit_agrees vis p (refs_seq p pre n xs) (refs_seq p pre n) s (visit_seq vis pre n xs (cvs_of p, s))"
    "visit_agrees vis p (refs_named p kxs) (refs_named p) s (visit_named vis kxs (cvs_of p, s))"
    "visit_agrees vis p (refs_bare p xs) (refs_bare p) s (visit_bare vis xs (cvs_of p, s))"
proof (induction p c and p pre n xs and p kxs and p xs arbitrary: s and s and s and s
    rule: refs_of_refs_seq_refs_named_refs_bare.induct)
  case (2 p r)
  obtain r' s' where "vis (cvs_of p) r s = (r', s')" by fastforce
  then show ?case by (cases r') (simp_all add: visit_agrees_def)
next
  case (3 p xs)
  then show ?case unfolding refs_of.simps visit.simps by (intro visit_agrees_map) auto
next
  case (4 p kxs)
  then show ?case unfolding refs_of.simps visit.simps by (intro visit_agrees_map) auto
next
  case (6 p x)
  then show ?case unfolding refs_of.simps visit.simps by (intro visit_agrees_map) auto
next
  case (7 p xs)
  then show ?case unfolding refs_of.simps visit.simps by (intro visit_agrees_map) auto
next
  case (8 p fs)
  then show ?case unfolding refs_of.simps visit.simps by (intro visit_agrees_map) auto
next
  case (9 p xs)
  then show ?case unfolding refs_of.simps visit.simps by (intro visit_agrees_map) auto
next
  case (11 p pre n x xs)
  then show ?case
    unfolding refs_seq.simps visit_seq.simps
    by (intro visit_agrees_then visit_agrees_at) auto
next
  case (13 p k x kxs)
  then show ?case
    unfolding refs_named.simps visit_named.simps
    by (intro visit_agrees_then visit_agrees_at) auto
next
  case (15 p x xs)
  then show ?case
    unfolding refs_bare.simps visit_bare.simps
    by (intro visit_agrees_then) auto
qed (simp_all add: visit_agrees_def)

section \<open>Properties\<close>

text \<open>Visiting a configuration hands the visitor exactly the net references of the tree, in
  order, each with the path of keys that leads to it; the first error ends the visit; after a
  successful visit the path is empty again and the tree holds the references the visitor
  returned.\<close>

lemma visit_is_refs_in_order:
  "case (visit vis c (vc_new, s), visit_refs vis (refs_of [] c) s) of
     ((r, ctx, s1), (rs, s2)) \<Rightarrow>
       map_ok (refs_of []) r = rs \<and> s1 = s2 \<and>
       (case r of Inl e \<Rightarrow> True | Inr c' \<Rightarrow> ctx = vc_new)"
  using visit_agrees_refs(1) [of vis "[]" c s]
  by (auto simp: visit_agrees_def vc_new_def cvs_new_of split: prod.splits sum.splits)

text \<open>A reference that the visitor resolved can be dereferenced without a panic.\<close>

lemma visit_resolves_all:
  assumes "visit vis c (vc_new, s) = (Inr c', ctx, s')"
    and "\<And>p r s r' s'. vis p r s = (Inr r', s') \<Longrightarrow> res_value r' \<noteq> None"
  shows "\<forall>(p, r) \<in> set (refs_of [] c'). value_cloned r \<noteq> Panic"
proof -
  have "visit_refs vis rs s = (Inr rs', s') \<Longrightarrow> \<forall>(p, r) \<in> set rs'. res_value r \<noteq> None" for rs s rs' s'
  proof (induction rs arbitrary: s rs' s')
    case (Cons x rs)
    obtain p r where x: "x = (p, r)" by fastforce
    from Cons.prems x obtain r1 s1 rs1 where v: "vis (cvs_of p) r s = (Inr r1, s1)"
      and "visit_refs vis rs s1 = (Inr rs1, s')" and rs': "rs' = (p, r1) # rs1"
      by (auto split: prod.splits sum.splits)
    with Cons.IH show ?case using assms(2) [OF v] by simp
  qed simp
  moreover have "visit_refs vis (refs_of [] c) s = (Inr (refs_of [] c'), s')"
    using assms(1) visit_agrees_refs(1) [of vis "[]" c s]
    by (simp add: visit_agrees_def vc_new_def cvs_new_of prod_eq_iff)
  ultimately show ?thesis
    by (fastforce simp: value_cloned_def split: option.splits)
qed

end
