(* ===== verification/RD_Context.thy ===== *)
theory RD_Context
  imports RD_Config
begin

text \<open>
  The connection context of \<^verbatim>\<open>rd-interface/src/context.rs\<close>: a map of JSON values and the list of
  nets a connection passed through.

  \<open>serde_json::to_value\<close> and \<open>from_value\<close> of the stored types are arguments \<open>ser\<close> and \<open>de\<close> of
  the generic operations; the serialisation of \<open>AddressDomain\<close>, which the repository defines
  itself, is concrete. The interface \<open>common_field\<close> is the \<open>CommonField\<close> trait: a key and a
  codec that inverts; its interpretation on \<open>DestDomain\<close> rests on the address round trip.
\<close>

section \<open>Context\<close>

record conn_context =
  data :: "string \<Rightarrow> json option"
  net_list :: compact_vec_string

definition context_new :: conn_context where
  "context_new = \<lparr>data = (\<lambda>_. None), net_list = cvs_new\<rparr>"

definition ctx_insert ::
  "('a \<Rightarrow> string + json) \<Rightarrow> string \<Rightarrow> 'a \<Rightarrow> conn_context \<Rightarrow> (context_error + unit) \<times> conn_context" where
  "ctx_insert ser key v ctx =
     (case ser v of
        Inl e \<Rightarrow> (Inl (Serde e), ctx)
      | Inr j \<Rightarrow> (Inr (), ctx\<lparr>data := (data ctx)(key \<mapsto> j)\<rparr>))"

definition ctx_remove :: "string \<Rightarrow> conn_context \<Rightarrow> (context_error + unit) \<times> conn_context" where
  "ctx_remove key ctx =
     (case data ctx key of
        None \<Rightarrow> (Inl NonExist, ctx)
      | Some _ \<Rightarrow> (Inr (), ctx\<lparr>data := (data ctx)(key := None)\<rparr>))"

definition ctx_get :: "(json \<Rightarrow> string + 'a) \<Rightarrow> string \<Rightarrow> conn_context \<Rightarrow> context_error + 'a option" where
  "ctx_get de key ctx =
     (case data ctx key of
        None \<Rightarrow> Inr None
      | Some v \<Rightarrow> map_err Serde (map_ok Some (de v)))"

definition ctx_insert_value :: "string \<Rightarrow> json \<Rightarrow> conn_context \<Rightarrow> conn_context" where
  "ctx_insert_value key v ctx = ctx\<lparr>data := (data ctx)(key \<mapsto> v)\<rparr>"

definition ctx_remove_value :: "string \<Rightarrow> conn_context \<Rightarrow> (context_error + unit) \<times> conn_context" where
  "ctx_remove_value key ctx = (Inr (), ctx\<lparr>data := (data ctx)(key := None)\<rparr>)"

definition ctx_get_value :: "string \<Rightarrow> conn_context \<Rightarrow> context_error + json" where
  "ctx_get_value key ctx = (case data ctx key of Some v \<Rightarrow> Inr v | None \<Rightarrow> Inl NonExist)"

text \<open>\<open>insert_common\<close> and \<open>get_common\<close>: a common field is its key with its codec.\<close>

record 'a common_field_ops =
  cf_key :: string
  cf_ser :: "'a \<Rightarrow> string + json"
  cf_de :: "json \<Rightarrow> string + 'a"

definition insert_common ::
  "'a common_field_ops \<Rightarrow> 'a \<Rightarrow> conn_context \<Rightarrow> (context_error + unit) \<times> conn_context" where
  "insert_common f v ctx = ctx_insert (cf_ser f) (cf_key f) v ctx"

definition get_common :: "'a common_field_ops \<Rightarrow> conn_context \<Rightarrow> context_error + 'a option" where
  "get_common f ctx = ctx_get (cf_de f) (cf_key f) ctx"

text \<open>\<open>from_socketaddr\<close>; the codec of \<open>SocketAddr\<close> is serde's.\<close>

definition src_socket_addr_field ::
  "(socket_addr \<Rightarrow> string + json) \<Rightarrow> (json \<Rightarrow> string + socket_addr) \<Rightarrow> socket_addr common_field_ops"
where
  "src_socket_addr_field ser de = \<lparr>cf_key = ''src_socket_addr'', cf_ser = ser, cf_de = de\<rparr>"

definition dest_socket_addr_field ::
  "(socket_addr \<Rightarrow> string + json) \<Rightarrow> (json \<Rightarrow> string + socket_addr) \<Rightarrow> socket_addr common_field_ops"
where
  "dest_socket_addr_field ser de = \<lparr>cf_key = ''dest_socket_addr'', cf_ser = ser, cf_de = de\<rparr>"

record process_info =
  process_name :: string

definition process_info_field ::
  "(process_info \<Rightarrow> string + json) \<Rightarrow> (json \<Rightarrow> string + process_info) \<Rightarrow> process_info common_field_ops"
where
  "process_info_field ser de = \<lparr>cf_key = ''process_info'', cf_ser = ser, cf_de = de\<rparr>"

definition address_domain_serialize :: "address_domain \<Rightarrow> string + json" where
  "address_domain_serialize d = Inr (JString (show_address_domain d))"

definition address_domain_deserialize :: "json \<Rightarrow> string + address_domain" where
  "address_domain_deserialize j =
     (case j of
        JString s \<Rightarrow> map_err (\<lambda>_. ''address not available'') (address_domain_from_str s)
      | _ \<Rightarrow> Inl ''invalid type, expected a string'')"

definition address_serialize :: "address \<Rightarrow> string + json" where
  "address_serialize a = Inr (JString (show_address a))"

definition address_deserialize :: "json \<Rightarrow> string + address" where
  "address_deserialize j =
     (case j of
        JString s \<Rightarrow> map_err (\<lambda>_. ''address not available'') (into_address s)
      | _ \<Rightarrow> Inl ''invalid type, expected a string'')"

definition dest_domain_field :: "address_domain common_field_ops" where
  "dest_domain_field =
     \<lparr>cf_key = ''dest_domain'', cf_ser = address_domain_serialize, cf_de = address_domain_deserialize\<rparr>"

definition from_socketaddr ::
  "(socket_addr \<Rightarrow> string + json) \<Rightarrow> (json \<Rightarrow> string + socket_addr) \<Rightarrow> socket_addr \<Rightarrow> conn_context outcome"
where
  "from_socketaddr ser de addr =
     (case insert_common (src_socket_addr_field ser de) addr context_new of
        (Inl e, _) \<Rightarrow> Panic
      | (Inr _, ctx) \<Rightarrow> Ret ctx)"

definition append_net :: "string \<Rightarrow> conn_context \<Rightarrow> conn_context" where
  "append_net net_name ctx = ctx\<lparr>net_list := cvs_push net_name (net_list ctx)\<rparr>"

definition take_net_list :: "conn_context \<Rightarrow> compact_vec_string \<times> conn_context" where
  "take_net_list ctx = (net_list ctx, ctx\<lparr>net_list := cvs_new\<rparr>)"

definition ctx_to_value :: "conn_context \<Rightarrow> json outcome" where
  "ctx_to_value ctx =
     (case cvs_serialize (net_list ctx) of
        Panic \<Rightarrow> Panic
      | Ret v \<Rightarrow> Ret (JObject ((data ctx)(''net_list'' \<mapsto> v))))"

definition ctx_from_value :: "json \<Rightarrow> context_error + conn_context" where
  "ctx_from_value v =
     (case v of
        JObject m \<Rightarrow>
          and_then
            (case m ''net_list'' of
               None \<Rightarrow> Inr cvs_new
             | Some nl \<Rightarrow> map_err Serde (cvs_deserialize nl))
            (\<lambda>nl. Inr \<lparr>data = m(''net_list'' := None), net_list = nl\<rparr>)
      | _ \<Rightarrow> Inl BadFormat)"

section \<open>The contract of a common field\<close>

locale common_field =
  fixes field :: "'a common_field_ops" and good :: "'a \<Rightarrow> bool"
  assumes codec: "good x \<Longrightarrow> \<exists>j. cf_ser field x = Inr j \<and> cf_de field j = Inr x"
begin

lemma get_insert:
  assumes "good x"
  shows "\<exists>ctx'. insert_common field x ctx = (Inr (), ctx') \<and> get_common field ctx' = Inr (Some x) \<and>
    net_list ctx' = net_list ctx \<and> (\<forall>k. k \<noteq> cf_key field \<longrightarrow> data ctx' k = data ctx k)"
  using codec [OF assms]
  by (auto simp: insert_common_def get_common_def ctx_insert_def ctx_get_def)

lemma get_insert_other:
  assumes "cf_key g \<noteq> cf_key field"
  shows "get_common g (snd (insert_common field x ctx)) = get_common g ctx"
  using assms
  by (auto simp: insert_common_def get_common_def ctx_insert_def ctx_get_def split: sum.splits)

end

interpretation dest_domain: common_field dest_domain_field "\<lambda>_. True"
  by unfold_locales
     (simp add: dest_domain_field_def address_domain_serialize_def address_domain_deserialize_def)

text \<open>An address that was read from a configuration is written so that it is read again as it was.\<close>

lemma address_serde:
  "address_deserialize j = Inr a \<Longrightarrow> \<exists>v. address_serialize a = Inr v \<and> address_deserialize v = Inr a"
  by (auto simp: address_deserialize_def address_serialize_def map_err_Inr_iff split: json.split_asm
      intro!: into_address_show)

section \<open>Invariant\<close>

definition context_inv :: "conn_context \<Rightarrow> bool" where
  "context_inv ctx \<longleftrightarrow> cvs_inv (net_list ctx)"

lemma context_inv_ops:
  assumes "context_inv ctx"
  shows "context_inv (snd (ctx_insert ser k v ctx))" "context_inv (snd (ctx_remove k ctx))"
    "context_inv (ctx_insert_value k j ctx)" "context_inv (snd (ctx_remove_value k ctx))"
    "context_inv (append_net n ctx)" "context_inv (snd (take_net_list ctx))"
  using assms
  by (auto simp: context_inv_def ctx_insert_def ctx_remove_def ctx_insert_value_def
      ctx_remove_value_def append_net_def take_net_list_def cvs.inv_push cvs.inv_new
      split: sum.splits option.splits)

lemma context_inv_new [simp]: "context_inv context_new"
  by (simp add: context_inv_def context_new_def cvs.inv_new)

lemma cvs_deserialize_inv: "cvs_deserialize j = Inr c \<Longrightarrow> cvs_inv c"
proof -
  have "cvs_inv v \<Longrightarrow> cvs_visit_seq v js = Inr c \<Longrightarrow> cvs_inv c" for v js
    by (induction v js rule: cvs_visit_seq.induct) (auto simp: cvs.inv_push)
  from this [of cvs_new] show "cvs_deserialize j = Inr c \<Longrightarrow> cvs_inv c"
    by (cases j) (auto simp: cvs.inv_new cvs.inv_push)
qed

lemma ctx_from_value_inv: "ctx_from_value v = Inr ctx \<Longrightarrow> context_inv ctx"
  by (auto simp: ctx_from_value_def context_inv_def and_then_Inr_iff cvs.inv_new
      elim!: map_err.elims dest: cvs_deserialize_inv split: json.splits option.splits)

lemma serialize_deserialize:
  assumes "cvs_inv c"
  shows "\<exists>v. cvs_serialize c = Ret v \<and> cvs_deserialize v = Inr c"
proof -
  obtain ss where c: "c = cvs_of ss" using assms by auto
  show ?thesis
    unfolding c using cvs_visit_seq_strings [of "[]" ss]
    by (auto simp: cvs_serialize_strings cvs_new_of split: list.splits)
qed

lemma append_nets:
  assumes "context_inv ctx"
  shows "strings (net_list (foldl (\<lambda>c n. append_net n c) ctx ns)) = strings (net_list ctx) @ ns"
  using assms
  by (induction ns arbitrary: ctx)
     (simp_all add: context_inv_ops, simp add: append_net_def context_inv_def cvs.abs_push)

section \<open>Properties\<close>

text \<open>A context written to JSON and read back is the same context, net list included; only
  an entry of its own under the key \<open>net_list\<close> is lost, because the net list is written over
  it.\<close>

lemma context_value_roundtrip:
  assumes "context_inv ctx"
  shows "case ctx_to_value ctx of
    Panic \<Rightarrow> False
  | Ret v \<Rightarrow> ctx_from_value v = Inr (ctx\<lparr>data := (data ctx)(''net_list'' := None)\<rparr>)"
proof -
  obtain v where "cvs_serialize (net_list ctx) = Ret v" "cvs_deserialize v = Inr (net_list ctx)"
    using serialize_deserialize assms unfolding context_inv_def by blast
  then show ?thesis by (cases ctx) (simp add: ctx_to_value_def ctx_from_value_def)
qed

lemma context_value_roundtrip_witness:
  "context_inv (append_net ''local'' context_new) \<and>
   (case ctx_to_value (append_net ''local'' context_new) of
      Panic \<Rightarrow> False
    | Ret v \<Rightarrow> ctx_from_value v = Inr (append_net ''local'' context_new))"
proof -
  have "context_inv (append_net ''local'' context_new)" by (simp add: context_inv_ops)
  moreover have "(append_net ''local'' context_new)\<lparr>data :=
      (data (append_net ''local'' context_new))(''net_list'' := None)\<rparr> =
      append_net ''local'' context_new"
    by (simp add: append_net_def context_new_def fun_upd_def)
  ultimately show ?thesis using context_value_roundtrip by metis
qed

text \<open>The destination domain that a connection stores in its context is the one a later stage
  reads back, whatever the domain and port, and storing it changes neither the net list nor
  any other field.\<close>

lemma dest_domain_get_insert:
  "\<exists>ctx'. insert_common dest_domain_field d ctx = (Inr (), ctx') \<and>
     get_common dest_domain_field ctx' = Inr (Some d) \<and> net_list ctx' = net_list ctx \<and>
     (\<forall>ser de. get_common (src_socket_addr_field ser de) ctx' =
        get_common (src_socket_addr_field ser de) ctx \<and>
        get_common (dest_socket_addr_field ser de) ctx' =
        get_common (dest_socket_addr_field ser de) ctx)"
proof -
  have k: "cf_key (src_socket_addr_field ser de) \<noteq> cf_key dest_domain_field"
    "cf_key (dest_socket_addr_field ser de) \<noteq> cf_key dest_domain_field" for ser de
    by (simp_all add: src_socket_addr_field_def dest_socket_addr_field_def dest_domain_field_def)
  obtain ctx' where i: "insert_common dest_domain_field d ctx = (Inr (), ctx')"
    and "get_common dest_domain_field ctx' = Inr (Some d)" "net_list ctx' = net_list ctx"
    using dest_domain.get_insert [of d ctx] by blast
  moreover have "get_common g ctx' = get_common g ctx" if "cf_key g \<noteq> cf_key dest_domain_field"
    for g :: "socket_addr common_field_ops"
    using dest_domain.get_insert_other [OF that, of d ctx] i by simp
  ultimately show ?thesis using k by blast
qed

end
