(* ===== verification/RD_ConnMgr.thy ===== *)
theory RD_ConnMgr
  imports RD_Context
begin

text \<open>
  The connection manager, after \<^verbatim>\<open>src/rabbit_digger/connection_manager.rs\<close> and \<^verbatim>\<open>event.rs\<close>.

  Connections count their traffic and send it, at heartbeats and when they are dropped, as
  events to the manager, which keeps one entry per connection and the u64 totals. The parts
  run in different tasks: the model is a system state (manager state, the unbounded channel
  of events, the one-shot stop channels, the live connections) with one function per
  operation, and \<open>run\<close> executes them in any order.

  \<open>Uuid\<close>s are numbers of which only equality is used; \<open>Uuid::new_v4\<close> gives one never used
  before. A connection has one stop channel, named by its uuid. A \<open>HashMap\<close> of counters is an
  association list: its order is that of first use, and nothing proved depends on it.

  The contract \<open>conn_type\<close> is the trait \<open>ConnType\<close>, interpreted for \<open>Tcp\<close> and \<open>Udp\<close>. The
  invariant \<open>sys_inv\<close> says, per uuid, where a connection is in its life; the theorems are that
  no byte is lost or counted twice, that entries live exactly as long as their connections,
  and that only a stop request aborts a connection.
\<close>

type_synonym uuid = nat

section \<open>Events\<close>

datatype event_type =
    NewTcp address json
  | NewUdp address json
  | SetStopper uuid
  | CloseConnection
  | EvWrite u64
  | EvRead u64
  | EvSendTo address u64
  | EvRecvFrom address u64

fun event_disc :: "event_type \<Rightarrow> nat" where
  "event_disc (NewTcp _ _) = 0"
| "event_disc (NewUdp _ _) = 1"
| "event_disc (SetStopper _) = 2"
| "event_disc CloseConnection = 3"
| "event_disc (EvWrite _) = 4"
| "event_disc (EvRead _) = 5"
| "event_disc (EvSendTo _ _) = 6"
| "event_disc (EvRecvFrom _ _) = 7"

definition event_type_eq :: "event_type \<Rightarrow> event_type \<Rightarrow> bool" where
  "event_type_eq a b \<longleftrightarrow>
     (case (a, b) of (SetStopper _, SetStopper _) \<Rightarrow> True | _ \<Rightarrow> event_disc a = event_disc b)"

record event =
  ev_uuid :: uuid
  ev_events :: "event_type list"
  ev_time :: nat

section \<open>Connection state\<close>

datatype protocol = TcpProto | UdpProto

record connection_info =
  protocol :: protocol
  ci_addr :: address
  start_time :: nat
  ci_ctx :: json
  upload :: u64
  download :: u64
  stop_sender :: "uuid option"

record connection_state =
  connections :: "uuid \<Rightarrow> connection_info option"
  total_upload :: u64
  total_download :: u64

definition cs_new :: connection_state where
  "cs_new = \<lparr>connections = (\<lambda>_. None), total_upload = 0, total_download = 0\<rparr>"

definition new_info :: "protocol \<Rightarrow> address \<Rightarrow> json \<Rightarrow> nat \<Rightarrow> connection_info" where
  "new_info p addr ctx time =
     \<lparr>protocol = p, ci_addr = addr, start_time = time, ci_ctx = ctx, upload = 0, download = 0,
      stop_sender = None\<rparr>"

definition add_download :: "uuid \<Rightarrow> u64 \<Rightarrow> connection_state \<Rightarrow> connection_state" where
  "add_download u n s =
     (case connections s u of
        None \<Rightarrow> s
      | Some conn \<Rightarrow>
          s\<lparr>connections := (connections s)(u \<mapsto> conn\<lparr>download := download conn + n\<rparr>),
            total_download := total_download s + n\<rparr>)"

definition add_upload :: "uuid \<Rightarrow> u64 \<Rightarrow> connection_state \<Rightarrow> connection_state" where
  "add_upload u n s =
     (case connections s u of
        None \<Rightarrow> s
      | Some conn \<Rightarrow>
          s\<lparr>connections := (connections s)(u \<mapsto> conn\<lparr>upload := upload conn + n\<rparr>),
            total_upload := total_upload s + n\<rparr>)"

text \<open>The states of a one-shot stop channel; dropping a sender that was not used makes the
  receiver ready too.\<close>

datatype chan_state = COpen | CSent | CTxDropped | CRxDropped

definition drop_sender :: "uuid option \<Rightarrow> (uuid \<Rightarrow> chan_state) \<Rightarrow> uuid \<Rightarrow> chan_state" where
  "drop_sender sender ch =
     (case sender of
        None \<Rightarrow> ch
      | Some c \<Rightarrow> if ch c = COpen then ch(c := CTxDropped) else ch)"

text \<open>\<open>sender.send(()).is_ok()\<close>.\<close>

definition send_stop :: "uuid \<Rightarrow> (uuid \<Rightarrow> chan_state) \<Rightarrow> bool \<times> (uuid \<Rightarrow> chan_state)" where
  "send_stop c ch = (if ch c = CRxDropped then (False, ch) else (True, ch(c := CSent)))"

text \<open>One event of \<open>input_event\<close>. The stop sender of an entry that is replaced or removed is
  dropped with it, and so is a stop sender that arrives for no entry.\<close>

definition old_sender :: "connection_state \<Rightarrow> uuid \<Rightarrow> uuid option" where
  "old_sender s u = (case connections s u of None \<Rightarrow> None | Some conn \<Rightarrow> stop_sender conn)"

fun input_one ::
  "uuid \<Rightarrow> nat \<Rightarrow> connection_state \<times> (uuid \<Rightarrow> chan_state) \<Rightarrow> event_type \<Rightarrow>
   connection_state \<times> (uuid \<Rightarrow> chan_state)" where
  "input_one u time (s, ch) (NewTcp addr ctx) =
     (s\<lparr>connections := (connections s)(u \<mapsto> new_info TcpProto addr ctx time)\<rparr>,
      drop_sender (old_sender s u) ch)"
| "input_one u time (s, ch) (NewUdp addr ctx) =
     (s\<lparr>connections := (connections s)(u \<mapsto> new_info UdpProto addr ctx time)\<rparr>,
      drop_sender (old_sender s u) ch)"
| "input_one u time (s, ch) (SetStopper sender) =
     (case connections s u of
        None \<Rightarrow> (s, drop_sender (Some sender) ch)
      | Some conn \<Rightarrow>
          (s\<lparr>connections := (connections s)(u \<mapsto> conn\<lparr>stop_sender := Some sender\<rparr>)\<rparr>,
           drop_sender (stop_sender conn) ch))"
| "input_one u time (s, ch) (EvRead n) = (add_download u n s, ch)"
| "input_one u time (s, ch) (EvWrite n) = (add_upload u n s, ch)"
| "input_one u time (s, ch) (EvRecvFrom _ n) = (add_download u n s, ch)"
| "input_one u time (s, ch) (EvSendTo _ n) = (add_upload u n s, ch)"
| "input_one u time (s, ch) CloseConnection =
     (s\<lparr>connections := (connections s)(u := None)\<rparr>, drop_sender (old_sender s u) ch)"

definition input_event ::
  "event \<Rightarrow> connection_state \<times> (uuid \<Rightarrow> chan_state) \<Rightarrow> connection_state \<times> (uuid \<Rightarrow> chan_state)" where
  "input_event ev sc = foldl (input_one (ev_uuid ev) (ev_time ev)) sc (ev_events ev)"

definition stop_connection ::
  "uuid \<Rightarrow> connection_state \<times> (uuid \<Rightarrow> chan_state) \<Rightarrow>
   bool \<times> connection_state \<times> (uuid \<Rightarrow> chan_state)" where
  "stop_connection u sc =
     (case sc of (s, ch) \<Rightarrow>
        (case connections s u of
           None \<Rightarrow> (False, s, ch)
         | Some conn \<Rightarrow>
             (case stop_sender conn of
                None \<Rightarrow> (False, s, ch)
              | Some sender \<Rightarrow>
                  (case send_stop sender ch of
                     (ok, ch') \<Rightarrow>
                       (ok, s\<lparr>connections := (connections s)(u \<mapsto> conn\<lparr>stop_sender := None\<rparr>)\<rparr>, ch')))))"

text \<open>\<open>stop_connections\<close>, with the uuids of the map in the order it is iterated.\<close>

fun stop_connections ::
  "uuid list \<Rightarrow> connection_state \<times> (uuid \<Rightarrow> chan_state) \<Rightarrow>
   nat \<times> connection_state \<times> (uuid \<Rightarrow> chan_state)" where
  "stop_connections [] sc = (0, sc)"
| "stop_connections (u # us) sc =
     (case stop_connection u sc of
        (ok, sc') \<Rightarrow>
          (case stop_connections us sc' of (n, sc'') \<Rightarrow> ((if ok then n + 1 else n), sc'')))"

section \<open>Connections\<close>

record tcp =
  tcp_read :: u64
  tcp_write :: u64

record udp =
  udp_recv_from :: "(address \<times> u64) list"
  udp_send_to :: "(address \<times> u64) list"

definition tcp_default :: tcp where
  "tcp_default = \<lparr>tcp_read = 0, tcp_write = 0\<rparr>"

definition udp_default :: udp where
  "udp_default = \<lparr>udp_recv_from = [], udp_send_to = []\<rparr>"

definition tcp_event_type :: "address \<Rightarrow> json \<Rightarrow> event_type" where
  "tcp_event_type addr ctx = NewTcp addr ctx"

definition udp_event_type :: "address \<Rightarrow> json \<Rightarrow> event_type" where
  "udp_event_type addr ctx = NewUdp addr ctx"

definition tcp_get_events :: "tcp \<Rightarrow> event_type list \<times> tcp" where
  "tcp_get_events t =
     ((if 0 < tcp_read t then [EvRead (tcp_read t)] else []) @
      (if 0 < tcp_write t then [EvWrite (tcp_write t)] else []),
      \<lparr>tcp_read = (if 0 < tcp_read t then 0 else tcp_read t),
       tcp_write = (if 0 < tcp_write t then 0 else tcp_write t)\<rparr>)"

definition udp_get_events :: "udp \<Rightarrow> event_type list \<times> udp" where
  "udp_get_events t =
     (map (\<lambda>(a, n). EvRecvFrom a n) (udp_recv_from t) @ map (\<lambda>(a, n). EvSendTo a n) (udp_send_to t),
      \<lparr>udp_recv_from = [], udp_send_to = []\<rparr>)"

text \<open>\<open>map.entry(addr).and_modify(|e| *e += size).or_insert(size)\<close>.\<close>

fun entry_add :: "'k \<Rightarrow> u64 \<Rightarrow> ('k \<times> u64) list \<Rightarrow> ('k \<times> u64) list" where
  "entry_add k n [] = [(k, n)]"
| "entry_add k n ((k', v) # kvs) = (if k' = k then (k', v + n) # kvs else (k', v) # entry_add k n kvs)"

definition tcp_do_read :: "u64 \<Rightarrow> tcp \<Rightarrow> tcp" where
  "tcp_do_read n t = t\<lparr>tcp_read := tcp_read t + n\<rparr>"

definition tcp_do_write :: "u64 \<Rightarrow> tcp \<Rightarrow> tcp" where
  "tcp_do_write n t = t\<lparr>tcp_write := tcp_write t + n\<rparr>"

definition udp_do_recv_from :: "address \<Rightarrow> u64 \<Rightarrow> udp \<Rightarrow> udp" where
  "udp_do_recv_from a n t = t\<lparr>udp_recv_from := entry_add a n (udp_recv_from t)\<rparr>"

definition udp_do_send_to :: "address \<Rightarrow> u64 \<Rightarrow> udp \<Rightarrow> udp" where
  "udp_do_send_to a n t = t\<lparr>udp_send_to := entry_add a n (udp_send_to t)\<rparr>"

text \<open>The operations of \<open>Connection<T>\<close>, for any \<open>ConnType\<close>: the events they put on the channel
  come with the result.\<close>

record 't connection =
  cn_state :: 't
  cn_uuid :: uuid

definition conn_send :: "uuid \<Rightarrow> nat \<Rightarrow> event_type list \<Rightarrow> event list" where
  "conn_send u now events =
     (if events = [] then [] else [\<lparr>ev_uuid = u, ev_events = events, ev_time = now\<rparr>])"

definition conn_new ::
  "'t \<Rightarrow> (address \<Rightarrow> json \<Rightarrow> event_type) \<Rightarrow> address \<Rightarrow> json \<Rightarrow> uuid \<Rightarrow> nat \<Rightarrow>
   't connection \<times> event list" where
  "conn_new dflt evt addr ctx u now =
     (\<lparr>cn_state = dflt, cn_uuid = u\<rparr>, conn_send u now [evt addr ctx, SetStopper u])"

definition conn_poll ::
  "('t \<Rightarrow> event_type list \<times> 't) \<Rightarrow> bool \<Rightarrow> chan_state \<Rightarrow> nat \<Rightarrow> 't connection \<Rightarrow>
   (io_error + unit) \<times> 't connection \<times> event list" where
  "conn_poll get_events heartbeat stopped now c =
     (case (if heartbeat
            then (case get_events (cn_state c) of
                    (evs, t) \<Rightarrow> (c\<lparr>cn_state := t\<rparr>, conn_send (cn_uuid c) now evs))
            else (c, [])) of
        (c', sent) \<Rightarrow>
          (if stopped = COpen then Inr ()
           else Inl (IoCustom ConnectionAborted ''Aborted by user''), c', sent))"

definition conn_drop :: "('t \<Rightarrow> event_type list \<times> 't) \<Rightarrow> nat \<Rightarrow> 't connection \<Rightarrow> event list" where
  "conn_drop get_events now c =
     (case get_events (cn_state c) of
        (evs, t) \<Rightarrow> conn_send (cn_uuid c) now evs @ conn_send (cn_uuid c) now [CloseConnection])"

section \<open>The system\<close>

datatype any_conn = TcpConn "tcp connection" | UdpConn "udp connection"

record sys =
  mgr :: connection_state
  chans :: "uuid \<Rightarrow> chan_state"
  queue :: "event list"
  live :: "uuid \<Rightarrow> any_conn option"
  used :: "uuid set"

definition sys_init :: sys where
  "sys_init = \<lparr>mgr = cs_new, chans = (\<lambda>_. COpen), queue = [], live = (\<lambda>_. None), used = {}\<rparr>"

datatype action =
    AOpenTcp uuid address conn_context nat
  | AOpenUdp uuid address conn_context nat
  | ARead uuid u64
  | AWrite uuid u64
  | ARecvFrom uuid address u64
  | ASendTo uuid address u64
  | APoll uuid bool nat
  | ADrop uuid nat
  | ADeliver
  | AStop uuid
  | AStopAll "uuid list"

text \<open>\<open>new_connection\<close>: nothing happens for a uuid already used, which \<open>new_v4\<close> never returns,
  or when \<open>to_value\<close> panics.\<close>

definition open_conn ::
  "('t connection \<Rightarrow> any_conn) \<Rightarrow> 't \<Rightarrow> (address \<Rightarrow> json \<Rightarrow> event_type) \<Rightarrow>
   uuid \<Rightarrow> address \<Rightarrow> conn_context \<Rightarrow> nat \<Rightarrow> sys \<Rightarrow> sys" where
  "open_conn wrap dflt evt u addr ctx now s =
     (if u \<in> used s then s
      else
        (case ctx_to_value ctx of
           Panic \<Rightarrow> s
         | Ret v \<Rightarrow>
             (case conn_new dflt evt addr v u now of
                (c, sent) \<Rightarrow>
                  s\<lparr>live := (live s)(u \<mapsto> wrap c), queue := queue s @ sent,
                    chans := (chans s)(u := COpen), used := insert u (used s)\<rparr>)))"

definition map_tcp :: "uuid \<Rightarrow> (tcp \<Rightarrow> tcp) \<Rightarrow> sys \<Rightarrow> sys" where
  "map_tcp u f s =
     (case live s u of
        Some (TcpConn c) \<Rightarrow> s\<lparr>live := (live s)(u \<mapsto> TcpConn (c\<lparr>cn_state := f (cn_state c)\<rparr>))\<rparr>
      | _ \<Rightarrow> s)"

definition map_udp :: "uuid \<Rightarrow> (udp \<Rightarrow> udp) \<Rightarrow> sys \<Rightarrow> sys" where
  "map_udp u f s =
     (case live s u of
        Some (UdpConn c) \<Rightarrow> s\<lparr>live := (live s)(u \<mapsto> UdpConn (c\<lparr>cn_state := f (cn_state c)\<rparr>))\<rparr>
      | _ \<Rightarrow> s)"

fun any_poll :: "bool \<Rightarrow> chan_state \<Rightarrow> nat \<Rightarrow> any_conn \<Rightarrow> (io_error + unit) \<times> any_conn \<times> event list" where
  "any_poll hb st now (TcpConn c) =
     (case conn_poll tcp_get_events hb st now c of (r, c', sent) \<Rightarrow> (r, TcpConn c', sent))"
| "any_poll hb st now (UdpConn c) =
     (case conn_poll udp_get_events hb st now c of (r, c', sent) \<Rightarrow> (r, UdpConn c', sent))"

fun any_drop :: "nat \<Rightarrow> any_conn \<Rightarrow> event list" where
  "any_drop now (TcpConn c) = conn_drop tcp_get_events now c"
| "any_drop now (UdpConn c) = conn_drop udp_get_events now c"

definition poll_conn :: "uuid \<Rightarrow> bool \<Rightarrow> nat \<Rightarrow> sys \<Rightarrow> (io_error + unit) option \<times> sys" where
  "poll_conn u hb now s =
     (case live s u of
        None \<Rightarrow> (None, s)
      | Some c \<Rightarrow>
          (case any_poll hb (chans s u) now c of
             (r, c', sent) \<Rightarrow> (Some r, s\<lparr>live := (live s)(u \<mapsto> c'), queue := queue s @ sent\<rparr>)))"

definition drop_conn :: "uuid \<Rightarrow> nat \<Rightarrow> sys \<Rightarrow> sys" where
  "drop_conn u now s =
     (case live s u of
        None \<Rightarrow> s
      | Some c \<Rightarrow>
          s\<lparr>live := (live s)(u := None), queue := queue s @ any_drop now c,
            chans := (chans s)(u := CRxDropped)\<rparr>)"

text \<open>One turn of the loop of \<open>recv_event\<close>.\<close>

definition recv_event :: "sys \<Rightarrow> sys" where
  "recv_event s =
     (case queue s of
        [] \<Rightarrow> s
      | ev # q \<Rightarrow>
          (case input_event ev (mgr s, chans s) of
             (m, ch) \<Rightarrow> s\<lparr>mgr := m, chans := ch, queue := q\<rparr>))"

fun sys_step :: "sys \<Rightarrow> action \<Rightarrow> sys" where
  "sys_step s (AOpenTcp u addr ctx now) = open_conn TcpConn tcp_default tcp_event_type u addr ctx now s"
| "sys_step s (AOpenUdp u addr ctx now) = open_conn UdpConn udp_default udp_event_type u addr ctx now s"
| "sys_step s (ARead u n) = map_tcp u (tcp_do_read n) s"
| "sys_step s (AWrite u n) = map_tcp u (tcp_do_write n) s"
| "sys_step s (ARecvFrom u a n) = map_udp u (udp_do_recv_from a n) s"
| "sys_step s (ASendTo u a n) = map_udp u (udp_do_send_to a n) s"
| "sys_step s (APoll u hb now) = snd (poll_conn u hb now s)"
| "sys_step s (ADrop u now) = drop_conn u now s"
| "sys_step s ADeliver = recv_event s"
| "sys_step s (AStop u) =
     (case stop_connection u (mgr s, chans s) of (_, m, ch) \<Rightarrow> s\<lparr>mgr := m, chans := ch\<rparr>)"
| "sys_step s (AStopAll us) =
     (case stop_connections us (mgr s, chans s) of (_, m, ch) \<Rightarrow> s\<lparr>mgr := m, chans := ch\<rparr>)"

section \<open>The contract of ConnType\<close>

fun ev_down :: "event_type \<Rightarrow> u64" where
  "ev_down (EvRead n) = n"
| "ev_down (EvRecvFrom _ n) = n"
| "ev_down _ = 0"

fun ev_up :: "event_type \<Rightarrow> u64" where
  "ev_up (EvWrite n) = n"
| "ev_up (EvSendTo _ n) = n"
| "ev_up _ = 0"

fun is_data :: "event_type \<Rightarrow> bool" where
  "is_data (EvRead _) = True"
| "is_data (EvWrite _) = True"
| "is_data (EvRecvFrom _ _) = True"
| "is_data (EvSendTo _ _) = True"
| "is_data _ = False"

fun is_new :: "event_type \<Rightarrow> bool" where
  "is_new (NewTcp _ _) = True"
| "is_new (NewUdp _ _) = True"
| "is_new _ = False"

definition ev_sum :: "(event_type \<Rightarrow> u64) \<Rightarrow> event_type list \<Rightarrow> u64" where
  "ev_sum f evs = sum_list (map f evs)"

text \<open>What \<open>Connection<T>\<close> relies on: draining reports exactly what was counted, as data events,
  and leaves nothing behind. \<open>down\<close> and \<open>up\<close> are the counters not yet reported.\<close>

locale conn_type =
  fixes dflt :: 't and evt :: "address \<Rightarrow> json \<Rightarrow> event_type"
    and get_events :: "'t \<Rightarrow> event_type list \<times> 't"
    and down :: "'t \<Rightarrow> u64" and up :: "'t \<Rightarrow> u64"
  assumes dflt_zero: "down dflt = 0" "up dflt = 0"
    and evt_new: "is_new (evt addr ctx)"
    and drained: "get_events t = (evs, t') \<Longrightarrow> list_all is_data evs \<and>
        ev_sum ev_down evs = down t \<and> ev_sum ev_up evs = up t \<and> down t' = 0 \<and> up t' = 0"
begin

lemma new_events:
  "conn_new dflt evt addr ctx u now = (c, sent) \<Longrightarrow>
   cn_uuid c = u \<and> down (cn_state c) = 0 \<and> up (cn_state c) = 0 \<and>
   (\<exists>e. is_new e \<and> sent = [\<lparr>ev_uuid = u, ev_events = [e, SetStopper u], ev_time = now\<rparr>])"
  using evt_new by (auto simp: conn_new_def conn_send_def dflt_zero)

text \<open>A poll or a drop moves what was counted onto the channel, whatever else it does.\<close>

lemma poll_moves:
  assumes "conn_poll get_events hb st now c = (r, c', sent)"
  shows "cn_uuid c' = cn_uuid c \<and> (\<exists>ds. sent = conn_send (cn_uuid c) now ds \<and> list_all is_data ds \<and>
      down (cn_state c) = down (cn_state c') + ev_sum ev_down ds \<and>
      up (cn_state c) = up (cn_state c') + ev_sum ev_up ds)"
proof (cases hb)
  case True
  obtain evs t where g: "get_events (cn_state c) = (evs, t)" by fastforce
  with True assms have "c' = c\<lparr>cn_state := t\<rparr>" "sent = conn_send (cn_uuid c) now evs"
    by (auto simp: conn_poll_def split: if_splits)
  with drained [OF g] show ?thesis by auto
next
  case False
  with assms show ?thesis
    by (auto simp: conn_poll_def conn_send_def ev_sum_def intro!: exI [of _ "[]"])
qed

lemma drop_moves:
  "\<exists>ds. conn_drop get_events now c =
      conn_send (cn_uuid c) now ds @ conn_send (cn_uuid c) now [CloseConnection] \<and>
    list_all is_data ds \<and> down (cn_state c) = ev_sum ev_down ds \<and> up (cn_state c) = ev_sum ev_up ds"
proof -
  obtain evs t where g: "get_events (cn_state c) = (evs, t)" by fastforce
  with drained [OF g] show ?thesis by (auto simp: conn_drop_def)
qed

end

lemma ev_sum_simps [simp]:
  "ev_sum f [] = 0" "ev_sum f (e # es) = f e + ev_sum f es" "ev_sum f (es @ fs) = ev_sum f es + ev_sum f fs"
  by (simp_all add: ev_sum_def)

definition udp_down :: "udp \<Rightarrow> u64" where
  "udp_down t = sum_list (map snd (udp_recv_from t))"

definition udp_up :: "udp \<Rightarrow> u64" where
  "udp_up t = sum_list (map snd (udp_send_to t))"

interpretation tcp_ct: conn_type tcp_default tcp_event_type tcp_get_events tcp_read tcp_write
  by unfold_locales (auto simp: tcp_default_def tcp_event_type_def tcp_get_events_def word_gt_0)

lemma ev_sum_udp:
  "ev_sum ev_down (map (\<lambda>(a, n). EvRecvFrom a n) xs) = sum_list (map snd xs)"
  "ev_sum ev_up (map (\<lambda>(a, n). EvRecvFrom a n) xs) = 0"
  "ev_sum ev_up (map (\<lambda>(a, n). EvSendTo a n) xs) = sum_list (map snd xs)"
  "ev_sum ev_down (map (\<lambda>(a, n). EvSendTo a n) xs) = 0"
  by (induction xs) auto

interpretation udp_ct: conn_type udp_default udp_event_type udp_get_events udp_down udp_up
  by unfold_locales
     (auto simp: udp_default_def udp_event_type_def udp_get_events_def udp_down_def udp_up_def
        ev_sum_udp list_all_iff)

lemma entry_add_sum: "sum_list (map snd (entry_add k n kvs)) = sum_list (map snd kvs) + (n :: u64)"
  by (induction k n kvs rule: entry_add.induct) (auto simp: algebra_simps)

section \<open>The life of a connection\<close>

text \<open>The events of one uuid that are still on the channel.\<close>

definition evs_of :: "uuid \<Rightarrow> event list \<Rightarrow> event_type list" where
  "evs_of u q = concat (map ev_events (filter (\<lambda>e. ev_uuid e = u) q))"

lemma evs_of_simps [simp]:
  "evs_of u [] = []"
  "evs_of u (e # q) = (if ev_uuid e = u then ev_events e else []) @ evs_of u q"
  "evs_of u (q @ q') = evs_of u q @ evs_of u q'"
  by (simp_all add: evs_of_def)

lemma evs_of_conn_send [simp]: "evs_of u (conn_send u' now es) = (if u = u' then es else [])"
  by (auto simp: conn_send_def)

text \<open>What ends the events of a connection: nothing while it lives.\<close>

definition tail_of :: "bool \<Rightarrow> event_type list" where
  "tail_of alive = (if alive then [] else [CloseConnection])"

text \<open>Where a connection is, given its entry, its pending events, whether it lives and its stop
  channel: gone or not yet there; announced; announced without its stopper; registered.\<close>

definition ph_gone :: "connection_info option \<Rightarrow> event_type list \<Rightarrow> bool \<Rightarrow> bool" where
  "ph_gone info es alive \<longleftrightarrow> \<not> alive \<and> info = None \<and> es = []"

definition ph_announced ::
  "uuid \<Rightarrow> connection_info option \<Rightarrow> event_type list \<Rightarrow> bool \<Rightarrow> chan_state \<Rightarrow> bool" where
  "ph_announced u info es alive ch \<longleftrightarrow>
     info = None \<and> (alive \<longrightarrow> ch = COpen) \<and>
     (\<exists>e ds. is_new e \<and> list_all is_data ds \<and> es = e # SetStopper u # ds @ tail_of alive)"

definition ph_bare ::
  "uuid \<Rightarrow> connection_info option \<Rightarrow> event_type list \<Rightarrow> bool \<Rightarrow> chan_state \<Rightarrow> bool" where
  "ph_bare u info es alive ch \<longleftrightarrow>
     (\<exists>i. info = Some i \<and> stop_sender i = None) \<and> (alive \<longrightarrow> ch = COpen) \<and>
     (\<exists>ds. list_all is_data ds \<and> es = SetStopper u # ds @ tail_of alive)"

definition ph_registered ::
  "uuid \<Rightarrow> connection_info option \<Rightarrow> event_type list \<Rightarrow> bool \<Rightarrow> chan_state \<Rightarrow> bool" where
  "ph_registered u info es alive ch \<longleftrightarrow>
     (\<exists>i. info = Some i \<and> stop_sender i \<in> {None, Some u} \<and>
          (alive \<longrightarrow> ch = (if stop_sender i = None then CSent else COpen))) \<and>
     (\<exists>ds. list_all is_data ds \<and> es = ds @ tail_of alive)"

definition phase ::
  "uuid \<Rightarrow> connection_info option \<Rightarrow> event_type list \<Rightarrow> bool \<Rightarrow> chan_state \<Rightarrow> bool" where
  "phase u info es alive ch \<longleftrightarrow>
     ph_gone info es alive \<or> ph_announced u info es alive ch \<or> ph_bare u info es alive ch \<or>
     ph_registered u info es alive ch"

lemmas phase_defs = ph_gone_def ph_announced_def ph_bare_def ph_registered_def

text \<open>More data events at the end, and the closing event, keep a connection in phase.\<close>

lemma phase_append_data:
  assumes "phase u info es True ch" "list_all is_data ds"
  shows "phase u info (es @ ds) True ch"
  using assms unfolding phase_def phase_defs tail_of_def
  by (elim disjE conjE exE; simp; metis list_all_append append_assoc)

lemma phase_close:
  assumes "phase u info es True ch"
  shows "phase u info (es @ [CloseConnection]) False ch'"
  using assms unfolding phase_def phase_defs tail_of_def by fastforce

lemma phase_new:
  "is_new e \<Longrightarrow> phase u None [e, SetStopper u] True COpen"
  unfolding phase_def ph_announced_def tail_of_def by (intro disjI2 disjI1) auto

text \<open>Taking one event: the entry moves on, the totals grow by what the event carries, and no
  other connection is touched.\<close>

definition took :: "uuid \<Rightarrow> bool \<Rightarrow> event_type \<Rightarrow> event_type list \<Rightarrow>
    connection_state \<times> (uuid \<Rightarrow> chan_state) \<Rightarrow> connection_state \<times> (uuid \<Rightarrow> chan_state) \<Rightarrow> bool" where
  "took u alive e es sc sc' \<longleftrightarrow>
     phase u (connections (fst sc') u) es alive (snd sc' u) \<and>
     total_download (fst sc') = total_download (fst sc) + ev_down e \<and>
     total_upload (fst sc') = total_upload (fst sc) + ev_up e \<and>
     (\<forall>v. v \<noteq> u \<longrightarrow> connections (fst sc') v = connections (fst sc) v \<and> snd sc' v = snd sc v)"

lemma take_announced:
  assumes "ph_announced u (connections s u) (e # es) alive (ch u)"
  shows "took u alive e es (s, ch) (input_one u t (s, ch) e)"
proof -
  from assms have n: "connections s u = None" "is_new e" "alive \<longrightarrow> ch u = COpen"
    and es: "\<exists>ds. list_all is_data ds \<and> es = SetStopper u # ds @ tail_of alive"
    by (auto simp: ph_announced_def)
  then have b: "\<And>i. stop_sender i = None \<Longrightarrow> ph_bare u (Some i) es alive (ch u)"
    by (auto simp: ph_bare_def)
  from n(2) show ?thesis
    by (cases e) (use n(1) b in \<open>simp_all add: took_def phase_def new_info_def old_sender_def drop_sender_def\<close>)
qed

lemma take_bare:
  assumes "ph_bare u (connections s u) (e # es) alive (ch u)"
  shows "took u alive e es (s, ch) (input_one u t (s, ch) e)"
proof -
  from assms obtain i ds where i: "connections s u = Some i" "stop_sender i = None"
      "alive \<longrightarrow> ch u = COpen" and e: "e = SetStopper u" "list_all is_data ds" "es = ds @ tail_of alive"
    by (auto simp: ph_bare_def)
  then have "ph_registered u (Some (i\<lparr>stop_sender := Some u\<rparr>)) es alive (ch u)"
    by (auto simp: ph_registered_def)
  with i e show ?thesis by (simp add: took_def phase_def drop_sender_def)
qed

lemma take_registered_data:
  assumes "ph_registered u (connections s u) (e # es) alive (ch u)" "is_data e"
  shows "took u alive e es (s, ch) (input_one u t (s, ch) e)"
proof -
  from assms obtain i ds where i: "connections s u = Some i" "stop_sender i \<in> {None, Some u}"
      "alive \<longrightarrow> ch u = (if stop_sender i = None then CSent else COpen)"
      and e: "list_all is_data ds" "e # es = ds @ tail_of alive"
    by (auto simp: ph_registered_def)
  then have "\<exists>ds'. list_all is_data ds' \<and> es = ds' @ tail_of alive"
    using assms(2) by (cases ds) (auto simp: tail_of_def split: if_splits)
  with i have "\<And>j. stop_sender j = stop_sender i \<Longrightarrow> ph_registered u (Some j) es alive (ch u)"
    by (auto simp: ph_registered_def)
  with i assms(2) show ?thesis
    by (cases e) (simp_all add: took_def phase_def add_download_def add_upload_def)
qed

lemma take_registered_close:
  assumes "ph_registered u (connections s u) (e # es) alive (ch u)" "\<not> is_data e"
  shows "took u alive e es (s, ch) (input_one u t (s, ch) e)"
proof -
  from assms obtain i ds where i: "connections s u = Some i" "stop_sender i \<in> {None, Some u}"
      and e: "list_all is_data ds" "e # es = ds @ tail_of alive"
    by (auto simp: ph_registered_def)
  with assms(2) have "e = CloseConnection" "es = []" "\<not> alive"
    by (cases ds; auto simp: tail_of_def split: if_splits)+
  with i show ?thesis
    by (auto simp: took_def phase_def ph_gone_def old_sender_def drop_sender_def)
qed

lemma input_one_took:
  assumes "phase u (connections s u) (e # es) alive (ch u)"
  shows "took u alive e es (s, ch) (input_one u t (s, ch) e)"
proof -
  from assms consider "ph_announced u (connections s u) (e # es) alive (ch u)"
    | "ph_bare u (connections s u) (e # es) alive (ch u)"
    | "ph_registered u (connections s u) (e # es) alive (ch u)"
    by (auto simp: phase_def ph_gone_def)
  then show ?thesis
  proof cases
    case 3
    then show ?thesis by (cases "is_data e") (simp_all add: take_registered_data take_registered_close)
  qed (simp_all add: take_announced take_bare)
qed

lemma input_events_took:
  fixes t :: nat
  assumes "phase u (connections (fst sc) u) (es @ rest) alive (snd sc u)"
  defines "sc' \<equiv> foldl (input_one u t) sc es"
  shows "phase u (connections (fst sc') u) rest alive (snd sc' u) \<and>
    total_download (fst sc') = total_download (fst sc) + ev_sum ev_down es \<and>
    total_upload (fst sc') = total_upload (fst sc) + ev_sum ev_up es \<and>
    (\<forall>v. v \<noteq> u \<longrightarrow> connections (fst sc') v = connections (fst sc) v \<and> snd sc' v = snd sc v)"
  using assms(1) unfolding sc'_def
proof (induction es arbitrary: sc)
  case (Cons e es)
  obtain s ch where sc: "sc = (s, ch)" by fastforce
  obtain s1 ch1 where o: "input_one u t (s, ch) e = (s1, ch1)" by fastforce
  have "took u alive e (es @ rest) (s, ch) (s1, ch1)"
    using input_one_took [of u s e "es @ rest" alive ch t] Cons.prems sc o by simp
  then show ?case
    using Cons.IH [of "(s1, ch1)"] sc o by (auto simp: took_def algebra_simps)
qed simp

section \<open>The invariant of the system\<close>

fun any_uuid :: "any_conn \<Rightarrow> uuid" where
  "any_uuid (TcpConn c) = cn_uuid c"
| "any_uuid (UdpConn c) = cn_uuid c"

fun any_down :: "any_conn \<Rightarrow> u64" where
  "any_down (TcpConn c) = tcp_read (cn_state c)"
| "any_down (UdpConn c) = udp_down (cn_state c)"

fun any_up :: "any_conn \<Rightarrow> u64" where
  "any_up (TcpConn c) = tcp_write (cn_state c)"
| "any_up (UdpConn c) = udp_up (cn_state c)"

lemma any_poll_moves:
  assumes "any_poll hb st now c = (r, c', sent)"
  shows "any_uuid c' = any_uuid c \<and> (\<exists>ds. sent = conn_send (any_uuid c) now ds \<and> list_all is_data ds \<and>
      any_down c = any_down c' + ev_sum ev_down ds \<and> any_up c = any_up c' + ev_sum ev_up ds)"
  using assms
  by (cases c) (auto split: prod.splits dest!: tcp_ct.poll_moves udp_ct.poll_moves)

lemma any_drop_moves:
  "\<exists>ds. any_drop now c =
      conn_send (any_uuid c) now ds @ conn_send (any_uuid c) now [CloseConnection] \<and>
    list_all is_data ds \<and> any_down c = ev_sum ev_down ds \<and> any_up c = ev_sum ev_up ds"
  using tcp_ct.drop_moves udp_ct.drop_moves by (cases c) simp_all

lemma any_poll_result:
  "fst (any_poll hb st now c) =
     (if st = COpen then Inr () else Inl (IoCustom ConnectionAborted ''Aborted by user''))"
  by (cases c) (auto simp: conn_poll_def split: prod.splits)

definition sys_phase :: "sys \<Rightarrow> uuid \<Rightarrow> bool" where
  "sys_phase s u \<longleftrightarrow>
     phase u (connections (mgr s) u) (evs_of u (queue s)) (live s u \<noteq> None) (chans s u)"

definition sys_inv :: "sys \<Rightarrow> bool" where
  "sys_inv s \<longleftrightarrow>
     (\<forall>u. sys_phase s u) \<and> (\<forall>u c. live s u = Some c \<longrightarrow> any_uuid c = u) \<and>
     finite (dom (live s)) \<and>
     (\<forall>u. u \<notin> used s \<longrightarrow> ph_gone (connections (mgr s) u) (evs_of u (queue s)) (live s u \<noteq> None))"

text \<open>Everything counted and not yet in the totals, and the totals.\<close>

definition queued :: "(event_type \<Rightarrow> u64) \<Rightarrow> event list \<Rightarrow> u64" where
  "queued f q = sum_list (map (\<lambda>e. ev_sum f (ev_events e)) q)"

definition pending :: "(any_conn \<Rightarrow> u64) \<Rightarrow> (uuid \<Rightarrow> any_conn option) \<Rightarrow> u64" where
  "pending f lv = (\<Sum>u \<in> dom lv. f (the (lv u)))"

definition balance_down :: "sys \<Rightarrow> u64" where
  "balance_down s =
     total_download (mgr s) + queued ev_down (queue s) + pending any_down (live s)"

definition balance_up :: "sys \<Rightarrow> u64" where
  "balance_up s = total_upload (mgr s) + queued ev_up (queue s) + pending any_up (live s)"

lemma queued_simps [simp]:
  "queued f [] = 0" "queued f (e # q) = ev_sum f (ev_events e) + queued f q"
  "queued f (q @ q') = queued f q + queued f q'"
  "queued f (conn_send u now es) = ev_sum f es"
  by (simp_all add: queued_def conn_send_def)

lemma pending_upd:
  assumes "finite (dom lv)"
  shows "pending f (lv(u \<mapsto> c)) = pending f lv - (case lv u of None \<Rightarrow> 0 | Some c' \<Rightarrow> f c') + f c"
    and "pending f (lv(u := None)) = pending f lv - (case lv u of None \<Rightarrow> 0 | Some c' \<Rightarrow> f c')"
proof -
  let ?D = "dom lv - {u}"
  have D: "finite ?D" using assms by simp
  have r: "(\<Sum>v \<in> ?D. f (the ((lv(u := x)) v))) = (\<Sum>v \<in> ?D. f (the (lv v)))" for x
    by (intro sum.cong) auto
  have "pending f lv = (case lv u of None \<Rightarrow> 0 | Some c' \<Rightarrow> f c') + (\<Sum>v \<in> ?D. f (the (lv v)))"
  proof (cases "lv u")
    case None
    then have "?D = dom lv" by auto
    with None show ?thesis by (simp add: pending_def)
  next
    case (Some a)
    then have "u \<in> dom lv" by blast
    from sum.remove [OF assms this, of "\<lambda>v. f (the (lv v))"] Some show ?thesis
      by (simp add: pending_def)
  qed
  moreover have "pending f (lv(u \<mapsto> c)) = f c + (\<Sum>v \<in> ?D. f (the (lv v)))"
    using D r [of "Some c"] by (simp add: pending_def dom_def [symmetric] insert_Diff_if sum.insert_remove)
  moreover have "pending f (lv(u := None)) = (\<Sum>v \<in> ?D. f (the (lv v)))"
    using r [of None] by (simp add: pending_def)
  ultimately show "pending f (lv(u \<mapsto> c)) = pending f lv - (case lv u of None \<Rightarrow> 0 | Some c' \<Rightarrow> f c') + f c"
    "pending f (lv(u := None)) = pending f lv - (case lv u of None \<Rightarrow> 0 | Some c' \<Rightarrow> f c')"
    by simp_all
qed

lemma sys_inv_live:
  assumes "sys_inv s" "live s u = Some c"
  shows "phase u (connections (mgr s) u) (evs_of u (queue s)) True (chans s u)"
    and "any_uuid c = u" and "u \<in> used s" and "finite (dom (live s))"
proof -
  have "sys_phase s u" using assms(1) by (simp add: sys_inv_def)
  then show "phase u (connections (mgr s) u) (evs_of u (queue s)) True (chans s u)"
    using assms(2) by (simp add: sys_phase_def)
  show "any_uuid c = u" "finite (dom (live s))" using assms by (simp_all add: sys_inv_def)
  show "u \<in> used s" using assms by (auto simp: sys_inv_def ph_gone_def)
qed

text \<open>A step keeps the invariant and changes the balances by \<open>d\<close> and \<open>e\<close>.\<close>

definition good_step :: "sys \<Rightarrow> sys \<Rightarrow> u64 \<Rightarrow> u64 \<Rightarrow> bool" where
  "good_step s s' d e \<longleftrightarrow>
     sys_inv s' \<and> balance_down s' = balance_down s + d \<and> balance_up s' = balance_up s + e"

lemma good_step_refl: "sys_inv s \<Longrightarrow> good_step s s 0 0"
  by (simp add: good_step_def)

text \<open>Replacing the counters of a live connection.\<close>

lemma good_step_count:
  assumes "sys_inv s" "live s u = Some c" "any_uuid c' = u"
    and "any_down c' = any_down c + d" "any_up c' = any_up c + e"
  shows "good_step s (s\<lparr>live := (live s)(u \<mapsto> c')\<rparr>) d e"
proof -
  have "sys_phase (s\<lparr>live := (live s)(u \<mapsto> c')\<rparr>) v = sys_phase s v" for v
    using assms(2) by (simp add: sys_phase_def)
  with assms show ?thesis
    by (auto simp: good_step_def sys_inv_def balance_down_def balance_up_def pending_upd)
qed

lemma good_step_poll:
  assumes "sys_inv s"
  shows "good_step s (snd (poll_conn u hb now s)) 0 0"
proof (cases "live s u")
  case None
  with assms show ?thesis by (simp add: poll_conn_def good_step_refl)
next
  case (Some c)
  obtain r c' sent where p: "any_poll hb (chans s u) now c = (r, c', sent)" by (metis prod_cases3)
  note lv = sys_inv_live [OF assms Some]
  have u: "any_uuid c = u" by (rule lv(2))
  from any_poll_moves [OF p] u obtain ds where m: "any_uuid c' = u" "sent = conn_send u now ds"
    "list_all is_data ds" "any_down c = any_down c' + ev_sum ev_down ds"
    "any_up c = any_up c' + ev_sum ev_up ds" by auto
  let ?s = "s\<lparr>live := (live s)(u \<mapsto> c'), queue := queue s @ sent\<rparr>"
  have "sys_phase ?s v" for v
  proof (cases "v = u")
    case True
    then show ?thesis using phase_append_data [OF lv(1) m(3)] by (simp add: sys_phase_def m(2))
  next
    case False
    then show ?thesis using assms by (simp add: sys_inv_def sys_phase_def m(2))
  qed
  then have "sys_inv ?s"
    using assms lv m(1,2) by (auto simp: sys_inv_def)
  moreover note lv(4)
  ultimately show ?thesis
    using Some p m by (simp add: poll_conn_def good_step_def balance_down_def balance_up_def pending_upd)
qed

lemma good_step_drop:
  assumes "sys_inv s"
  shows "good_step s (drop_conn u now s) 0 0"
proof (cases "live s u")
  case None
  with assms show ?thesis by (simp add: drop_conn_def good_step_refl)
next
  case (Some c)
  note lv = sys_inv_live [OF assms Some]
  have u: "any_uuid c = u" by (rule lv(2))
  obtain ds where m: "any_drop now c = conn_send u now ds @ conn_send u now [CloseConnection]"
    "list_all is_data ds" "any_down c = ev_sum ev_down ds" "any_up c = ev_sum ev_up ds"
    using any_drop_moves [of now c] u by auto
  let ?s = "s\<lparr>live := (live s)(u := None), queue := queue s @ any_drop now c,
      chans := (chans s)(u := CRxDropped)\<rparr>"
  have "sys_phase ?s v" for v
  proof (cases "v = u")
    case True
    have "phase u (connections (mgr s) u) (evs_of u (queue s) @ ds) True (chans s u)"
      by (rule phase_append_data [OF lv(1) m(2)])
    from phase_close [OF this] show ?thesis by (simp add: True sys_phase_def m(1))
  next
    case False
    then show ?thesis using assms by (simp add: sys_inv_def sys_phase_def m(1))
  qed
  moreover note lv(3,4)
  ultimately show ?thesis
    using assms Some m
    by (auto simp: drop_conn_def good_step_def sys_inv_def balance_down_def balance_up_def pending_upd)
qed

lemma good_step_open:
  assumes "sys_inv s"
    and n: "\<And>v c sent. conn_new dflt evt addr v u now = (c, sent) \<Longrightarrow>
      any_uuid (wrap c) = u \<and> any_down (wrap c) = 0 \<and> any_up (wrap c) = 0 \<and>
      (\<exists>e. is_new e \<and> sent = conn_send u now [e, SetStopper u])"
  shows "good_step s (open_conn wrap dflt evt u addr ctx now s) 0 0"
proof (cases "u \<in> used s \<or> ctx_to_value ctx = Panic")
  case True
  then show ?thesis using good_step_refl [OF assms(1)] by (auto simp: open_conn_def)
next
  case False
  then obtain v where v: "u \<notin> used s" "ctx_to_value ctx = Ret v" by (cases "ctx_to_value ctx") auto
  obtain c sent where cn: "conn_new dflt evt addr v u now = (c, sent)" by fastforce
  from n [OF this] obtain e where e: "is_new e" "sent = conn_send u now [e, SetStopper u]"
    and c: "any_uuid (wrap c) = u" "any_down (wrap c) = 0" "any_up (wrap c) = 0" by blast
  have gone: "connections (mgr s) u = None" "evs_of u (queue s) = []" "live s u = None"
    using assms(1) v(1) by (auto simp: sys_inv_def ph_gone_def)
  have fin: "finite (dom (live s))" using assms(1) by (simp add: sys_inv_def)
  let ?s = "s\<lparr>live := (live s)(u \<mapsto> wrap c), queue := queue s @ sent, chans := (chans s)(u := COpen),
      used := insert u (used s)\<rparr>"
  have "sys_phase ?s w" for w
    using assms(1) phase_new [OF e(1), of u] gone
    by (cases "w = u") (simp_all add: sys_inv_def sys_phase_def e(2))
  then have "sys_inv ?s" using assms(1) c by (auto simp: sys_inv_def e(2))
  moreover have "ev_down e = 0" "ev_up e = 0" using e(1) by (cases e; simp)+
  ultimately show ?thesis
    using v cn gone c fin
    by (simp add: open_conn_def good_step_def balance_down_def balance_up_def pending_upd e(2))
qed

lemma good_step_deliver:
  assumes "sys_inv s"
  shows "good_step s (recv_event s) 0 0"
proof (cases "queue s")
  case Nil
  with assms show ?thesis by (simp add: recv_event_def good_step_refl)
next
  case (Cons ev q)
  obtain m ch where o: "input_event ev (mgr s, chans s) = (m, ch)" by fastforce
  let ?u = "ev_uuid ev" and ?s = "s\<lparr>mgr := m, chans := ch, queue := q\<rparr>"
  have "sys_phase s ?u" using assms by (simp add: sys_inv_def)
  then have t: "phase ?u (connections m ?u) (evs_of ?u q) (live s ?u \<noteq> None) (ch ?u)"
      "total_download m = total_download (mgr s) + ev_sum ev_down (ev_events ev)"
      "total_upload m = total_upload (mgr s) + ev_sum ev_up (ev_events ev)"
      "\<And>v. v \<noteq> ?u \<Longrightarrow> connections m v = connections (mgr s) v \<and> ch v = chans s v"
    using input_events_took [of ?u "(mgr s, chans s)" "ev_events ev" "evs_of ?u q"
        "live s ?u \<noteq> None" "ev_time ev"] o Cons
    by (simp_all add: sys_phase_def input_event_def)
  have "sys_phase ?s v" for v
  proof -
    have "sys_phase s v" using assms by (simp add: sys_inv_def)
    with t(1) t(4) [of v] Cons show ?thesis by (cases "v = ?u") (simp_all add: sys_phase_def)
  qed
  moreover have "ph_gone (connections m v) (evs_of v q) (live s v \<noteq> None)" if "v \<notin> used s" for v
  proof -
    have g: "ph_gone (connections (mgr s) v) (evs_of v (queue s)) (live s v \<noteq> None)"
      using assms that by (simp add: sys_inv_def)
    show ?thesis
    proof (cases "v = ?u")
      case True
      with g Cons have "ev_events ev = []" by (simp add: ph_gone_def)
      with o have "m = mgr s" by (simp add: input_event_def)
      with True g Cons show ?thesis by (simp add: ph_gone_def)
    next
      case False
      with g Cons t(4) show ?thesis by (simp add: ph_gone_def)
    qed
  qed
  ultimately have "sys_inv ?s" using assms by (auto simp: sys_inv_def)
  then show ?thesis
    using t(2,3) o Cons
    by (simp add: recv_event_def good_step_def balance_down_def balance_up_def algebra_simps)
qed

lemma good_step_stop:
  assumes "sys_inv s" "stop_connection u (mgr s, chans s) = (ok, m, ch)"
  shows "good_step s (s\<lparr>mgr := m, chans := ch\<rparr>) 0 0"
proof (cases "\<exists>i c. connections (mgr s) u = Some i \<and> stop_sender i = Some c")
  case False
  then have "m = mgr s" "ch = chans s"
    using assms(2) by (auto simp: stop_connection_def split: option.splits)
  then show ?thesis using good_step_refl [OF assms(1)] by simp
next
  case True
  then obtain i c where i: "connections (mgr s) u = Some i" "stop_sender i = Some c" by blast
  have "sys_phase s u" using assms(1) by (simp add: sys_inv_def)
  then have r: "ph_registered u (connections (mgr s) u) (evs_of u (queue s)) (live s u \<noteq> None) (chans s u)"
    using i by (auto simp: sys_phase_def phase_def phase_defs)
  with i have cu: "c = u" by (auto simp: ph_registered_def)
  have m: "m = (mgr s)\<lparr>connections := (connections (mgr s))(u \<mapsto> i\<lparr>stop_sender := None\<rparr>)\<rparr>"
    and ch: "ch = snd (send_stop u (chans s))"
    using assms(2) i cu by (auto simp: stop_connection_def split: prod.splits)
  have "ph_registered u (connections m u) (evs_of u (queue s)) (live s u \<noteq> None) (ch u)"
    using r i by (auto simp: ph_registered_def m ch send_stop_def)
  then have "sys_phase (s\<lparr>mgr := m, chans := ch\<rparr>) v" for v
    using assms(1)
    by (cases "v = u") (auto simp: sys_inv_def sys_phase_def phase_def m ch send_stop_def)
  moreover have "u \<in> used s" using assms(1) i by (auto simp: sys_inv_def ph_gone_def)
  ultimately have "sys_inv (s\<lparr>mgr := m, chans := ch\<rparr>)"
    using assms(1) by (auto simp: sys_inv_def m)
  then show ?thesis by (simp add: good_step_def balance_down_def balance_up_def m)
qed

lemma good_step_trans:
  "good_step s s' a b \<Longrightarrow> good_step s' s'' c d \<Longrightarrow> good_step s s'' (a + c) (b + d)"
  by (simp add: good_step_def algebra_simps)

lemma good_step_stop_all:
  assumes "sys_inv s" "stop_connections us (mgr s, chans s) = (n, m, ch)"
  shows "good_step s (s\<lparr>mgr := m, chans := ch\<rparr>) 0 0"
  using assms
proof (induction us arbitrary: s n)
  case Nil
  then show ?case using good_step_refl [OF Nil.prems(1)] by auto
next
  case (Cons u us)
  obtain ok m1 ch1 where o: "stop_connection u (mgr s, chans s) = (ok, m1, ch1)" by (metis prod_cases3)
  let ?s = "s\<lparr>mgr := m1, chans := ch1\<rparr>"
  have g: "good_step s ?s 0 0" by (rule good_step_stop [OF Cons.prems(1) o])
  obtain k where "stop_connections us (mgr ?s, chans ?s) = (k, m, ch)"
    using Cons.prems(2) o by (auto split: prod.splits)
  with Cons.IH [of ?s k] g have "good_step ?s (s\<lparr>mgr := m, chans := ch\<rparr>) 0 0"
    by (simp add: good_step_def)
  from good_step_trans [OF g this] show ?case by simp
qed

text \<open>The bytes an action reports, when it reaches a live connection of its kind.\<close>

fun tcp_alive :: "sys \<Rightarrow> uuid \<Rightarrow> bool" where
  "tcp_alive s u = (case live s u of Some (TcpConn _) \<Rightarrow> True | _ \<Rightarrow> False)"

fun udp_alive :: "sys \<Rightarrow> uuid \<Rightarrow> bool" where
  "udp_alive s u = (case live s u of Some (UdpConn _) \<Rightarrow> True | _ \<Rightarrow> False)"

fun act_down :: "sys \<Rightarrow> action \<Rightarrow> u64" where
  "act_down s (ARead u n) = (if tcp_alive s u then n else 0)"
| "act_down s (ARecvFrom u a n) = (if udp_alive s u then n else 0)"
| "act_down s _ = 0"

fun act_up :: "sys \<Rightarrow> action \<Rightarrow> u64" where
  "act_up s (AWrite u n) = (if tcp_alive s u then n else 0)"
| "act_up s (ASendTo u a n) = (if udp_alive s u then n else 0)"
| "act_up s _ = 0"

lemma good_step_map_tcp:
  assumes "sys_inv s" "\<And>t. tcp_read (f t) = tcp_read t + d" "\<And>t. tcp_write (f t) = tcp_write t + e"
  shows "good_step s (map_tcp u f s) (if tcp_alive s u then d else 0) (if tcp_alive s u then e else 0)"
proof (cases "tcp_alive s u")
  case True
  then obtain c where c: "live s u = Some (TcpConn c)" by (auto split: option.splits any_conn.splits)
  with good_step_count [OF assms(1) c, of "TcpConn (c\<lparr>cn_state := f (cn_state c)\<rparr>)" d e]
  show ?thesis using sys_inv_live(2) [OF assms(1) c] assms(2,3) by (simp add: map_tcp_def)
next
  case False
  then show ?thesis
    using good_step_refl [OF assms(1)] by (auto simp: map_tcp_def split: option.splits any_conn.splits)
qed

lemma good_step_map_udp:
  assumes "sys_inv s" "\<And>t. udp_down (f t) = udp_down t + d" "\<And>t. udp_up (f t) = udp_up t + e"
  shows "good_step s (map_udp u f s) (if udp_alive s u then d else 0) (if udp_alive s u then e else 0)"
proof (cases "udp_alive s u")
  case True
  then obtain c where c: "live s u = Some (UdpConn c)" by (auto split: option.splits any_conn.splits)
  with good_step_count [OF assms(1) c, of "UdpConn (c\<lparr>cn_state := f (cn_state c)\<rparr>)" d e]
  show ?thesis using sys_inv_live(2) [OF assms(1) c] assms(2,3) by (simp add: map_udp_def)
next
  case False
  then show ?thesis
    using good_step_refl [OF assms(1)] by (auto simp: map_udp_def split: option.splits any_conn.splits)
qed

lemma good_step_action:
  assumes "sys_inv s"
  shows "good_step s (sys_step s a) (act_down s a) (act_up s a)"
proof (cases a)
  case (AOpenTcp u addr ctx now)
  then show ?thesis
    using assms by (auto intro!: good_step_open dest!: tcp_ct.new_events simp: conn_send_def)
next
  case (AOpenUdp u addr ctx now)
  then show ?thesis
    using assms by (auto intro!: good_step_open dest!: udp_ct.new_events simp: conn_send_def)
next
  case (ARead u n)
  then show ?thesis
    using good_step_map_tcp [OF assms, of "tcp_do_read n" n 0 u] by (simp add: tcp_do_read_def)
next
  case (AWrite u n)
  then show ?thesis
    using good_step_map_tcp [OF assms, of "tcp_do_write n" 0 n u] by (simp add: tcp_do_write_def)
next
  case (ARecvFrom u b n)
  then show ?thesis
    using good_step_map_udp [OF assms, of "udp_do_recv_from b n" n 0 u]
    by (simp add: udp_do_recv_from_def udp_down_def udp_up_def entry_add_sum)
next
  case (ASendTo u b n)
  then show ?thesis
    using good_step_map_udp [OF assms, of "udp_do_send_to b n" 0 n u]
    by (simp add: udp_do_send_to_def udp_down_def udp_up_def entry_add_sum)
next
  case (APoll u hb now)
  then show ?thesis using good_step_poll [OF assms] by simp
next
  case (ADrop u now)
  then show ?thesis using good_step_drop [OF assms] by simp
next
  case ADeliver
  then show ?thesis using good_step_deliver [OF assms] by simp
next
  case (AStop u)
  obtain ok m ch where "stop_connection u (mgr s, chans s) = (ok, m, ch)" by (metis prod_cases3)
  with AStop good_step_stop [OF assms this] show ?thesis by simp
next
  case (AStopAll us)
  obtain n m ch where "stop_connections us (mgr s, chans s) = (n, m, ch)" by (metis prod_cases3)
  with AStopAll good_step_stop_all [OF assms this] show ?thesis by simp
qed

lemma sys_inv_init [simp]: "sys_inv sys_init"
  by (simp add: sys_inv_def sys_init_def sys_phase_def phase_def ph_gone_def cs_new_def)

lemma sys_inv_run: "sys_inv s \<Longrightarrow> sys_inv (foldl sys_step s acts)"
  by (induction acts arbitrary: s) (simp_all add: good_step_action [unfolded good_step_def])

text \<open>What a run has counted.\<close>

fun run_down :: "sys \<Rightarrow> action list \<Rightarrow> u64" where
  "run_down s [] = 0"
| "run_down s (a # acts) = act_down s a + run_down (sys_step s a) acts"

fun run_up :: "sys \<Rightarrow> action list \<Rightarrow> u64" where
  "run_up s [] = 0"
| "run_up s (a # acts) = act_up s a + run_up (sys_step s a) acts"

lemma balance_run:
  "sys_inv s \<Longrightarrow>
   balance_down (foldl sys_step s acts) = balance_down s + run_down s acts \<and>
   balance_up (foldl sys_step s acts) = balance_up s + run_up s acts"
proof (induction acts arbitrary: s)
  case (Cons a acts)
  from good_step_action [OF Cons.prems, of a] Cons.IH [of "sys_step s a"]
  show ?case by (simp add: good_step_def algebra_simps)
qed simp

text \<open>With nothing on the channel a connection has an entry exactly while it lives.\<close>

lemma phase_drained:
  assumes "phase u info [] alive ch"
  shows "info \<noteq> None \<longleftrightarrow> alive"
    and "alive \<Longrightarrow> \<exists>i. info = Some i \<and> ch = (if stop_sender i = None then CSent else COpen) \<and>
      stop_sender i \<in> {None, Some u}"
  using assms
  by (cases alive; auto simp: phase_def phase_defs tail_of_def)+

lemma phase_chan: "phase u info es True ch \<Longrightarrow> ch = COpen \<or> ch = CSent"
  by (auto simp: phase_def phase_defs split: if_splits)

fun no_stop :: "action \<Rightarrow> bool" where
  "no_stop (AStop _) = False"
| "no_stop (AStopAll _) = False"
| "no_stop _ = True"

lemma input_one_not_sent: "snd sc u \<noteq> CSent \<Longrightarrow> snd (input_one v t sc e) u \<noteq> CSent"
  by (cases sc; cases e) (auto simp: drop_sender_def split: option.splits)

lemma input_events_not_sent: "snd sc u \<noteq> CSent \<Longrightarrow> snd (foldl (input_one v t) sc es) u \<noteq> CSent"
  by (induction es arbitrary: sc) (simp_all add: input_one_not_sent)

lemma step_not_sent:
  assumes "no_stop a" "\<forall>u. chans s u \<noteq> CSent"
  shows "chans (sys_step s a) u \<noteq> CSent"
proof (cases a)
  case ADeliver
  show ?thesis
  proof (cases "queue s")
    case (Cons ev q)
    obtain m ch where o: "input_event ev (mgr s, chans s) = (m, ch)" by fastforce
    then have "ch u \<noteq> CSent"
      using input_events_not_sent [of "(mgr s, chans s)" u "ev_uuid ev" "ev_time ev" "ev_events ev"] assms(2)
      by (simp add: input_event_def)
    with ADeliver Cons o show ?thesis by (simp add: recv_event_def)
  qed (use ADeliver assms in \<open>simp add: recv_event_def\<close>)
qed (use assms in \<open>auto simp: open_conn_def map_tcp_def map_udp_def poll_conn_def drop_conn_def
      split: outcome.splits prod.splits option.splits any_conn.splits\<close>)

lemma run_not_sent:
  assumes "list_all no_stop acts" "\<forall>u. chans s u \<noteq> CSent"
  shows "chans (foldl sys_step s acts) u \<noteq> CSent"
  using assms
proof (induction acts arbitrary: s)
  case (Cons a acts)
  then show ?case using step_not_sent [of a s] by simp
qed simp

section \<open>Properties\<close>

text \<open>C2: no traffic is lost or counted twice: after any run of opens, reads, writes, datagrams,
  heartbeats, drops, deliveries and stop requests in any order, the totals of the manager plus
  what is on the channel plus what live connections hold is, modulo 2 to the 64, what was
  reported to the connections, for downloads and uploads.\<close>

theorem traffic_conserved:
  "let s = foldl sys_step sys_init acts
   in total_download (mgr s) + queued ev_down (queue s) + pending any_down (live s) =
        run_down sys_init acts \<and>
      total_upload (mgr s) + queued ev_up (queue s) + pending any_up (live s) =
        run_up sys_init acts"
proof -
  have "balance_down sys_init = 0" "balance_up sys_init = 0"
    by (simp_all add: balance_down_def balance_up_def sys_init_def cs_new_def pending_def)
  with balance_run [OF sys_inv_init, of acts] show ?thesis
    by (simp add: balance_down_def balance_up_def Let_def)
qed

text \<open>C23: once the channel is drained the manager lists exactly the connections that are alive:
  every dropped connection is gone and none is missing.\<close>

theorem entries_are_live_connections:
  assumes "queue (foldl sys_step sys_init acts) = []"
  shows "dom (connections (mgr (foldl sys_step sys_init acts))) = dom (live (foldl sys_step sys_init acts))"
proof -
  let ?s = "foldl sys_step sys_init acts"
  have "sys_phase ?s u" for u using sys_inv_run [OF sys_inv_init, of acts] by (simp add: sys_inv_def)
  then have "connections (mgr ?s) u \<noteq> None \<longleftrightarrow> live ?s u \<noteq> None" for u
    using assms phase_drained(1) by (metis evs_of_simps(1) sys_phase_def)
  then show ?thesis by (auto simp: dom_def)
qed


text \<open>Without a stop request no connection is ever aborted: its stop channel is never found
  closed, in whatever order connections, deliveries and drops happen.\<close>

theorem no_spurious_abort:
  assumes "list_all no_stop acts"
  shows "fst (poll_conn u hb now (foldl sys_step sys_init acts)) \<in> {None, Some (Inr ())}"
proof (cases "live (foldl sys_step sys_init acts) u")
  case None
  then show ?thesis by (simp add: poll_conn_def)
next
  case (Some c)
  let ?s = "foldl sys_step sys_init acts"
  have "chans ?s u \<noteq> CSent" by (rule run_not_sent [OF assms]) (simp add: sys_init_def)
  moreover have "chans ?s u = COpen \<or> chans ?s u = CSent"
    using phase_chan sys_inv_live(1) [OF sys_inv_run [OF sys_inv_init] Some] by blast
  ultimately have "chans ?s u = COpen" by blast
  with Some any_poll_result [of hb COpen now c] show ?thesis
    by (auto simp: poll_conn_def split: prod.splits)
qed

text \<open>A small run: one TCP connection is opened, counts, reports at a heartbeat, and all its
  events are delivered.\<close>

definition demo_acts :: "action list" where
  "demo_acts = [AOpenTcp 1 (Domain ''a'' 80) context_new 0, ARead 1 5, AWrite 1 7, APoll 1 True 1,
                ADeliver, ADeliver]"

lemma demo_to_value: "ctx_to_value context_new = Ret (JObject [''net_list'' \<mapsto> JArray []])"
  by (simp add: ctx_to_value_def context_new_def cvs_serialize_strings cvs.inv_new cvs.abs_new)

lemmas demo_simps =
  demo_acts_def demo_to_value sys_init_def cs_new_def open_conn_def conn_new_def conn_send_def
  tcp_default_def tcp_event_type_def map_tcp_def tcp_do_read_def tcp_do_write_def poll_conn_def
  conn_poll_def tcp_get_events_def recv_event_def input_event_def old_sender_def drop_sender_def
  new_info_def add_download_def add_upload_def

lemma entries_are_live_witness:
  "dom (connections (mgr (foldl sys_step sys_init demo_acts))) = {1}"
proof -
  have "queue (foldl sys_step sys_init demo_acts) = []" by (simp add: demo_simps)
  from entries_are_live_connections [OF this]
  show ?thesis by (simp add: demo_simps)
qed


lemma no_spurious_abort_witness:
  "fst (poll_conn 1 True 2 (foldl sys_step sys_init demo_acts)) \<in> {None, Some (Inr ())}"
  by (rule no_spurious_abort) (simp add: demo_acts_def)

end
