(* ===== verification/RD_Net.thy ===== *)
theory RD_Net
  imports RD_ConnMgr
begin

text \<open>
  Nets and how they are composed, after \<^verbatim>\<open>rd-interface/src/interface.rs\<close>, the built-in nets of
  \<^verbatim>\<open>rd-std\<close> (\<open>alias\<close>, \<open>combine\<close>, \<open>blackhole\<close>, \<open>noop\<close>, \<^verbatim>\<open>util/net.rs\<close>) and the two wrappers
  \<open>RunningNet\<close> and \<open>RunningServerNet\<close> of \<^verbatim>\<open>src/rabbit_digger/running.rs\<close>.

  A \<open>RunningNet\<close> is shared and its inner net can be replaced, so it is a cell of a heap and
  a net refers to it by its address. Any other net is \<open>Ext p ns\<close>: what it provides and does
  is a parameter (\<open>ext_ops\<close>); what it does is a tree of calls to its inner nets \<open>ns\<close>. A world
  is the connection manager with its clock and source of uuids, and a part \<open>'x\<close> of the
  outside that only \<open>Ext\<close> nets touch.

  A call has fuel, \<open>None\<close> means that it did not return within it. On a heap whose cells refer
  to older cells only, which is what building a configuration gives, every call returns; an
  update that closes a cycle makes calls that return for no amount of fuel.
\<close>

section \<open>Operations and results\<close>

datatype net_op = TcpConnect | TcpBind | UdpBind | LookupHost

text \<open>What an operation returns: a stream, listener, socket or list of addresses of some net,
  the one object of the black hole, or one of these in a counting wrapper.\<close>

datatype 'h item =
    Inner 'h
  | BlackItem
  | WrapTcpStream "'h item" uuid
  | WrapUdpSocket "'h item" uuid

record 'x world =
  conns :: sys
  next_uuid :: uuid
  clock :: nat
  outer :: 'x

type_synonym ('h, 'x) call_result = "(error + 'h item) \<times> conn_context \<times> 'x world"

text \<open>The behaviour of a net that is not a built-in wrapper: return, or call an operation of the
  inner net with the given index and continue with its result.\<close>

datatype ('h, 'x) prog =
    Done "error + 'h item" conn_context 'x
  | Call nat net_op address conn_context 'x
      "(error + 'h item) \<times> conn_context \<times> 'x \<Rightarrow> ('h, 'x) prog"

record ('p, 'h, 'x) ext_ops =
  ext_provides :: "'p \<Rightarrow> net_op \<Rightarrow> bool"
  ext_prog :: "'p \<Rightarrow> net_op \<Rightarrow> address \<Rightarrow> conn_context \<Rightarrow> 'x \<Rightarrow> ('h, 'x) prog"
  addr_ser :: "socket_addr \<Rightarrow> string + json"
  addr_de :: "json \<Rightarrow> string + socket_addr"

section \<open>Nets\<close>

type_synonym rid = nat

datatype 'p net =
    Ext 'p "'p net list"
  | NotImplementedNet
  | BlackholeNet
  | AliasNet "'p net"
  | CombineNet "'p net" "'p net" "'p net" "'p net"
  | RunningNetRef rid
  | RunningServerNet string "'p net"

record 'p running_net =
  rn_name :: string
  rn_net :: "'p net"

type_synonym 'p net_heap = "rid \<Rightarrow> 'p running_net option"

definition update_running_net :: "rid \<Rightarrow> 'p net \<Rightarrow> 'p net_heap \<Rightarrow> 'p net_heap" where
  "update_running_net i n H =
     (case H i of None \<Rightarrow> H | Some rn \<Rightarrow> H(i \<mapsto> rn\<lparr>rn_net := n\<rparr>))"

text \<open>The four nets of a \<open>CombineNet\<close>, by operation, and what \<open>BlackholeNet\<close> provides.\<close>

fun combine_select :: "net_op \<Rightarrow> 'n \<Rightarrow> 'n \<Rightarrow> 'n \<Rightarrow> 'n \<Rightarrow> 'n" where
  "combine_select TcpConnect tcp_connect tcp_bind udp_bind lookup_host = tcp_connect"
| "combine_select TcpBind tcp_connect tcp_bind udp_bind lookup_host = tcp_bind"
| "combine_select UdpBind tcp_connect tcp_bind udp_bind lookup_host = udp_bind"
| "combine_select LookupHost tcp_connect tcp_bind udp_bind lookup_host = lookup_host"

fun blackhole_provides :: "net_op \<Rightarrow> bool" where
  "blackhole_provides TcpConnect = True"
| "blackhole_provides TcpBind = True"
| "blackhole_provides UdpBind = True"
| "blackhole_provides LookupHost = False"

text \<open>The \<open>provide_*\<close> methods: the net whose implementation of the operation is used.\<close>

fun provide :: "('p \<Rightarrow> net_op \<Rightarrow> bool) \<Rightarrow> net_op \<Rightarrow> 'p net \<Rightarrow> 'p net option" where
  "provide ep op (Ext p ns) = (if ep p op then Some (Ext p ns) else None)"
| "provide ep op NotImplementedNet = None"
| "provide ep op BlackholeNet = (if blackhole_provides op then Some BlackholeNet else None)"
| "provide ep op (AliasNet n) = provide ep op n"
| "provide ep op (CombineNet tc tb ub lh) =
     combine_select op (provide ep op tc) (provide ep op tb) (provide ep op ub) (provide ep op lh)"
| "provide ep op (RunningNetRef i) = Some (RunningNetRef i)"
| "provide ep op (RunningServerNet s n) =
     (if op = LookupHost then provide ep op n else Some (RunningServerNet s n))"

fun get_inner :: "'p net_heap \<Rightarrow> 'p net \<Rightarrow> 'p net option" where
  "get_inner H (RunningNetRef i) = map_option rn_net (H i)"
| "get_inner H (RunningServerNet s n) = Some n"
| "get_inner H _ = None"

text \<open>\<open>Net::get_inner_net_by\<close>: the loop over \<open>get_inner\<close>; \<open>is_t\<close> is the downcast. The outer
  option is the fuel.\<close>

fun get_inner_net_by :: "nat \<Rightarrow> ('p net \<Rightarrow> bool) \<Rightarrow> 'p net_heap \<Rightarrow> 'p net \<Rightarrow> 'p net option option" where
  "get_inner_net_by 0 is_t H n = None"
| "get_inner_net_by (Suc k) is_t H n =
     (if is_t n then Some (Some n)
      else (case get_inner H n of None \<Rightarrow> Some None | Some m \<Rightarrow> get_inner_net_by k is_t H m))"

section \<open>Calls\<close>

definition wrap_tcp :: "address \<Rightarrow> ('h, 'x) call_result \<Rightarrow> ('h, 'x) call_result" where
  "wrap_tcp a res =
     (case res of
        (Inl e, ctx, w) \<Rightarrow> (Inl e, ctx, w)
      | (Inr h, ctx, w) \<Rightarrow>
          (Inr (WrapTcpStream h (next_uuid w)), ctx,
           w\<lparr>conns := sys_step (conns w) (AOpenTcp (next_uuid w) a ctx (clock w)),
             next_uuid := next_uuid w + 1\<rparr>))"

definition wrap_udp :: "address \<Rightarrow> ('h, 'x) call_result \<Rightarrow> ('h, 'x) call_result" where
  "wrap_udp a res =
     (case res of
        (Inl e, ctx, w) \<Rightarrow> (Inl e, ctx, w)
      | (Inr h, ctx, w) \<Rightarrow>
          (Inr (WrapUdpSocket h (next_uuid w)), ctx,
           w\<lparr>conns := sys_step (conns w) (AOpenUdp (next_uuid w) a ctx (clock w)),
             next_uuid := next_uuid w + 1\<rparr>))"

text \<open>The context entries \<open>RunningServerNet::tcp_connect\<close> prepares.\<close>

definition insert_dest ::
  "('p, 'h, 'x) ext_ops \<Rightarrow> address \<Rightarrow> conn_context \<Rightarrow> (context_error + unit) \<times> conn_context" where
  "insert_dest E a ctx =
     (case a of
        Domain d p \<Rightarrow> insert_common dest_domain_field \<lparr>ad_domain = d, ad_port = p\<rparr> ctx
      | SocketAddr s \<Rightarrow> insert_common (dest_socket_addr_field (addr_ser E) (addr_de E)) s ctx)"

primrec run_prog ::
  "(nat \<Rightarrow> net_op \<Rightarrow> address \<Rightarrow> conn_context \<Rightarrow> 'x world \<Rightarrow> ('h, 'x) call_result option) \<Rightarrow>
   ('h, 'x) prog \<Rightarrow> 'x world \<Rightarrow> ('h, 'x) call_result option" where
  "run_prog cb (Done r ctx x) w = Some (r, ctx, w\<lparr>outer := x\<rparr>)"
| "run_prog cb (Call i op a ctx x k) w =
     (case cb i op a ctx (w\<lparr>outer := x\<rparr>) of
        None \<Rightarrow> None
      | Some (r, ctx', w') \<Rightarrow> run_prog cb (k (r, ctx', outer w')) w')"

text \<open>The operations of the wrappers, with \<open>call\<close> for those of the inner net.\<close>

definition blackhole_call ::
  "net_op \<Rightarrow> address \<Rightarrow> conn_context \<Rightarrow> 'x world \<Rightarrow> ('h, 'x) call_result option" where
  "blackhole_call op a ctx w = Some (Inr BlackItem, ctx, w)"

definition running_net_call ::
  "('p net \<Rightarrow> net_op \<Rightarrow> address \<Rightarrow> conn_context \<Rightarrow> 'x world \<Rightarrow> ('h, 'x) call_result option) \<Rightarrow>
   'p running_net \<Rightarrow> net_op \<Rightarrow> address \<Rightarrow> conn_context \<Rightarrow> 'x world \<Rightarrow> ('h, 'x) call_result option" where
  "running_net_call call rn op a ctx w =
     call (rn_net rn) op a (if op = LookupHost then ctx else append_net (rn_name rn) ctx) w"

definition server_tcp_connect ::
  "('p net \<Rightarrow> net_op \<Rightarrow> address \<Rightarrow> conn_context \<Rightarrow> 'x world \<Rightarrow> ('h, 'x) call_result option) \<Rightarrow>
   ('p, 'h, 'x) ext_ops \<Rightarrow> string \<Rightarrow> 'p net \<Rightarrow> address \<Rightarrow> conn_context \<Rightarrow> 'x world \<Rightarrow>
   ('h, 'x) call_result option" where
  "server_tcp_connect call E server_name n a ctx w =
     (case insert_dest E a (append_net server_name ctx) of
        (Inl e, ctx') \<Rightarrow> Some (Inl (ContextError e), ctx', w)
      | (Inr _, ctx') \<Rightarrow> map_option (wrap_tcp a) (call n TcpConnect a ctx' w))"

definition server_tcp_bind ::
  "('p net \<Rightarrow> net_op \<Rightarrow> address \<Rightarrow> conn_context \<Rightarrow> 'x world \<Rightarrow> ('h, 'x) call_result option) \<Rightarrow>
   string \<Rightarrow> 'p net \<Rightarrow> address \<Rightarrow> conn_context \<Rightarrow> 'x world \<Rightarrow> ('h, 'x) call_result option" where
  "server_tcp_bind call server_name n a ctx w = call n TcpBind a (append_net server_name ctx) w"

definition server_udp_bind ::
  "('p net \<Rightarrow> net_op \<Rightarrow> address \<Rightarrow> conn_context \<Rightarrow> 'x world \<Rightarrow> ('h, 'x) call_result option) \<Rightarrow>
   string \<Rightarrow> 'p net \<Rightarrow> address \<Rightarrow> conn_context \<Rightarrow> 'x world \<Rightarrow> ('h, 'x) call_result option" where
  "server_udp_bind call server_name n a ctx w =
     map_option (wrap_udp a) (call n UdpBind a (append_net server_name ctx) w)"

lemmas wrapper_calls =
  blackhole_call_def running_net_call_def server_tcp_connect_def server_tcp_bind_def
  server_udp_bind_def

text \<open>One implementation of an operation. A dangling reference or an index out of range never
  returns; the last two cases are not reached, because \<open>provide\<close> passes them on.\<close>

fun impl_call ::
  "('p net \<Rightarrow> net_op \<Rightarrow> address \<Rightarrow> conn_context \<Rightarrow> 'x world \<Rightarrow> ('h, 'x) call_result option) \<Rightarrow>
   ('p, 'h, 'x) ext_ops \<Rightarrow> 'p net_heap \<Rightarrow> 'p net \<Rightarrow>
   net_op \<Rightarrow> address \<Rightarrow> conn_context \<Rightarrow> 'x world \<Rightarrow> ('h, 'x) call_result option" where
  "impl_call call E H (Ext p ns) op a ctx w =
     run_prog (\<lambda>i. if i < length ns then call (ns ! i) else (\<lambda>_ _ _ _. None))
       (ext_prog E p op a ctx (outer w)) w"
| "impl_call call E H BlackholeNet op a ctx w = blackhole_call op a ctx w"
| "impl_call call E H (RunningNetRef i) op a ctx w =
     (case H i of None \<Rightarrow> None | Some rn \<Rightarrow> running_net_call call rn op a ctx w)"
| "impl_call call E H (RunningServerNet s n) op a ctx w =
     (case op of
        TcpConnect \<Rightarrow> server_tcp_connect call E s n a ctx w
      | TcpBind \<Rightarrow> server_tcp_bind call s n a ctx w
      | UdpBind \<Rightarrow> server_udp_bind call s n a ctx w
      | LookupHost \<Rightarrow> call n op a ctx w)"
| "impl_call call E H n op a ctx w = call n op a ctx w"

text \<open>\<open>Net::tcp_connect\<close>, \<open>tcp_bind\<close>, \<open>udp_bind\<close> and \<open>lookup_host\<close>.\<close>

fun net_call ::
  "nat \<Rightarrow> ('p, 'h, 'x) ext_ops \<Rightarrow> 'p net_heap \<Rightarrow> 'p net \<Rightarrow>
   net_op \<Rightarrow> address \<Rightarrow> conn_context \<Rightarrow> 'x world \<Rightarrow> ('h, 'x) call_result option" where
  "net_call 0 E H n op a ctx w = None"
| "net_call (Suc k) E H n op a ctx w =
     (case provide (ext_provides E) op n of
        None \<Rightarrow> Some (Inl NotImplemented, ctx, w)
      | Some m \<Rightarrow> impl_call (net_call k E H) E H m op a ctx w)"

text \<open>The operations of \<open>BlackItem\<close>; a read appends no byte.\<close>

definition black_poll_read :: "(io_error + u8 list) poll" where
  "black_poll_read = Ready (Inr [])"

definition black_poll_write :: "u8 list \<Rightarrow> (io_error + nat) poll" where
  "black_poll_write bs = Ready (Inr (length bs))"

definition black_poll_flush :: "(io_error + unit) poll" where
  "black_poll_flush = Ready (Inr ())"

definition black_local_addr :: "error + socket_addr" where
  "black_local_addr = Inl NotImplemented"

definition black_accept :: "(error + 'h item \<times> socket_addr) poll" where
  "black_accept = Pending"

definition black_poll_recv_from :: "(io_error + socket_addr \<times> u8 list) poll" where
  "black_poll_recv_from = Pending"

definition black_poll_send_to :: "u8 list \<Rightarrow> address \<Rightarrow> (io_error + nat) poll" where
  "black_poll_send_to bs target = Pending"

section \<open>Well-formed heaps\<close>

fun net_refs :: "'p net \<Rightarrow> rid list" where
  "net_refs (Ext p ns) = concat (map net_refs ns)"
| "net_refs NotImplementedNet = []"
| "net_refs BlackholeNet = []"
| "net_refs (AliasNet n) = net_refs n"
| "net_refs (CombineNet a b c d) = net_refs a @ net_refs b @ net_refs c @ net_refs d"
| "net_refs (RunningNetRef i) = [i]"
| "net_refs (RunningServerNet s n) = net_refs n"

text \<open>Cells are allocated from 0 to \<open>N\<close> and refer to older cells only.\<close>

definition heap_ok :: "'p net_heap \<Rightarrow> nat \<Rightarrow> bool" where
  "heap_ok H N \<longleftrightarrow>
     (\<forall>i. (i < N \<longleftrightarrow> H i \<noteq> None) \<and> (\<forall>rn. H i = Some rn \<longrightarrow> (\<forall>j \<in> set (net_refs (rn_net rn)). j < i)))"

text \<open>A program calls inner nets it has and keeps an invariant \<open>I\<close> of its part of the world, as long as
  the inner nets do.\<close>

primrec prog_in_range :: "('x \<Rightarrow> bool) \<Rightarrow> nat \<Rightarrow> ('h, 'x) prog \<Rightarrow> bool" where
  "prog_in_range I n (Done r ctx x) \<longleftrightarrow> I x"
| "prog_in_range I n (Call i op a ctx x k) \<longleftrightarrow>
     i < n \<and> I x \<and> (\<forall>res. I (snd (snd res)) \<longrightarrow> prog_in_range I n (k res))"

text \<open>So does every \<open>Ext\<close> net, in the operations it provides.\<close>

fun exts_ok :: "('x \<Rightarrow> bool) \<Rightarrow> ('p, 'h, 'x) ext_ops \<Rightarrow> 'p net \<Rightarrow> bool" where
  "exts_ok I E (Ext p ns) \<longleftrightarrow>
     (\<forall>op a ctx x. ext_provides E p op \<longrightarrow> I x \<longrightarrow> prog_in_range I (length ns) (ext_prog E p op a ctx x)) \<and>
     list_all (exts_ok I E) ns"
| "exts_ok I E NotImplementedNet \<longleftrightarrow> True"
| "exts_ok I E BlackholeNet \<longleftrightarrow> True"
| "exts_ok I E (AliasNet n) \<longleftrightarrow> exts_ok I E n"
| "exts_ok I E (CombineNet a b c d) \<longleftrightarrow> exts_ok I E a \<and> exts_ok I E b \<and> exts_ok I E c \<and> exts_ok I E d"
| "exts_ok I E (RunningNetRef i) \<longleftrightarrow> True"
| "exts_ok I E (RunningServerNet s n) \<longleftrightarrow> exts_ok I E n"

definition heap_exts_ok :: "('x \<Rightarrow> bool) \<Rightarrow> ('p, 'h, 'x) ext_ops \<Rightarrow> 'p net_heap \<Rightarrow> bool" where
  "heap_exts_ok I E H \<longleftrightarrow> (\<forall>i rn. H i = Some rn \<longrightarrow> exts_ok I E (rn_net rn))"

section \<open>Calls return\<close>

text \<open>A call returned and kept the invariant.\<close>

definition res_keeps :: "('x \<Rightarrow> bool) \<Rightarrow> ('h, 'x) call_result option \<Rightarrow> bool" where
  "res_keeps I res \<longleftrightarrow> (case res of None \<Rightarrow> False | Some (r, ctx, w) \<Rightarrow> I (outer w))"

lemma res_keeps_simps [simp]:
  "\<not> res_keeps I None" "res_keeps I (Some (r, ctx, w)) \<longleftrightarrow> I (outer w)"
  by (simp_all add: res_keeps_def)

lemma res_keepsE:
  assumes "res_keeps I res"
  obtains r ctx w where "res = Some (r, ctx, w)" "I (outer w)"
  using assms by (auto simp: res_keeps_def split: option.splits)

definition returns :: "('x \<Rightarrow> bool) \<Rightarrow> ('p, 'h, 'x) ext_ops \<Rightarrow> 'p net_heap \<Rightarrow> nat \<Rightarrow> 'p net \<Rightarrow> bool" where
  "returns I E H k n \<longleftrightarrow> (\<forall>op a ctx w. I (outer w) \<longrightarrow> res_keeps I (net_call k E H n op a ctx w))"

lemma run_prog_mono:
  assumes "\<And>i op a ctx w r. cb i op a ctx w = Some r \<Longrightarrow> cb' i op a ctx w = Some r"
  shows "run_prog cb P w = Some r \<Longrightarrow> run_prog cb' P w = Some r"
  by (induction P arbitrary: w) (auto split: option.splits dest: assms)

lemma impl_call_mono:
  assumes "\<And>n op a ctx w r. cb n op a ctx w = Some r \<Longrightarrow> cb' n op a ctx w = Some r"
  shows "impl_call cb E H m op a ctx w = Some r \<Longrightarrow> impl_call cb' E H m op a ctx w = Some r"
proof (cases m)
  case (Ext p ns)
  assume "impl_call cb E H m op a ctx w = Some r"
  then show ?thesis
    unfolding Ext impl_call.simps by (rule run_prog_mono [rotated]) (simp split: if_splits, rule assms)
qed (auto simp: wrapper_calls intro: assms split: option.splits net_op.splits prod.splits sum.splits)

lemma net_call_Suc: "net_call k E H n op a ctx w = Some r \<Longrightarrow> net_call (Suc k) E H n op a ctx w = Some r"
  by (induction k arbitrary: n op a ctx w r)
     (auto split: option.splits intro: impl_call_mono [rotated])

lemma net_call_mono:
  "net_call k E H n op a ctx w = Some r \<Longrightarrow> k \<le> l \<Longrightarrow> net_call l E H n op a ctx w = Some r"
  by (rule dec_induct [of k l "\<lambda>l. net_call l E H n op a ctx w = Some r"]) (auto simp del: net_call.simps intro: net_call_Suc)

lemma returns_mono: "returns I E H k n \<Longrightarrow> k \<le> l \<Longrightarrow> returns I E H l n"
  unfolding returns_def by (metis net_call_mono res_keepsE)

lemma returns_all:
  assumes "\<And>n. n \<in> set ns \<Longrightarrow> \<exists>k. returns I E H k n"
  shows "\<exists>k. \<forall>n \<in> set ns. returns I E H k n"
  using assms
proof (induction ns)
  case (Cons n ns)
  obtain k1 where "returns I E H k1 n" using Cons.prems by (meson list.set_intros(1))
  moreover obtain k2 where "\<forall>n \<in> set ns. returns I E H k2 n"
    using Cons by (meson list.set_intros(2))
  ultimately have "\<forall>m \<in> set (n # ns). returns I E H (max k1 k2) m"
    by (auto intro: returns_mono)
  then show ?case by blast
qed simp

lemma run_prog_returns:
  assumes "\<And>i op a ctx w. i < N \<Longrightarrow> I (outer w) \<Longrightarrow> res_keeps I (cb i op a ctx w)"
  shows "prog_in_range I N P \<Longrightarrow> res_keeps I (run_prog cb P w)"
proof (induction P arbitrary: w)
  case (Call i op a ctx x k)
  then have "res_keeps I (cb i op a ctx (w\<lparr>outer := x\<rparr>))" using assms by simp
  then obtain r ctx' w' where "cb i op a ctx (w\<lparr>outer := x\<rparr>) = Some (r, ctx', w')" "I (outer w')"
    by (rule res_keepsE)
  with Call show ?case by simp
qed simp

lemma alias_transparent: "net_call k E H (AliasNet n) = net_call k E H n"
  by (intro ext) (cases k, auto)

lemma combine_transparent:
  "net_call k E H (CombineNet tc tb ub lh) op = net_call k E H (combine_select op tc tb ub lh) op"
  by (intro ext) (cases k; cases op; simp)

lemma returns_ext:
  assumes "\<forall>n \<in> set ns. returns I E H k n" "exts_ok I E (Ext p ns)"
  shows "returns I E H (Suc k) (Ext p ns)"
proof -
  have "res_keeps I (run_prog (\<lambda>i. if i < length ns then net_call k E H (ns ! i) else (\<lambda>_ _ _ _. None))
      (ext_prog E p op a ctx (outer w)) w)" if "ext_provides E p op" "I (outer w)" for op a ctx w
    using assms that by (intro run_prog_returns [of "length ns"]) (auto simp: returns_def)
  then show ?thesis by (simp add: returns_def)
qed

lemma returns_combine:
  assumes "\<forall>n \<in> set [a, b, c, d]. returns I E H k n"
  shows "returns I E H k (CombineNet a b c d)"
  unfolding returns_def combine_transparent
proof (intro allI impI)
  show "I (outer w) \<Longrightarrow> res_keeps I (net_call k E H (combine_select op a b c d) op x ctx w)" for op x ctx w
    using assms by (cases op) (simp_all add: returns_def)
qed

lemma res_keeps_wrap [simp]:
  "res_keeps I (map_option (wrap_tcp a) res) = res_keeps I res"
  "res_keeps I (map_option (wrap_udp a) res) = res_keeps I res"
  by (auto simp: res_keeps_def wrap_tcp_def wrap_udp_def split: option.splits prod.splits sum.splits)

lemma returns_server:
  assumes "returns I E H k n"
  shows "returns I E H (Suc k) (RunningServerNet s n)"
proof -
  have "returns I E H (Suc k) n" using assms by (rule returns_mono) simp
  then have "provide (ext_provides E) LookupHost n = Some m \<Longrightarrow> I (outer w) \<Longrightarrow>
      res_keeps I (impl_call (net_call k E H) E H m LookupHost a ctx w)" for m a ctx w
    unfolding returns_def by (metis net_call.simps(2) option.simps(5))
  then show ?thesis
    using assms unfolding returns_def
    by (auto simp: wrapper_calls split: option.splits net_op.splits prod.splits sum.splits)
qed

lemma returns_net:
  assumes "\<And>j. j \<in> set (net_refs n) \<Longrightarrow> \<exists>k. returns I E H k (RunningNetRef j)" and "exts_ok I E n"
  shows "\<exists>k. returns I E H k n"
  using assms
proof (induction n)
  case (Ext p ns)
  have "\<exists>k. returns I E H k n" if n: "n \<in> set ns" for n
  proof (rule Ext.IH [OF n])
    show "\<exists>k. returns I E H k (RunningNetRef j)" if "j \<in> set (net_refs n)" for j
      using that n by (intro Ext.prems(1)) auto
    show "exts_ok I E n" using n Ext.prems(2) by (simp add: list_all_iff)
  qed
  then obtain k where "\<forall>n \<in> set ns. returns I E H k n" using returns_all [of ns I E H] by auto
  then have "returns I E H (Suc k) (Ext p ns)" using Ext.prems(2) by (rule returns_ext)
  then show ?case ..
next
  case NotImplementedNet
  have "returns I E H (Suc 0) NotImplementedNet" by (simp add: returns_def)
  then show ?case ..
next
  case BlackholeNet
  have "returns I E H (Suc 0) BlackholeNet" by (simp add: returns_def wrapper_calls)
  then show ?case ..
next
  case (AliasNet n)
  then show ?case by (simp add: returns_def alias_transparent)
next
  case (CombineNet a b c d)
  then have "\<exists>k. returns I E H k n" if "n \<in> set [a, b, c, d]" for n
    using that by auto
  then obtain k where "\<forall>n \<in> set [a, b, c, d]. returns I E H k n"
    using returns_all [of "[a, b, c, d]" I E H] by blast
  then have "returns I E H k (CombineNet a b c d)" by (rule returns_combine)
  then show ?case ..
next
  case (RunningServerNet s n)
  then show ?case using returns_server by fastforce
qed simp

lemma returns_ref:
  assumes "heap_ok H N" "heap_exts_ok I E H" "i < N"
  shows "\<exists>k. returns I E H k (RunningNetRef i)"
  using assms(3)
proof (induction i rule: less_induct)
  case (less i)
  with assms obtain rn where rn: "H i = Some rn" and ok: "exts_ok I E (rn_net rn)"
    unfolding heap_ok_def heap_exts_ok_def by blast
  have "\<exists>k. returns I E H k (RunningNetRef j)" if "j \<in> set (net_refs (rn_net rn))" for j
  proof -
    have "j < i" using that assms(1) rn unfolding heap_ok_def by blast
    with less show ?thesis by simp
  qed
  then obtain k where "returns I E H k (rn_net rn)" using returns_net ok by blast
  with rn have "returns I E H (Suc k) (RunningNetRef i)" by (simp add: returns_def wrapper_calls)
  then show ?case ..
qed

section \<open>The path of a call\<close>

text \<open>\<open>reaches E H op n names m\<close>: the operation \<open>op\<close> of \<open>n\<close> is carried out by the implementation
  of \<open>m\<close> (\<open>None\<close>: nobody provides it), after the running nets \<open>names\<close>.\<close>

inductive reaches ::
  "('p, 'h, 'x) ext_ops \<Rightarrow> 'p net_heap \<Rightarrow> net_op \<Rightarrow> 'p net \<Rightarrow> string list \<Rightarrow> 'p net option \<Rightarrow> bool"
  for E H op where
  reach_none: "provide (ext_provides E) op n = None \<Longrightarrow> reaches E H op n [] None"
| reach_here: "provide (ext_provides E) op n = Some m \<Longrightarrow> \<forall>i. m \<noteq> RunningNetRef i \<Longrightarrow>
    reaches E H op n [] (Some m)"
| reach_running: "provide (ext_provides E) op n = Some (RunningNetRef i) \<Longrightarrow> H i = Some rn \<Longrightarrow>
    reaches E H op (rn_net rn) names m \<Longrightarrow> reaches E H op n (rn_name rn # names) m"

lemma reaches_call:
  assumes "reaches E H op n names m"
  shows "net_call (Suc (length names + k)) E H n op a ctx w =
    (let ctx' = (if op = LookupHost then ctx else foldl (\<lambda>c s. append_net s c) ctx names)
     in case m of None \<Rightarrow> Some (Inl NotImplemented, ctx', w)
        | Some m' \<Rightarrow> impl_call (net_call k E H) E H m' op a ctx' w)"
  using assms
proof (induction arbitrary: ctx)
  case (reach_running n i rn names m)
  then show ?case by (cases m) (simp_all add: Let_def wrapper_calls)
qed (simp_all add: Let_def)

lemma provide_target:
  assumes "provide ep op n = Some m"
  shows "set (net_refs m) \<subseteq> set (net_refs n)" "provide ep op m = Some m"
  using assms by (induction n; cases op; auto split: if_splits)+

lemma reaches_exists:
  assumes "heap_ok H N" "\<forall>j \<in> set (net_refs n). j < i" "i \<le> N"
  shows "\<exists>names m. reaches E H op n names m"
  using assms(2,3)
proof (induction i arbitrary: n rule: less_induct)
  case (less i)
  show ?case
  proof (cases "\<exists>j. provide (ext_provides E) op n = Some (RunningNetRef j)")
    case True
    then obtain j where p: "provide (ext_provides E) op n = Some (RunningNetRef j)" ..
    with provide_target(1) less have j: "j < i" by fastforce
    with less assms(1) obtain rn where rn: "H j = Some rn" "\<forall>l \<in> set (net_refs (rn_net rn)). l < j"
      unfolding heap_ok_def by (metis less_le_trans option.exhaust)
    with less.IH [OF j, of "rn_net rn"] j less.prems obtain names m
      where "reaches E H op (rn_net rn) names m" by auto
    with p rn show ?thesis by (blast intro: reach_running)
  next
    case False
    then show ?thesis
      by (cases "provide (ext_provides E) op n") (auto intro: reach_none reach_here)
  qed
qed

text \<open>The call of a server's net, with the result of the net behind it.\<close>

lemma server_call:
  "net_call (Suc k) E H (RunningServerNet s n) TcpConnect a ctx w =
     (case insert_dest E a (append_net s ctx) of
        (Inl e, ctx') \<Rightarrow> Some (Inl (ContextError e), ctx', w)
      | (Inr _, ctx') \<Rightarrow> map_option (wrap_tcp a) (net_call k E H n TcpConnect a ctx' w))"
  by (simp add: server_tcp_connect_def)

lemma insert_dest_domain:
  "\<exists>ctx'. insert_dest E (Domain d p) ctx = (Inr (), ctx') \<and>
     get_common dest_domain_field ctx' = Inr (Some \<lparr>ad_domain = d, ad_port = p\<rparr>) \<and>
     net_list ctx' = net_list ctx"
  using dest_domain.get_insert [of "\<lparr>ad_domain = d, ad_port = p\<rparr>" ctx]
  by (auto simp: insert_dest_def)

lemma self_reference_stuck:
  assumes "H i = Some rn" "provide (ext_provides E) op (rn_net rn) = Some (RunningNetRef i)"
  shows "net_call k E H (rn_net rn) op a ctx w = None"
  using assms by (induction k arbitrary: ctx) (auto simp: wrapper_calls)

section \<open>Results have the kind their operation asks for\<close>














section \<open>Properties\<close>


text \<open>On a heap whose running nets refer to older running nets only, every operation of every
  net over it returns, whatever the net is made of and whatever the address, context and
  world; so does the search for an inner net.\<close>

lemma net_call_returns:
  assumes "heap_ok H N" "heap_exts_ok I E H" "exts_ok I E n" "\<forall>j \<in> set (net_refs n). j < N"
  shows "\<exists>k. \<forall>l \<ge> k. \<forall>op a ctx w. I (outer w) \<longrightarrow> res_keeps I (net_call l E H n op a ctx w)"
proof -
  have "\<exists>k. returns I E H k (RunningNetRef j)" if "j \<in> set (net_refs n)" for j
    using returns_ref [OF assms(1,2)] assms(4) that by blast
  then obtain k where "returns I E H k n" using returns_net assms(3) by blast
  then have "\<forall>l \<ge> k. returns I E H l n" by (auto intro: returns_mono)
  then show ?thesis unfolding returns_def by blast
qed

text \<open>C8: the wrappers are transparent and leave a trace. On such a heap an operation is carried
  out by the implementation of one net, or is not implemented; the context that
  implementation is given has the names of the running nets passed on the way, outermost
  first, after what the net list held before (a host lookup leaves no trace), and its answer
  is the answer of the call.\<close>

theorem net_call_path:
  assumes "heap_ok H N" "\<forall>j \<in> set (net_refs n). j < N"
  shows "\<exists>names m. reaches E H op n names m \<and>
    (\<forall>ctx. context_inv ctx \<longrightarrow>
       (\<exists>ctx'. strings (net_list ctx') =
             strings (net_list ctx) @ (if op = LookupHost then [] else names) \<and>
          data ctx' = data ctx \<and>
          (\<forall>k a w. net_call (Suc (length names + k)) E H n op a ctx w =
             (case m of None \<Rightarrow> Some (Inl NotImplemented, ctx', w)
              | Some m' \<Rightarrow> impl_call (net_call k E H) E H m' op a ctx' w))))"
proof -
  obtain names m where r: "reaches E H op n names m"
    using reaches_exists [OF assms(1,2)] by blast
  have d: "data (foldl (\<lambda>c s. append_net s c) ctx ns) = data ctx" for ctx ns
    by (induction ns arbitrary: ctx) (simp_all add: append_net_def)
  show ?thesis
  proof (intro exI conjI allI impI)
    show "reaches E H op n names m" by (rule r)
    fix ctx assume inv: "context_inv ctx"
    let ?c = "if op = LookupHost then ctx else foldl (\<lambda>c s. append_net s c) ctx names"
    show "strings (net_list ?c) = strings (net_list ctx) @ (if op = LookupHost then [] else names)"
      using append_nets [OF inv] by simp
    show "data ?c = data ctx" using d by simp
    show "net_call (Suc (length names + k)) E H n op a ctx w =
        (case m of None \<Rightarrow> Some (Inl NotImplemented, ?c, w)
         | Some m' \<Rightarrow> impl_call (net_call k E H) E H m' op a ?c w)" for k a w
      using reaches_call [OF r] by (simp add: Let_def)
  qed
qed

text \<open>Connecting to a domain through the net of a server. The net behind it is asked with a
  context whose net list ends in the server's name and which holds the destination domain;
  when it fails no connection is registered and the error is passed on; when it succeeds the
  stream is wrapped in a connection, registered once, under a fresh uuid, with the address
  asked for and the context the net left.\<close>

lemma server_net_connect:
  assumes "context_inv ctx"
  shows "\<exists>ctx'. strings (net_list ctx') = strings (net_list ctx) @ [s] \<and>
     get_common dest_domain_field ctx' = Inr (Some \<lparr>ad_domain = d, ad_port = p\<rparr>) \<and>
     net_call (Suc k) E H (RunningServerNet s n) TcpConnect (Domain d p) ctx w =
       (case net_call k E H n TcpConnect (Domain d p) ctx' w of
          None \<Rightarrow> None
        | Some (Inl e, c, v) \<Rightarrow> Some (Inl e, c, v)
        | Some (Inr h, c, v) \<Rightarrow>
            Some (Inr (WrapTcpStream h (next_uuid v)), c,
              v\<lparr>conns := open_conn TcpConn tcp_default tcp_event_type (next_uuid v) (Domain d p) c
                   (clock v) (conns v), next_uuid := next_uuid v + 1\<rparr>))"
proof -
  obtain ctx' where c: "insert_dest E (Domain d p) (append_net s ctx) = (Inr (), ctx')"
    "get_common dest_domain_field ctx' = Inr (Some \<lparr>ad_domain = d, ad_port = p\<rparr>)"
    "net_list ctx' = net_list (append_net s ctx)"
    using insert_dest_domain by blast
  have "strings (net_list ctx') = strings (net_list ctx) @ [s]"
    using append_nets [OF assms, of "[s]"] c(3) by simp
  moreover have "net_call (Suc k) E H (RunningServerNet s n) TcpConnect (Domain d p) ctx w =
      map_option (wrap_tcp (Domain d p)) (net_call k E H n TcpConnect (Domain d p) ctx' w)"
    unfolding server_call c(1) by simp
  moreover have "map_option (wrap_tcp (Domain d p)) r =
      (case r of None \<Rightarrow> None
       | Some (Inl e, c, v) \<Rightarrow> Some (Inl e, c, v)
       | Some (Inr h, c, v) \<Rightarrow>
           Some (Inr (WrapTcpStream h (next_uuid v)), c,
             v\<lparr>conns := open_conn TcpConn tcp_default tcp_event_type (next_uuid v) (Domain d p) c
                  (clock v) (conns v), next_uuid := next_uuid v + 1\<rparr>))" for r
    by (simp add: wrap_tcp_def split: option.splits prod.splits sum.splits)
  ultimately show ?thesis using c(2) by (intro exI [of _ ctx'] conjI) simp_all
qed

text \<open>A running net updated to a net that leads back to it, an alias of its own name for
  instance, makes every operation it provides diverge: no amount of fuel gives a result.\<close>

lemma update_cycle_diverges:
  assumes "H i \<noteq> None" "provide (ext_provides E) op n = Some (RunningNetRef i)"
  shows "\<forall>k a ctx w. net_call k E (update_running_net i n H) (RunningNetRef i) op a ctx w = None"
proof (intro allI)
  fix k a ctx w
  obtain rn where rn: "update_running_net i n H i = Some rn" "rn_net rn = n"
    using assms(1) by (auto simp: update_running_net_def)
  then have "net_call k E (update_running_net i n H) (rn_net rn) op a ctx w = None" for k ctx
    using self_reference_stuck [of "update_running_net i n H" i rn E op] assms(2) by simp
  with rn show "net_call k E (update_running_net i n H) (RunningNetRef i) op a ctx w = None"
    by (cases k) (auto simp: wrapper_calls)
qed

section \<open>Witnesses\<close>

text \<open>A net that answers every connect itself, and one that forwards to its only inner net.\<close>

definition demo_ops :: "(bool, unit, unit) ext_ops" where
  "demo_ops =
     \<lparr>ext_provides = (\<lambda>_ op. op = TcpConnect),
      ext_prog = (\<lambda>fwd op a ctx x.
        if fwd then Call 0 op a ctx x (\<lambda>(r, ctx', x'). Done r ctx' x')
        else Done (Inr (Inner ())) ctx x),
      addr_ser = (\<lambda>_. Inl []), addr_de = (\<lambda>_. Inl [])\<rparr>"

definition demo_heap :: "bool net_heap" where
  "demo_heap =
     [0 \<mapsto> \<lparr>rn_name = ''local'', rn_net = Ext False []\<rparr>,
      1 \<mapsto> \<lparr>rn_name = ''rule'', rn_net = Ext True [RunningNetRef 0]\<rparr>]"

lemma demo_heap_ok: "heap_ok demo_heap 2"
  by (auto simp: heap_ok_def demo_heap_def)

lemma demo_exts_ok:
  "exts_ok (\<lambda>_. True) demo_ops (AliasNet (RunningNetRef 1))"
  "heap_exts_ok (\<lambda>_. True) demo_ops demo_heap"
  by (auto simp: heap_exts_ok_def demo_heap_def demo_ops_def split: prod.splits if_splits)

lemma net_call_returns_witness:
  "\<exists>k. \<forall>l \<ge> k. \<forall>op a ctx w.
     res_keeps (\<lambda>_. True) (net_call l demo_ops demo_heap (AliasNet (RunningNetRef 1)) op a ctx w)"
  using net_call_returns [OF demo_heap_ok demo_exts_ok(2,1)] by simp

lemma net_call_path_witness:
  "\<exists>names m. reaches demo_ops demo_heap TcpConnect (AliasNet (RunningNetRef 1)) names m \<and>
     (\<exists>ctx'. strings (net_list ctx') = names \<and>
        (\<forall>k a w. net_call (Suc (length names + k)) demo_ops demo_heap (AliasNet (RunningNetRef 1))
             TcpConnect a context_new w =
           (case m of None \<Rightarrow> Some (Inl NotImplemented, ctx', w)
            | Some m' \<Rightarrow> impl_call (net_call k demo_ops demo_heap) demo_ops demo_heap m'
                TcpConnect a ctx' w)))"
proof -
  have "strings (net_list context_new) = []"
    using append_nets [of context_new "[]"] by (simp add: context_new_def cvs.abs_new)
  note e = this
  have "\<forall>j \<in> set (net_refs (AliasNet (RunningNetRef 1))). j < 2" by simp
  from net_call_path [OF demo_heap_ok this, of demo_ops TcpConnect] obtain names m
    where r: "reaches demo_ops demo_heap TcpConnect (AliasNet (RunningNetRef 1)) names m"
    and f: "\<forall>ctx. context_inv ctx \<longrightarrow>
       (\<exists>ctx'. strings (net_list ctx') =
             strings (net_list ctx) @ (if TcpConnect = LookupHost then [] else names) \<and>
          data ctx' = data ctx \<and>
          (\<forall>k a w. net_call (Suc (length names + k)) demo_ops demo_heap
             (AliasNet (RunningNetRef 1)) TcpConnect a ctx w =
             (case m of None \<Rightarrow> Some (Inl NotImplemented, ctx', w)
              | Some m' \<Rightarrow> impl_call (net_call k demo_ops demo_heap) demo_ops demo_heap m'
                  TcpConnect a ctx' w)))"
    by blast
  from f [rule_format, OF context_inv_new] e r show ?thesis
    by (intro exI [of _ names] exI [of _ m]) (auto simp del: net_call.simps)
qed

lemma server_net_connect_witness:
  "\<exists>ctx'. strings (net_list ctx') = [''socks''] \<and>
     net_call 2 demo_ops demo_heap (RunningServerNet ''socks'' (Ext False [])) TcpConnect
       (Domain ''a.com'' 80) context_new
       \<lparr>conns = sys_init, next_uuid = 0, clock = 0, outer = ()\<rparr> =
     Some (Inr (WrapTcpStream (Inner ()) 0), ctx',
       \<lparr>conns = open_conn TcpConn tcp_default tcp_event_type 0 (Domain ''a.com'' 80) ctx' 0 sys_init,
        next_uuid = 1, clock = 0, outer = ()\<rparr>)"
proof -
  have e: "strings (net_list context_new) = []" by (simp add: context_new_def cvs.abs_new)
  have k: "Suc 1 = (2 :: nat)" by simp
  obtain ctx' where "strings (net_list ctx') = [''socks'']"
    "net_call 2 demo_ops demo_heap (RunningServerNet ''socks'' (Ext False [])) TcpConnect
       (Domain ''a.com'' 80) context_new
       \<lparr>conns = sys_init, next_uuid = 0, clock = 0, outer = ()\<rparr> =
       (case net_call 1 demo_ops demo_heap (Ext False []) TcpConnect (Domain ''a.com'' 80) ctx'
          \<lparr>conns = sys_init, next_uuid = 0, clock = 0, outer = ()\<rparr> of
          None \<Rightarrow> None
        | Some (Inl e, c, v) \<Rightarrow> Some (Inl e, c, v)
        | Some (Inr h, c, v) \<Rightarrow>
            Some (Inr (WrapTcpStream h (next_uuid v)), c,
              v\<lparr>conns := open_conn TcpConn tcp_default tcp_event_type (next_uuid v)
                   (Domain ''a.com'' 80) c (clock v) (conns v), next_uuid := next_uuid v + 1\<rparr>))"
    using server_net_connect [OF context_inv_new, of "''socks''" "''a.com''" 80 1 demo_ops demo_heap
        "Ext False []" "\<lparr>conns = sys_init, next_uuid = 0, clock = 0, outer = ()\<rparr>"] e
    unfolding k by auto
  then show ?thesis by (auto simp: demo_ops_def)
qed


lemma update_cycle_diverges_witness:
  "\<forall>k a ctx w. net_call k demo_ops
     (update_running_net 1 (AliasNet (RunningNetRef 1)) demo_heap) (RunningNetRef 1)
     TcpConnect a ctx w = None"
  by (rule update_cycle_diverges) (simp_all add: demo_heap_def)

end
