(* ===== verification/RD_Running.thy ===== *)
theory RD_Running
  imports RD_Net
begin

text \<open>
  The counting wrappers around streams and sockets and the life of a running server, after
  \<^verbatim>\<open>src/rabbit_digger/running.rs\<close>.

  The inner stream of a wrapper may be anything: an operation is given the answer that the
  inner stream would give if it is polled. A session interleaves operations of wrappers with
  the other actions of the connection system of \<^verbatim>\<open>RD_ConnMgr\<close>; the theorem on it says that the
  manager accounts for every byte that passed a wrapper.

  A running server is the state of \<open>RunningServer\<close>, the task that \<open>start\<close> spawned and the
  semaphore they share; the task runs on its own, so its ends are steps of their own.
\<close>

section \<open>WrapTcpStream\<close>



text \<open>\<open>poll_flush\<close> and \<open>poll_shutdown\<close>.\<close>

definition wrap_poll_pass :: "(io_error + unit) poll \<Rightarrow> sys \<Rightarrow> (io_error + unit) poll \<times> sys" where
  "wrap_poll_pass answer s = (answer, s)"

section \<open>WrapUdpSocket\<close>



section \<open>Sessions\<close>






section \<open>RunningServer\<close>

text \<open>How a spawned task stands; \<open>TDone r\<close>: the server's \<open>start\<close> returned \<open>r\<close>.\<close>

datatype server_task = TRun | TDone "error + unit" | TPanicked | TCancelled

text \<open>What awaiting the handle of an ended task gives: the result of the server, or the
  \<open>JoinError\<close> of a task that did not return.\<close>

datatype join_error = JoinCancelled | JoinPanic

type_synonym server_result = "(error + join_error) + unit"

fun task_result :: "server_task \<Rightarrow> server_result option" where
  "task_result TRun = None"
| "task_result (TDone r) = Some (map_err Inl r)"
| "task_result TPanicked = Some (Inl (Inr JoinPanic))"
| "task_result TCancelled = Some (Inl (Inr JoinCancelled))"

datatype server_state = SIdle | SRunning | SFinished server_result

text \<open>All tasks ever spawned, the current one first; the semaphore and the abort request are
  those of the current one.\<close>

record running_server =
  sv_state :: server_state
  sv_tasks :: "server_task list"
  sv_closed :: bool
  sv_abort :: bool

definition sv_new :: running_server where
  "sv_new = \<lparr>sv_state = SIdle, sv_tasks = [], sv_closed = False, sv_abort = False\<rparr>"

text \<open>The current task ends: it returns, closing the semaphore first, it panics, or it is
  cancelled, which takes an abort request.\<close>

definition sv_task_end :: "server_task \<Rightarrow> running_server \<Rightarrow> running_server" where
  "sv_task_end e s =
     (case sv_tasks s of
        TRun # ts \<Rightarrow>
          if e = TRun \<or> (e = TCancelled \<and> \<not> sv_abort s) then s
          else s\<lparr>sv_tasks := e # ts, sv_closed := (case e of TDone _ \<Rightarrow> True | _ \<Rightarrow> sv_closed s)\<rparr>
      | _ \<Rightarrow> s)"

text \<open>One poll of the future of \<open>join\<close>: wait for the semaphore, then for the handle.\<close>

definition sv_join :: "running_server \<Rightarrow> unit poll \<times> running_server" where
  "sv_join s =
     (if sv_state s \<noteq> SRunning then (Ready (), s)
      else if \<not> sv_closed s then (Pending, s)
      else
        (case sv_tasks s of
           [] \<Rightarrow> (Pending, s)
         | t # _ \<Rightarrow>
             (case task_result t of
                None \<Rightarrow> (Pending, s)
              | Some r \<Rightarrow> (Ready (), s\<lparr>sv_state := SFinished r\<rparr>))))"

definition sv_stop :: "running_server \<Rightarrow> unit poll \<times> running_server" where
  "sv_stop s =
     (if sv_state s \<noteq> SRunning then (Ready (), s)
      else sv_join (s\<lparr>sv_abort := True, sv_closed := True\<rparr>))"

definition sv_start :: "running_server \<Rightarrow> unit poll \<times> running_server" where
  "sv_start s =
     (case sv_stop s of
        (Pending, s') \<Rightarrow> (Pending, s')
      | (Ready _, s') \<Rightarrow>
          (Ready (), s'\<lparr>sv_state := SRunning, sv_tasks := TRun # sv_tasks s',
                       sv_closed := False, sv_abort := False\<rparr>))"

definition sv_take_result :: "running_server \<Rightarrow> server_result option \<times> running_server" where
  "sv_take_result s =
     (case sv_state s of
        SFinished r \<Rightarrow> (Some r, s\<lparr>sv_state := SIdle\<rparr>)
      | _ \<Rightarrow> (None, s))"

datatype server_action = SvStart | SvStop | SvJoin | SvTake | SvTaskEnd server_task

fun sv_step :: "running_server \<Rightarrow> server_action \<Rightarrow> running_server" where
  "sv_step s SvStart = snd (sv_start s)"
| "sv_step s SvStop = snd (sv_stop s)"
| "sv_step s SvJoin = snd (sv_join s)"
| "sv_step s SvTake = snd (sv_take_result s)"
| "sv_step s (SvTaskEnd e) = sv_task_end e s"

section \<open>Every byte is accounted for\<close>


lemma poll_conn_step: "poll_conn u hb now s = (r, s') \<Longrightarrow> s' = sys_step s (APoll u hb now)"
  by simp








section \<open>The life of a server\<close>

text \<open>Tasks other than the current one have ended; the current one has ended too unless the
  server is running, and a running server has a task.\<close>

definition sv_inv :: "running_server \<Rightarrow> bool" where
  "sv_inv s \<longleftrightarrow>
     (case sv_tasks s of
        [] \<Rightarrow> sv_state s \<noteq> SRunning
      | t # ts \<Rightarrow> TRun \<notin> set ts \<and> (sv_state s = SRunning \<or> t \<noteq> TRun))"

lemma sv_inv_new [simp]: "sv_inv sv_new"
  by (simp add: sv_inv_def sv_new_def)

lemmas sv_ops = sv_task_end_def sv_join_def sv_stop_def sv_start_def sv_take_result_def

lemma task_result_None: "task_result t = None \<longleftrightarrow> t = TRun"
  by (cases t) simp_all

lemma sv_join_inv: "sv_inv s \<Longrightarrow> sv_inv (snd (sv_join s))"
  by (auto simp: sv_join_def sv_inv_def split: list.splits option.splits)

lemma sv_stop_inv: "sv_inv s \<Longrightarrow> sv_inv (snd (sv_stop s))"
proof -
  assume inv: "sv_inv s"
  then have "sv_inv (s\<lparr>sv_abort := True, sv_closed := True\<rparr>)"
    by (simp add: sv_inv_def split: list.splits)
  with inv sv_join_inv show ?thesis by (simp add: sv_stop_def)
qed

lemma sv_stop_ready: "sv_stop s = (Ready x, s') \<Longrightarrow> sv_state s' \<noteq> SRunning"
  by (auto simp: sv_ops split: if_splits list.splits option.splits)

lemma sv_inv_step: "sv_inv s \<Longrightarrow> sv_inv (sv_step s a)"
proof (cases a)
  case SvStart
  assume inv: "sv_inv s"
  obtain r s' where st: "sv_stop s = (r, s')" by fastforce
  with sv_stop_inv [OF inv] have "sv_inv s'" by simp
  with st sv_stop_ready [of s _ s'] show ?thesis unfolding SvStart
    by (cases r) (auto simp: sv_start_def sv_inv_def split: list.splits)
qed (auto simp: sv_join_inv sv_stop_inv, auto simp: sv_task_end_def sv_take_result_def sv_inv_def
    split: list.splits server_task.splits server_state.splits)

lemma sv_inv_run: "sv_inv s \<Longrightarrow> sv_inv (foldl sv_step s acts)"
  by (induction acts arbitrary: s) (simp_all add: sv_inv_step)

section \<open>Properties\<close>


text \<open>At any time at most one task of a server runs, none unless the server is in the running
  state, in whatever order it is started, stopped, joined and its tasks end: a restart never
  leaves an old task behind.\<close>

lemma server_single_task:
  "let s = foldl sv_step sv_new acts
   in length (filter (\<lambda>t. t = TRun) (sv_tasks s)) \<le> (if sv_state s = SRunning then 1 else 0)"
proof -
  let ?s = "foldl sv_step sv_new acts"
  have "sv_inv ?s" by (simp add: sv_inv_run)
  moreover have "TRun \<notin> set ts \<Longrightarrow> filter (\<lambda>t. t = TRun) ts = []" for ts
    by (auto simp: filter_empty_conv)
  ultimately show ?thesis by (auto simp: Let_def sv_inv_def split: list.splits)
qed

text \<open>Stopping works: a stop of a running server is pending only until its task ends, in
  whatever way; then it completes, the server is finished with what the task ended with, that
  result can be taken once, and a start spawns one new task.\<close>

lemma server_stop_completes:
  assumes "s = foldl sv_step sv_new acts" "sv_state s = SRunning"
    and "s' = sv_task_end e (snd (sv_stop s))" "e \<noteq> TRun"
  shows "\<exists>t r f. hd (sv_tasks s') = t \<and> task_result t = Some r \<and> (hd (sv_tasks s) = TRun \<longrightarrow> t = e) \<and>
    sv_stop s' = (Ready (), f) \<and> sv_state f \<noteq> SRunning \<and>
    (sv_state s' = SRunning \<longrightarrow> sv_take_result f = (Some r, f\<lparr>sv_state := SIdle\<rparr>)) \<and>
    fst (sv_start s') = Ready () \<and> sv_tasks (snd (sv_start s')) = TRun # sv_tasks s'"
proof -
  have "sv_inv s" by (simp add: assms(1) sv_inv_run)
  with assms(2) obtain t ts where ts: "sv_tasks s = t # ts"
    by (auto simp: sv_inv_def split: list.splits)
  show ?thesis
    using ts assms(2-4) by (cases t; cases e) (auto simp: sv_ops)
qed

text \<open>When the task of a server panics, nobody closes the semaphore: unless the server is
  stopped, waiting for it never ends.\<close>

lemma server_panic_join_hangs:
  assumes "fst (sv_start s) = Ready ()" "set acts \<subseteq> insert SvJoin (insert SvTake (range SvTaskEnd))"
  shows "fst (sv_join (foldl sv_step (sv_task_end TPanicked (snd (sv_start s))) acts)) = Pending"
proof -
  define P where "P = (\<lambda>s :: running_server. sv_state s = SRunning \<and> \<not> sv_closed s \<and> (\<exists>ts. sv_tasks s = TPanicked # ts))"
  have step: "P s \<Longrightarrow> a \<in> insert SvJoin (insert SvTake (range SvTaskEnd)) \<Longrightarrow> P (sv_step s a)" for s a
    by (auto simp: P_def sv_join_def sv_take_result_def sv_task_end_def)
  have "P (sv_task_end TPanicked (snd (sv_start s)))"
    using assms(1) by (auto simp: P_def sv_start_def sv_task_end_def split: prod.splits poll.splits)
  then have "P (foldl sv_step (sv_task_end TPanicked (snd (sv_start s))) acts)"
    using assms(2) by (induction acts rule: rev_induct) (auto intro: step)
  then show ?thesis by (auto simp: P_def sv_join_def)
qed

lemma server_stop_completes_witness:
  "\<exists>f. sv_stop (sv_task_end TCancelled (snd (sv_stop (snd (sv_start sv_new))))) = (Ready (), f) \<and>
     sv_take_result f = (Some (Inl (Inr JoinCancelled)), f\<lparr>sv_state := SIdle\<rparr>)"
  using server_stop_completes [of "snd (sv_start sv_new)" "[SvStart]"
      "sv_task_end TCancelled (snd (sv_stop (snd (sv_start sv_new))))" TCancelled]
  by (auto simp: sv_ops sv_new_def)

lemma server_panic_witness:
  "fst (sv_join (foldl sv_step (sv_task_end TPanicked (snd (sv_start sv_new))) [SvJoin, SvTake])) = Pending"
  by (rule server_panic_join_hangs) (simp_all add: sv_ops sv_new_def)

end
