(* ===== verification/RD_Build.thy ===== *)
theory RD_Build
  imports RD_Running
begin

text \<open>
  Building nets and servers from a configuration: \<^verbatim>\<open>rd-interface/src/registry.rs\<close>,
  \<^verbatim>\<open>src/registry.rs\<close>, \<open>init_default_net\<close> of \<^verbatim>\<open>src/config.rs\<close> and the build part of
  \<^verbatim>\<open>src/rabbit_digger.rs\<close> (\<open>build_net\<close>, \<open>build_server\<close>, \<open>build_entities\<close>, \<open>BuildContext\<close>).

  What a registered type does is a parameter: reading its configuration from JSON, writing it
  back and building the item (\<open>resolver\<close>); so is reading a \<open>config::Net\<close> from JSON. The state
  of a build is the configuration being flattened, the cache of running nets, and the heap
  they live in.

  \<open>get_net\<close> calls itself through the visitor of the configuration it builds; the model has
  fuel, and runs out of it, or panics, by setting \<open>bs_halt\<close>. The theorems: it never panics, the
  fuel \<open>build_fuel\<close> computes from the configuration is enough, and every net that is built
  refers to nets built before it, so that a circular configuration is an error.
\<close>

section \<open>Registry\<close>

text \<open>\<open>Resolver<T>\<close> is a \<open>Builder\<close>: its \<open>Config\<close> type as serde reads and writes it, and \<open>build\<close>.\<close>

record ('d, 'p, 'i) resolver =
  rs_parse :: "json \<Rightarrow> string + ('d, 'p net) config"
  rs_dump :: "('d, 'p net) config \<Rightarrow> string + json"
  rs_build :: "('d, 'p net) config \<Rightarrow> error + 'i"

record ('d, 'p, 'i) reg_item =
  it_id :: string
  it_plugin :: string
  it_resolver :: "('d, 'p, 'i) resolver"

record ('d, 'p, 'srv) registry =
  rg_net :: "string \<Rightarrow> ('d, 'p, 'p net) reg_item option"
  rg_server :: "string \<Rightarrow> ('d, 'p, 'srv) reg_item option"

text \<open>The registry a plugin fills, and its addition to the program's.\<close>

record ('d, 'p, 'srv) plugin_registry =
  pl_net :: "string \<Rightarrow> ('d, 'p, 'p net) resolver option"
  pl_server :: "string \<Rightarrow> ('d, 'p, 'srv) resolver option"

definition registry_new :: "('d, 'p, 'srv) registry" where
  "registry_new = \<lparr>rg_net = (\<lambda>_. None), rg_server = (\<lambda>_. None)\<rparr>"

definition plugin_new :: "('d, 'p, 'srv) plugin_registry" where
  "plugin_new = \<lparr>pl_net = (\<lambda>_. None), pl_server = (\<lambda>_. None)\<rparr>"

definition add_net :: "string \<Rightarrow> ('d, 'p, 'p net) resolver \<Rightarrow> ('d, 'p, 'srv) plugin_registry \<Rightarrow>
    ('d, 'p, 'srv) plugin_registry" where
  "add_net nm r p = p\<lparr>pl_net := (pl_net p)(nm \<mapsto> r)\<rparr>"

definition add_server :: "string \<Rightarrow> ('d, 'p, 'srv) resolver \<Rightarrow> ('d, 'p, 'srv) plugin_registry \<Rightarrow>
    ('d, 'p, 'srv) plugin_registry" where
  "add_server nm r p = p\<lparr>pl_server := (pl_server p)(nm \<mapsto> r)\<rparr>"

definition items_of :: "string \<Rightarrow> (string \<Rightarrow> ('d, 'p, 'i) resolver option) \<Rightarrow> string \<Rightarrow> ('d, 'p, 'i) reg_item option" where
  "items_of plugin rs nm =
     map_option (\<lambda>r. \<lparr>it_id = nm, it_plugin = plugin, it_resolver = r\<rparr>) (rs nm)"

definition add_registry ::
  "string \<Rightarrow> ('d, 'p, 'srv) plugin_registry \<Rightarrow> ('d, 'p, 'srv) registry \<Rightarrow> ('d, 'p, 'srv) registry" where
  "add_registry plugin p R =
     R\<lparr>rg_net := rg_net R ++ items_of plugin (pl_net p),
       rg_server := rg_server R ++ items_of plugin (pl_server p)\<rparr>"

definition reg_get_net :: "('d, 'p, 'srv) registry \<Rightarrow> string \<Rightarrow> error + ('d, 'p, 'p net) reg_item" where
  "reg_get_net R t = ok_or (rg_net R t) (Other (''Net type is not loaded: '' @ t))"

definition reg_get_server :: "('d, 'p, 'srv) registry \<Rightarrow> string \<Rightarrow> error + ('d, 'p, 'srv) reg_item" where
  "reg_get_server R t = ok_or (rg_server R t) (Other (''Server type is not loaded: '' @ t))"

text \<open>\<open>NetGetter\<close> is given the reference to update and the path to it.\<close>

type_synonym ('p, 's) net_getter =
  "'p net net_ref \<Rightarrow> visitor_context \<Rightarrow> 's \<Rightarrow> (error + 'p net \<times> 'p net net_ref) \<times> 's"

definition visit_net_ref :: "('p, 's) net_getter \<Rightarrow> ('p net, 's) visitor" where
  "visit_net_ref getter ctx net_ref s =
     (case getter net_ref ctx s of
        (Inl e, s') \<Rightarrow> (Inl e, s')
      | (Inr (n, r), s') \<Rightarrow> (Inr (set_value r n), s'))"

definition resolve_net ::
  "('d, 'p net) config \<Rightarrow> ('p, 's) net_getter \<Rightarrow> 's \<Rightarrow> (error + ('d, 'p net) config) \<times> 's" where
  "resolve_net c getter s =
     (case visit (visit_net_ref getter) c (vc_new, s) of (r, ctx, s') \<Rightarrow> (r, s'))"

text \<open>\<open>BuilderExt::build_dyn\<close>: the item, what is left in the configuration value, the state.\<close>

definition build_dyn ::
  "('d, 'p, 'i) resolver \<Rightarrow> ('p, 's) net_getter \<Rightarrow> json \<Rightarrow> 's \<Rightarrow> (error + 'i) \<times> json \<times> 's" where
  "build_dyn r getter cfg s =
     (case rs_parse r cfg of
        Inl e \<Rightarrow> (Inl (Config e), JNull, s)
      | Inr c \<Rightarrow>
          (case resolve_net c getter s of
             (Inl e, s') \<Rightarrow> (Inl e, JNull, s')
           | (Inr c', s') \<Rightarrow>
               (case rs_dump r c' of
                  Inl e \<Rightarrow> (Inl (Config e), JNull, s')
                | Inr v \<Rightarrow> (rs_build r c', v, s'))))"

definition item_build ::
  "string \<Rightarrow> ('d, 'p, 'i) reg_item \<Rightarrow> ('p, 's) net_getter \<Rightarrow> json \<Rightarrow> 's \<Rightarrow> (error + 'i) \<times> json \<times> 's" where
  "item_build what it getter cfg s =
     (case build_dyn (it_resolver it) getter cfg s of
        (r, v, s') \<Rightarrow> (err_context (''Failed to build '' @ what @ '': '' @ it_id it) r, v, s'))"

section \<open>Configuration\<close>

record net_cfg =
  nc_type :: string
  nc_opt :: json

record server_cfg =
  sc_type :: string
  sc_opt :: json

record rd_config =
  cfg_id :: string
  cfg_net :: "string \<Rightarrow> net_cfg option"
  cfg_server :: "(string \<times> server_cfg) list"

text \<open>\<open>init_default_net\<close>; \<open>empty_opt\<close> and \<open>local_opt\<close> are \<open>to_value\<close> of the default configurations.\<close>

definition default_net :: "string \<Rightarrow> json \<Rightarrow> (string \<Rightarrow> net_cfg option) \<Rightarrow> string \<Rightarrow> net_cfg option" where
  "default_net nm opt m = (if m nm = None then m(nm \<mapsto> \<lparr>nc_type = nm, nc_opt = opt\<rparr>) else m)"

definition init_default_net :: "json \<Rightarrow> json \<Rightarrow> (string \<Rightarrow> net_cfg option) \<Rightarrow> string \<Rightarrow> net_cfg option" where
  "init_default_net empty_opt local_opt m =
     default_net ''local'' local_opt
       (default_net ''blackhole'' empty_opt (default_net ''noop'' empty_opt m))"

section \<open>The build context\<close>

datatype build_halt = NoFuel | BuildPanic

record 'p build_state =
  bs_config :: "string \<Rightarrow> net_cfg option"
  bs_cache :: "string \<Rightarrow> rid option"
  bs_heap :: "'p net_heap"
  bs_next :: rid
  bs_halt :: "build_halt option"

record ('d, 'p, 'srv) build_env =
  en_registry :: "('d, 'p, 'srv) registry"
  en_net_of_json :: "json \<Rightarrow> string + net_cfg"
  en_debug :: "string \<Rightarrow> string"

definition build_net ::
  "('d, 'p, 'srv) build_env \<Rightarrow> string \<Rightarrow> net_cfg \<Rightarrow> ('p, 's) net_getter \<Rightarrow> 's \<Rightarrow>
   (error + 'p net) \<times> net_cfg \<times> 's" where
  "build_net E nm i getter s =
     (case reg_get_net (en_registry E) (nc_type i) of
        Inl e \<Rightarrow> (Inl e, i, s)
      | Inr it \<Rightarrow>
          (case item_build ''net'' it getter (nc_opt i) s of
             (r, v, s') \<Rightarrow>
               (err_context (''Failed to build net '' @ en_debug E nm @ ''. Please check your config.'') r,
                i\<lparr>nc_opt := v\<rparr>, s')))"

definition build_server ::
  "('d, 'p, 'srv) build_env \<Rightarrow> string \<Rightarrow> server_cfg \<Rightarrow> ('p, 's) net_getter \<Rightarrow> 's \<Rightarrow>
   (error + 'srv) \<times> server_cfg \<times> 's" where
  "build_server E nm i getter s =
     (case reg_get_server (en_registry E) (sc_type i) of
        Inl e \<Rightarrow> (Inl e, i, s)
      | Inr it \<Rightarrow>
          (case item_build ''server'' it getter (sc_opt i) s of
             (r, v, s') \<Rightarrow>
               (err_context (''Failed to build server '' @ en_debug E nm @ ''. Please check your config.'') r,
                i\<lparr>sc_opt := v\<rparr>, s')))"

definition placeholder :: net_cfg where
  "placeholder = \<lparr>nc_type = ''circular reference'', nc_opt = JNull\<rparr>"

definition halt :: "build_halt \<Rightarrow> 'p build_state \<Rightarrow> (error + 'a) \<times> 'p build_state" where
  "halt h s = (Inl (Other []), s\<lparr>bs_halt := Some h\<rparr>)"

text \<open>The first part of \<open>get_net\<close>: the name a reference stands for. A reference that is not a
  name is a net configuration in place: it is moved into the configuration under a name made
  of the prefix and the path, and the reference is replaced by that name.\<close>

definition net_name ::
  "('d, 'p, 'srv) build_env \<Rightarrow> compact_vec_string \<Rightarrow> 'p net net_ref \<Rightarrow> visitor_context \<Rightarrow>
   'p build_state \<Rightarrow> (error + string \<times> 'p net net_ref) \<times> 'p build_state" where
  "net_name E pfx net_ref ctx s =
     (case represent net_ref of
        JString nm \<Rightarrow> (Inr (nm, net_ref), s)
      | net_cfg \<Rightarrow>
          (case iter_collect (cvs_iter_of ctx) of
             Panic \<Rightarrow> halt BuildPanic s
           | Ret path \<Rightarrow>
               (case cvs_join (cvs_extend path pfx) ''/'' of
                  Panic \<Rightarrow> halt BuildPanic s
                | Ret generated_name \<Rightarrow>
                    (case en_net_of_json E net_cfg of
                       Inl e \<Rightarrow> (Inl (Config e), s)
                     | Inr c \<Rightarrow>
                         (Inr (generated_name, net_ref\<lparr>represent := JString generated_name\<rparr>),
                          s\<lparr>bs_config := (bs_config s)(generated_name \<mapsto> c)\<rparr>)))))"

text \<open>Take the configuration of a net and leave the placeholder.\<close>

definition take_cfg :: "string \<Rightarrow> 'p build_state \<Rightarrow> (error + net_cfg) \<times> 'p build_state" where
  "take_cfg nm s =
     (case bs_config s nm of
        None \<Rightarrow> (Inl (NotFound (''Failed to find net in config file: '' @ nm)), s)
      | Some c \<Rightarrow> (Inr c, s\<lparr>bs_config := (bs_config s)(nm \<mapsto> placeholder)\<rparr>))"

text \<open>The last part of \<open>get_net\<close>: the net is wrapped in a running net, its configuration put
  back and the running net cached.\<close>

definition put_net ::
  "string \<Rightarrow> 'p net \<Rightarrow> net_cfg \<Rightarrow> 'p net net_ref \<Rightarrow> 'p build_state \<Rightarrow>
   (error + 'p net \<times> 'p net net_ref) \<times> 'p build_state" where
  "put_net nm n cfg r s =
     (if bs_config s nm = None then halt BuildPanic s
      else
        (Inr (RunningNetRef (bs_next s), r),
         s\<lparr>bs_heap := (bs_heap s)(bs_next s \<mapsto> \<lparr>rn_name = nm, rn_net = n\<rparr>),
           bs_next := bs_next s + 1,
           bs_config := (bs_config s)(nm \<mapsto> cfg),
           bs_cache := (bs_cache s)(nm \<mapsto> bs_next s)\<rparr>))"

fun bc_get_net ::
  "nat \<Rightarrow> ('d, 'p, 'srv) build_env \<Rightarrow> compact_vec_string \<Rightarrow> ('p, 'p build_state) net_getter" where
  "bc_get_net 0 E pfx net_ref ctx s = halt NoFuel s"
| "bc_get_net (Suc k) E pfx net_ref ctx s =
     (case net_name E pfx net_ref ctx s of
        (Inl e, s1) \<Rightarrow> (Inl e, s1)
      | (Inr (nm, r), s1) \<Rightarrow>
          (case bs_cache s1 nm of
             Some i \<Rightarrow> (Inr (RunningNetRef i, r), s1)
           | None \<Rightarrow>
               (case take_cfg nm s1 of
                  (Inl e, s2) \<Rightarrow> (Inl e, s2)
                | (Inr cfg, s2) \<Rightarrow>
                    (case build_net E nm cfg (bc_get_net k E (cvs_from_iter [''net'', nm])) s2 of
                       (Inl e, cfg', s3) \<Rightarrow> (Inl e, s3)
                     | (Inr n, cfg', s3) \<Rightarrow> put_net nm n cfg' r s3))))"

definition get_server_net ::
  "nat \<Rightarrow> ('d, 'p, 'srv) build_env \<Rightarrow> string \<Rightarrow> ('p, 'p build_state) net_getter" where
  "get_server_net k E server_name net_ref ctx s =
     (case bc_get_net k E (cvs_from_iter [''server'', server_name]) net_ref ctx s of
        (Inl e, s') \<Rightarrow> (Inl e, s')
      | (Inr (n, r), s') \<Rightarrow> (Inr (RunningServerNet server_name n, r), s'))"

record 'srv server_info =
  si_name :: string
  si_server :: 'srv
  si_type :: string
  si_running :: running_server
  si_config :: json

text \<open>The loop of \<open>build_entities\<close> over the servers.\<close>

fun build_servers ::
  "nat \<Rightarrow> ('d, 'p, 'srv) build_env \<Rightarrow> (string \<times> server_cfg) list \<Rightarrow> 'p build_state \<Rightarrow>
   (error + 'srv server_info list) \<times> (string \<times> server_cfg) list \<times> 'p build_state" where
  "build_servers k E [] s = (Inr [], [], s)"
| "build_servers k E ((nm, i) # rest) s =
     (case build_server E nm i (get_server_net k E nm) s of
        (Inl e, i', s') \<Rightarrow> (Inl (WithContext (''Loading server '' @ nm) e), (nm, i') # rest, s')
      | (Inr srv, i', s') \<Rightarrow>
          (case build_servers k E rest s' of
             (Inl e, rest', s'') \<Rightarrow> (Inl e, (nm, i') # rest', s'')
           | (Inr infos, rest', s'') \<Rightarrow>
               (Inr (\<lparr>si_name = nm, si_server = srv, si_type = sc_type i', si_running = sv_new,
                      si_config = sc_opt i'\<rparr> # infos), (nm, i') # rest', s'')))"

record ('p, 'srv) running_entities =
  re_nets :: "string \<Rightarrow> rid option"
  re_heap :: "'p net_heap"
  re_servers :: "'srv server_info list"

definition build_init :: "(string \<Rightarrow> net_cfg option) \<Rightarrow> 'p build_state" where
  "build_init m = \<lparr>bs_config = m, bs_cache = (\<lambda>_. None), bs_heap = (\<lambda>_. None), bs_next = 0,
     bs_halt = None\<rparr>"

text \<open>\<open>build_entities\<close>: the entities and the flattened configuration, and why it stopped if it
  did not return.\<close>

definition build_entities ::
  "nat \<Rightarrow> ('d, 'p, 'srv) build_env \<Rightarrow> json \<Rightarrow> json \<Rightarrow> rd_config \<Rightarrow>
   (error + ('p, 'srv) running_entities) \<times> rd_config \<times> build_halt option" where
  "build_entities k E empty_opt local_opt cfg =
     (case build_servers k E (cfg_server cfg)
             (build_init (init_default_net empty_opt local_opt (cfg_net cfg))) of
        (r, servers, s) \<Rightarrow>
          (map_ok (\<lambda>infos. \<lparr>re_nets = bs_cache s, re_heap = bs_heap s, re_servers = infos\<rparr>) r,
           cfg\<lparr>cfg_net := bs_config s, cfg_server := servers\<rparr>, bs_halt s))"

section \<open>The invariant of a build\<close>

text \<open>What the registered net types must do: a built net uses only nets its configuration
  holds.\<close>

definition config_net_refs :: "('d, 'p net) config \<Rightarrow> rid set" where
  "config_net_refs c =
     {j. \<exists>p r n. (p, r) \<in> set (refs_of [] c) \<and> res_value r = Some n \<and> j \<in> set (net_refs n)}"

definition builders_ok :: "('d, 'p, 'srv) registry \<Rightarrow> bool" where
  "builders_ok R \<longleftrightarrow>
     (\<forall>t it c n. rg_net R t = Some it \<longrightarrow> rs_build (it_resolver it) c = Inr n \<longrightarrow>
        set (net_refs n) \<subseteq> config_net_refs c)"

definition bs_inv :: "'p build_state \<Rightarrow> bool" where
  "bs_inv s \<longleftrightarrow>
     heap_ok (bs_heap s) (bs_next s) \<and>
     (\<forall>nm i. bs_cache s nm = Some i \<longrightarrow> i < bs_next s \<and> map_option rn_name (bs_heap s i) = Some nm) \<and>
     finite (dom (bs_config s)) \<and> bs_halt s \<noteq> Some BuildPanic"

text \<open>A build only adds: cells, and names in the configuration.\<close>

definition bs_le :: "'p build_state \<Rightarrow> 'p build_state \<Rightarrow> bool" where
  "bs_le s s' \<longleftrightarrow>
     bs_next s \<le> bs_next s' \<and> (\<forall>i < bs_next s. bs_heap s' i = bs_heap s i) \<and>
     dom (bs_config s) \<subseteq> dom (bs_config s')"

lemma bs_le_refl [simp]: "bs_le s s"
  by (simp add: bs_le_def)

lemma bs_le_trans: "bs_le s t \<Longrightarrow> bs_le t u \<Longrightarrow> bs_le s u"
  by (fastforce simp: bs_le_def)

definition below :: "nat \<Rightarrow> 'p net \<Rightarrow> bool" where
  "below N n \<longleftrightarrow> (\<forall>j \<in> set (net_refs n). j < N)"

lemma below_mono: "below N n \<Longrightarrow> N \<le> M \<Longrightarrow> below M n"
  by (fastforce simp: below_def)

definition getter_ok :: "('p, 'p build_state) net_getter \<Rightarrow> bool" where
  "getter_ok G \<longleftrightarrow>
     (\<forall>r p s. bs_inv s \<longrightarrow>
        (case G r (cvs_of p) s of
           (res, s') \<Rightarrow> bs_inv s' \<and> bs_le s s' \<and>
             (case res of Inl e \<Rightarrow> True | Inr (n, r') \<Rightarrow> below (bs_next s') n)))"

lemma getter_okD:
  assumes "getter_ok G" "bs_inv s" "G r (cvs_of p) s = (res, s')"
  shows "bs_inv s'" "bs_le s s'" "res = Inr (n, r') \<Longrightarrow> below (bs_next s') n"
  using assms unfolding getter_ok_def by (force split: prod.splits)+

lemma getter_okI:
  assumes "\<And>r p s res s'. bs_inv s \<Longrightarrow> G r (cvs_of p) s = (res, s') \<Longrightarrow>
    bs_inv s' \<and> bs_le s s' \<and> (\<forall>n r'. res = Inr (n, r') \<longrightarrow> below (bs_next s') n)"
  shows "getter_ok G"
  unfolding getter_ok_def using assms by (fastforce split: prod.splits sum.splits)

lemma resolve_net_refs:
  assumes "resolve_net c getter s = (r, s')"
  shows "visit_refs (visit_net_ref getter) (refs_of [] c) s = (map_ok (refs_of []) r, s')"
  using assms visit_agrees_refs(1) [of "visit_net_ref getter" "[]" c s]
  by (auto simp: resolve_net_def visit_agrees_def vc_new_def cvs_new_of prod_eq_iff split: prod.splits)

lemma visit_refs_ok:
  assumes "getter_ok G" "bs_inv s" "visit_refs (visit_net_ref G) rs s = (res, s')"
  shows "bs_inv s' \<and> bs_le s s' \<and>
    (\<forall>rs' p r n. res = Inr rs' \<longrightarrow> (p, r) \<in> set rs' \<longrightarrow> res_value r = Some n \<longrightarrow>
       below (bs_next s') n)"
  using assms(2,3)
proof (induction rs arbitrary: s res s')
  case (Cons x rs)
  obtain p r where x: "x = (p, r)" by fastforce
  obtain g s1 where g: "G r (cvs_of p) s = (g, s1)" by fastforce
  note s1 = getter_okD(1,2) [OF assms(1) Cons.prems(1) g]
  show ?case
  proof (cases g)
    case (Inl e)
    with Cons.prems x g s1 show ?thesis by (auto simp: visit_net_ref_def)
  next
    case (Inr nr)
    then obtain n r1 where nr: "g = Inr (n, r1)" by (cases nr) auto
    obtain q s2 where q: "visit_refs (visit_net_ref G) rs s1 = (q, s2)" by fastforce
    note IH = Cons.IH [OF s1(1) q]
    have b: "below (bs_next s1) n" by (rule getter_okD(3) [OF assms(1) Cons.prems(1) g nr])
    from IH have "bs_next s1 \<le> bs_next s2" by (simp add: bs_le_def)
    with b have "below (bs_next s2) n" by (rule below_mono)
    moreover have "visit_net_ref G (cvs_of p) r s = (Inr (r1\<lparr>res_value := Some n\<rparr>), s1)"
      using g nr by (simp add: visit_net_ref_def set_value_def)
    ultimately show ?thesis
      using Cons.prems x q IH s1 by (cases q) (auto intro: bs_le_trans)
  qed
qed auto

lemma resolve_net_ok:
  assumes "getter_ok G" "bs_inv s" "resolve_net c G s = (res, s')"
  shows "bs_inv s'" "bs_le s s'" "res = Inr c' \<Longrightarrow> j \<in> config_net_refs c' \<Longrightarrow> j < bs_next s'"
  using visit_refs_ok [OF assms(1,2) resolve_net_refs [OF assms(3)]]
  by (auto simp: config_net_refs_def below_def)

lemma item_build_ok:
  assumes "getter_ok G" "bs_inv s" "item_build what it G v s = (res, v', s')"
  shows "bs_inv s'" "bs_le s s'"
    "res = Inr n \<Longrightarrow> \<exists>c'. rs_build (it_resolver it) c' = Inr n \<and> (\<forall>j \<in> config_net_refs c'. j < bs_next s')"
proof -
  obtain r v1 s1 where b: "build_dyn (it_resolver it) G v s = (r, v1, s1)" by (metis prod_cases3)
  with assms(3) have e: "res = err_context (''Failed to build '' @ what @ '': '' @ it_id it) r" "s' = s1"
    by (simp_all add: item_build_def)
  have "bs_inv s1 \<and> bs_le s s1 \<and> (r = Inr n \<longrightarrow>
      (\<exists>c'. rs_build (it_resolver it) c' = Inr n \<and> (\<forall>j \<in> config_net_refs c'. j < bs_next s1)))"
  proof (cases "rs_parse (it_resolver it) v")
    case (Inl e)
    with b assms(2) show ?thesis by (auto simp: build_dyn_def)
  next
    case (Inr c)
    obtain g s2 where g: "resolve_net c G s = (g, s2)" by fastforce
    note ok = resolve_net_ok [OF assms(1,2) g]
    from Inr b g ok show ?thesis
      by (cases g) (auto simp: build_dyn_def split: sum.splits)
  qed
  with e show "bs_inv s'" "bs_le s s'"
    "res = Inr n \<Longrightarrow> \<exists>c'. rs_build (it_resolver it) c' = Inr n \<and> (\<forall>j \<in> config_net_refs c'. j < bs_next s')"
    by auto
qed

lemma build_net_ok:
  assumes "getter_ok G" "bs_inv s" "builders_ok (en_registry E)" "build_net E nm cfg G s = (res, cfg', s')"
  shows "bs_inv s'" "bs_le s s'" "res = Inr n \<Longrightarrow> below (bs_next s') n"
proof -
  have "bs_inv s' \<and> bs_le s s' \<and> (res = Inr n \<longrightarrow> below (bs_next s') n)"
  proof (cases "rg_net (en_registry E) (nc_type cfg)")
    case None
    with assms show ?thesis by (auto simp: build_net_def reg_get_net_def)
  next
    case (Some it)
    obtain r v s1 where b: "item_build ''net'' it G (nc_opt cfg) s = (r, v, s1)" by (metis prod_cases3)
    with Some assms(4) have e: "s' = s1" "res = Inr n \<Longrightarrow> r = Inr n"
      by (auto simp: build_net_def reg_get_net_def)
    have "below (bs_next s1) n" if "r = Inr n"
      using item_build_ok(3) [OF assms(1,2) b that] assms(3) Some
      unfolding builders_ok_def below_def by blast
    with e item_build_ok(1,2) [OF assms(1,2) b] show ?thesis by blast
  qed
  then show "bs_inv s'" "bs_le s s'" "res = Inr n \<Longrightarrow> below (bs_next s') n" by auto
qed

lemma net_name_ok:
  assumes "bs_inv s" "cvs_inv pfx" "net_name E pfx r (cvs_of p) s = (res, s')"
  shows "bs_inv s' \<and> bs_le s s'"
  using assms iter_collect_strings [of "cvs_of p"]
  by (auto simp: net_name_def bs_inv_def bs_le_def cvs_join_strings
      elim!: cvs_invE split: json.splits outcome.splits sum.splits)

lemma take_cfg_ok: "bs_inv s \<Longrightarrow> take_cfg nm s = (res, s') \<Longrightarrow> bs_inv s' \<and> bs_le s s'"
  by (auto simp: take_cfg_def bs_inv_def bs_le_def split: option.splits)

lemma heap_ok_extend:
  assumes "heap_ok H N" "below N n"
  shows "heap_ok (H(N \<mapsto> \<lparr>rn_name = nm, rn_net = n\<rparr>)) (N + 1)"
  using assms unfolding heap_ok_def below_def by (auto simp: less_Suc_eq)

lemma put_net_ok:
  assumes "bs_inv s" "below (bs_next s) n" "bs_config s nm \<noteq> None" "put_net nm n cfg r s = (res, s')"
  shows "bs_inv s' \<and> bs_le s s' \<and> res = Inr (RunningNetRef (bs_next s), r) \<and> bs_next s' = bs_next s + 1"
proof -
  have s': "res = Inr (RunningNetRef (bs_next s), r)"
    "s' = s\<lparr>bs_heap := (bs_heap s)(bs_next s \<mapsto> \<lparr>rn_name = nm, rn_net = n\<rparr>),
      bs_next := bs_next s + 1, bs_config := (bs_config s)(nm \<mapsto> cfg),
      bs_cache := (bs_cache s)(nm \<mapsto> bs_next s)\<rparr>"
    using assms(3,4) by (auto simp: put_net_def)
  have "heap_ok ((bs_heap s)(bs_next s \<mapsto> \<lparr>rn_name = nm, rn_net = n\<rparr>)) (bs_next s + 1)"
    using assms(1,2) by (intro heap_ok_extend) (simp_all add: bs_inv_def)
  with assms(1) show ?thesis
    unfolding s' by (auto simp: bs_inv_def bs_le_def less_Suc_eq)
qed

lemma bc_get_net_ok:
  assumes "builders_ok (en_registry E)"
  shows "cvs_inv pfx \<Longrightarrow> getter_ok (bc_get_net k E pfx)"
proof (induction k arbitrary: pfx)
  case 0
  then show ?case by (simp add: getter_ok_def halt_def bs_inv_def bs_le_def)
next
  case (Suc k)
  have "bs_inv s' \<and> bs_le s s' \<and> (\<forall>n r'. res = Inr (n, r') \<longrightarrow> below (bs_next s') n)"
    if s: "bs_inv s" and g: "bc_get_net (Suc k) E pfx r (cvs_of p) s = (res, s')" for r p s res s'
  proof -
    obtain q s1 where q: "net_name E pfx r (cvs_of p) s = (q, s1)" by fastforce
    with net_name_ok [OF s Suc.prems] have s1: "bs_inv s1" "bs_le s s1" by blast+
    show ?thesis
    proof (cases q)
      case (Inl e)
      with g q s1 show ?thesis by auto
    next
      case (Inr nr)
      then obtain nm r1 where nr: "q = Inr (nm, r1)" by (cases nr) auto
      show ?thesis
      proof (cases "bs_cache s1 nm")
        case (Some i)
        with g q nr s1 have "res = Inr (RunningNetRef i, r1)" "s' = s1" by auto
        moreover have "i < bs_next s1" using s1(1) Some by (simp add: bs_inv_def)
        ultimately show ?thesis using s1 by (auto simp: below_def)
      next
        case None
        obtain t s2 where t: "take_cfg nm s1 = (t, s2)" by fastforce
        with take_cfg_ok [OF s1(1)] s1(2) have s2: "bs_inv s2" "bs_le s s2"
          by (blast intro: bs_le_trans)+
        show ?thesis
        proof (cases t)
          case (Inl e)
          with g q nr None t s2 show ?thesis by auto
        next
          case (Inr cfg)
          obtain b cfg' s3
            where b: "build_net E nm cfg (bc_get_net k E (cvs_from_iter [''net'', nm])) s2 = (b, cfg', s3)"
            by (metis prod_cases3)
          have "getter_ok (bc_get_net k E (cvs_from_iter [''net'', nm]))" by (rule Suc.IH) simp
          note ok = build_net_ok [OF this s2(1) assms b]
          have "bs_config s3 nm \<noteq> None"
            using t Inr ok(2) by (auto simp: take_cfg_def bs_le_def split: option.splits)
          with g q nr None t Inr b ok s2 put_net_ok [OF ok(1) ok(3), of _ nm cfg' r1 res s'] show ?thesis
            by (cases b) (auto simp: below_def intro: bs_le_trans)
        qed
      qed
    qed
  qed
  then show ?case by (intro getter_okI)
qed

lemma get_server_net_ok:
  assumes "builders_ok (en_registry E)"
  shows "getter_ok (get_server_net k E nm)"
proof (rule getter_okI)
  fix r p and s :: "'b build_state" and res s'
  assume s: "bs_inv s" and g: "get_server_net k E nm r (cvs_of p) s = (res, s')"
  let ?G = "bc_get_net k E (cvs_from_iter [''server'', nm])"
  obtain q s1 where q: "?G r (cvs_of p) s = (q, s1)" by fastforce
  have "getter_ok ?G" by (rule bc_get_net_ok [OF assms]) simp
  note ok = getter_okD [OF this s q]
  from g q ok show "bs_inv s' \<and> bs_le s s' \<and> (\<forall>n r'. res = Inr (n, r') \<longrightarrow> below (bs_next s') n)"
    by (auto simp: get_server_net_def below_def split: sum.splits)
qed

lemma build_servers_ok:
  assumes "builders_ok (en_registry E)"
  shows "bs_inv s \<Longrightarrow> build_servers k E cs s = (res, cs', s') \<Longrightarrow> bs_inv s'"
proof (induction cs arbitrary: s res cs' s')
  case (Cons c cs)
  obtain nm i where c: "c = (nm, i)" by fastforce
  obtain b i' s1 where b: "build_server E nm i (get_server_net k E nm) s = (b, i', s1)" by (metis prod_cases3)
  have s1: "bs_inv s1"
  proof (cases "rg_server (en_registry E) (sc_type i)")
    case None
    with b Cons.prems show ?thesis by (simp add: build_server_def reg_get_server_def)
  next
    case (Some it)
    obtain r v s2 where ib: "item_build ''server'' it (get_server_net k E nm) (sc_opt i) s = (r, v, s2)"
      by (metis prod_cases3)
    with b Some have "s1 = s2" by (simp add: build_server_def reg_get_server_def)
    with item_build_ok(1) [OF get_server_net_ok [OF assms] Cons.prems(1) ib] show ?thesis by simp
  qed
  obtain q rest s3 where q: "build_servers k E cs s1 = (q, rest, s3)" by (metis prod_cases3)
  from Cons.IH [OF s1 q] Cons.prems(2) c b q s1 show ?case
    by (auto split: sum.splits)
qed simp

section \<open>The fuel of a build\<close>

text \<open>\<open>wt\<close> weighs the options of a net or server. A net configuration costs one more than its
  weight, the placeholder nothing; a reference costs what the configuration in it costs.\<close>

definition cfg_cost :: "(json \<Rightarrow> nat) \<Rightarrow> net_cfg \<Rightarrow> nat" where
  "cfg_cost wt c = (if nc_type c = nc_type placeholder then 0 else Suc (wt (nc_opt c)))"

definition ref_cost :: "('d, 'p, 'srv) build_env \<Rightarrow> (json \<Rightarrow> nat) \<Rightarrow> 'p net net_ref \<Rightarrow> nat" where
  "ref_cost E wt r =
     (case represent r of
        JString _ \<Rightarrow> 0
      | j \<Rightarrow> (case en_net_of_json E j of Inl _ \<Rightarrow> 0 | Inr c \<Rightarrow> cfg_cost wt c))"

definition refs_cost ::
  "('d, 'p, 'srv) build_env \<Rightarrow> (json \<Rightarrow> nat) \<Rightarrow> (string list \<times> 'p net net_ref) list \<Rightarrow> nat" where
  "refs_cost E wt rs = sum_list (map (\<lambda>(p, r). ref_cost E wt r) rs)"

text \<open>What reading a configuration must do: the nets configured in place inside options cost no
  more than the options weigh. No net type has the name of the placeholder.\<close>

definition weights_ok :: "('d, 'p, 'srv) build_env \<Rightarrow> (json \<Rightarrow> nat) \<Rightarrow> bool" where
  "weights_ok E wt \<longleftrightarrow>
     rg_net (en_registry E) (nc_type placeholder) = None \<and>
     (\<forall>t it v c. rg_net (en_registry E) t = Some it \<longrightarrow> rs_parse (it_resolver it) v = Inr c \<longrightarrow>
        refs_cost E wt (refs_of [] c) \<le> wt v) \<and>
     (\<forall>t it v c. rg_server (en_registry E) t = Some it \<longrightarrow> rs_parse (it_resolver it) v = Inr c \<longrightarrow>
        refs_cost E wt (refs_of [] c) \<le> wt v)"

text \<open>What is still to be built.\<close>

definition pot :: "(json \<Rightarrow> nat) \<Rightarrow> 'p build_state \<Rightarrow> nat" where
  "pot wt s = (\<Sum>nm \<in> {nm \<in> dom (bs_config s). bs_cache s nm = None}. cfg_cost wt (the (bs_config s nm)))"

definition build_fuel :: "(json \<Rightarrow> nat) \<Rightarrow> json \<Rightarrow> json \<Rightarrow> rd_config \<Rightarrow> nat" where
  "build_fuel wt empty_opt local_opt cfg =
     (let m = init_default_net empty_opt local_opt (cfg_net cfg)
      in Suc ((\<Sum>nm \<in> dom m. cfg_cost wt (the (m nm))) +
              sum_list (map (\<lambda>(nm, i). wt (sc_opt i)) (cfg_server cfg))))"

lemma pot_insert:
  assumes "finite (dom (bs_config s))" "bs_cache s nm = None"
  shows "pot wt (s\<lparr>bs_config := (bs_config s)(nm \<mapsto> c)\<rparr>) +
      (case bs_config s nm of None \<Rightarrow> 0 | Some c' \<Rightarrow> cfg_cost wt c') = pot wt s + cfg_cost wt c"
proof -
  let ?D = "{n \<in> dom (bs_config s). bs_cache s n = None}"
  let ?f = "\<lambda>n. cfg_cost wt (the (bs_config s n))"
  let ?g = "\<lambda>n. cfg_cost wt (the (((bs_config s)(nm \<mapsto> c)) n))"
  have fin: "finite (?D - {nm})" using assms(1) by simp
  have "pot wt (s\<lparr>bs_config := (bs_config s)(nm \<mapsto> c)\<rparr>) = (\<Sum>n \<in> insert nm (?D - {nm}). ?g n)"
    unfolding pot_def using assms(2) by (intro sum.cong) auto
  also have "\<dots> = ?g nm + (\<Sum>n \<in> ?D - {nm}. ?g n)" using fin by (subst sum.insert) auto
  also have "(\<Sum>n \<in> ?D - {nm}. ?g n) = (\<Sum>n \<in> ?D - {nm}. ?f n)" by (intro sum.cong) auto
  finally have a: "pot wt (s\<lparr>bs_config := (bs_config s)(nm \<mapsto> c)\<rparr>) =
      cfg_cost wt c + (\<Sum>n \<in> ?D - {nm}. ?f n)" by (simp only: fun_upd_same option.sel)
  have "pot wt s = (case bs_config s nm of None \<Rightarrow> 0 | Some c' \<Rightarrow> cfg_cost wt c') + (\<Sum>n \<in> ?D - {nm}. ?f n)"
  proof (cases "bs_config s nm")
    case None
    then have "?D - {nm} = ?D" by auto
    with None show ?thesis by (simp add: pot_def)
  next
    case (Some c')
    with assms have "nm \<in> ?D" "finite ?D" by auto
    with Some show ?thesis unfolding pot_def by (subst sum.remove [of ?D nm]) simp_all
  qed
  with a show ?thesis by simp
qed

lemma pot_insert_cached:
  assumes "bs_cache s nm \<noteq> None"
  shows "pot wt (s\<lparr>bs_config := (bs_config s)(nm \<mapsto> c)\<rparr>) = pot wt s"
  unfolding pot_def using assms by (intro sum.cong) auto

lemma pot_insert_le:
  assumes "finite (dom (bs_config s))"
  shows "pot wt (s\<lparr>bs_config := (bs_config s)(nm \<mapsto> c)\<rparr>) \<le> pot wt s + cfg_cost wt c"
  using pot_insert [OF assms, of nm wt c] pot_insert_cached [of s nm wt c]
  by (cases "bs_cache s nm") auto

lemma pot_cache_le:
  assumes "finite (dom (bs_config s))"
  shows "pot wt (s\<lparr>bs_heap := H, bs_next := N, bs_config := (bs_config s)(nm \<mapsto> cfg),
    bs_cache := (bs_cache s)(nm \<mapsto> i)\<rparr>) \<le> pot wt s"
proof -
  let ?D = "{n \<in> dom (bs_config s). bs_cache s n = None}"
  have "pot wt (s\<lparr>bs_heap := H, bs_next := N, bs_config := (bs_config s)(nm \<mapsto> cfg),
      bs_cache := (bs_cache s)(nm \<mapsto> i)\<rparr>) = (\<Sum>n \<in> ?D - {nm}. cfg_cost wt (the (bs_config s n)))"
    unfolding pot_def by (intro sum.cong) auto
  also have "\<dots> \<le> pot wt s" unfolding pot_def using assms by (intro sum_mono2) auto
  finally show ?thesis .
qed

text \<open>A getter that stays within fuel \<open>k\<close>.\<close>

definition getter_fuel ::
  "('d, 'p, 'srv) build_env \<Rightarrow> (json \<Rightarrow> nat) \<Rightarrow> nat \<Rightarrow> ('p, 'p build_state) net_getter \<Rightarrow> bool" where
  "getter_fuel E wt k G \<longleftrightarrow>
     (\<forall>r p s res s'. bs_inv s \<longrightarrow> bs_halt s = None \<longrightarrow> pot wt s + ref_cost E wt r < k \<longrightarrow>
        G r (cvs_of p) s = (res, s') \<longrightarrow> bs_halt s' = None \<and> pot wt s' \<le> pot wt s + ref_cost E wt r)"

lemma visit_refs_fuel:
  assumes "getter_ok G" "getter_fuel E wt k G" "bs_inv s" "bs_halt s = None"
    and "pot wt s + refs_cost E wt rs < k" "visit_refs (visit_net_ref G) rs s = (res, s')"
  shows "bs_halt s' = None \<and> pot wt s' \<le> pot wt s + refs_cost E wt rs"
  using assms(3-6)
proof (induction rs arbitrary: s res s')
  case (Cons x rs)
  obtain p r where x: "x = (p, r)" by fastforce
  obtain g s1 where g: "G r (cvs_of p) s = (g, s1)" by fastforce
  from getter_okD(1) [OF assms(1) Cons.prems(1) g] have s1: "bs_inv s1" .
  from Cons.prems x have "pot wt s + ref_cost E wt r < k" by (simp add: refs_cost_def)
  with assms(2) Cons.prems g have f: "bs_halt s1 = None" "pot wt s1 \<le> pot wt s + ref_cost E wt r"
    unfolding getter_fuel_def by blast+
  with Cons.prems x have "pot wt s1 + refs_cost E wt rs < k" by (simp add: refs_cost_def)
  note IH = Cons.IH [OF s1 f(1) this]
  obtain q s2 where q: "visit_refs (visit_net_ref G) rs s1 = (q, s2)" by fastforce
  show ?case
  proof (cases g)
    case (Inl e)
    with Cons.prems x g f show ?thesis by (auto simp: visit_net_ref_def refs_cost_def)
  next
    case (Inr nr)
    then obtain n r1 where nr: "g = Inr (n, r1)" by (cases nr) auto
    have "visit_net_ref G (cvs_of p) r s = (Inr (set_value r1 n), s1)"
      using g nr by (simp add: visit_net_ref_def)
    then have "s' = s2" using Cons.prems x q by (cases q) auto
    with IH [OF q] f x show ?thesis by (auto simp: refs_cost_def)
  qed
qed (simp add: refs_cost_def)

lemma item_build_fuel:
  assumes "getter_ok G" "getter_fuel E wt k G" "bs_inv s" "bs_halt s = None"
    and "\<And>c. rs_parse (it_resolver it) v = Inr c \<Longrightarrow> refs_cost E wt (refs_of [] c) \<le> wt v"
    and "pot wt s + wt v < k" "item_build what it G v s = (res, v', s')"
  shows "bs_halt s' = None \<and> pot wt s' \<le> pot wt s + wt v"
proof (cases "rs_parse (it_resolver it) v")
  case (Inl e)
  with assms show ?thesis by (auto simp: item_build_def build_dyn_def)
next
  case (Inr c)
  obtain g s1 where g: "resolve_net c G s = (g, s1)" by fastforce
  have c: "refs_cost E wt (refs_of [] c) \<le> wt v" using assms(5) Inr by blast
  with assms(6) have "pot wt s + refs_cost E wt (refs_of [] c) < k" by simp
  from visit_refs_fuel [OF assms(1-4) this resolve_net_refs [OF g]] c
  have "bs_halt s1 = None \<and> pot wt s1 \<le> pot wt s + wt v" by simp
  moreover have "s' = s1" using assms(7) Inr g
    by (cases g) (auto simp: item_build_def build_dyn_def split: sum.splits prod.splits)
  ultimately show ?thesis by simp
qed

lemma take_cfg_pot:
  assumes "bs_inv s" "bs_cache s nm = None" "take_cfg nm s = (t, s')"
  shows "bs_halt s' = bs_halt s"
    "pot wt s' + (case t of Inl e \<Rightarrow> 0 | Inr cfg \<Rightarrow> cfg_cost wt cfg) = pot wt s"
proof -
  have fin: "finite (dom (bs_config s))" using assms(1) by (simp add: bs_inv_def)
  have "cfg_cost wt placeholder = 0" by (simp add: cfg_cost_def)
  with pot_insert [OF fin assms(2), of wt placeholder] assms(3)
  show "bs_halt s' = bs_halt s"
    "pot wt s' + (case t of Inl e \<Rightarrow> 0 | Inr cfg \<Rightarrow> cfg_cost wt cfg) = pot wt s"
    by (auto simp: take_cfg_def split: option.splits)
qed

lemma build_net_fuel:
  assumes "getter_ok G" "getter_fuel E wt k G" "weights_ok E wt" "bs_inv s" "bs_halt s = None"
    and "pot wt s + cfg_cost wt cfg < Suc k" "build_net E nm cfg G s = (res, cfg', s')"
  shows "bs_halt s' = None \<and> pot wt s' \<le> pot wt s + cfg_cost wt cfg"
proof (cases "rg_net (en_registry E) (nc_type cfg)")
  case None
  with assms show ?thesis by (auto simp: build_net_def reg_get_net_def)
next
  case (Some it)
  with assms(3) have c: "cfg_cost wt cfg = Suc (wt (nc_opt cfg))"
    unfolding weights_ok_def cfg_cost_def by auto
  have p: "refs_cost E wt (refs_of [] c) \<le> wt (nc_opt cfg)"
    if "rs_parse (it_resolver it) (nc_opt cfg) = Inr c" for c
    using assms(3) Some that unfolding weights_ok_def by blast
  obtain r v s1 where b: "item_build ''net'' it G (nc_opt cfg) s = (r, v, s1)" by (metis prod_cases3)
  have "s' = s1" using assms(7) Some b by (simp add: build_net_def reg_get_net_def)
  moreover have "pot wt s + wt (nc_opt cfg) < k" using assms(6) c by simp
  from item_build_fuel [OF assms(1,2,4,5) p this b] c
  have "bs_halt s1 = None \<and> pot wt s1 \<le> pot wt s + cfg_cost wt cfg" by simp
  ultimately show ?thesis by simp
qed

lemma bc_get_net_fuel:
  assumes "builders_ok (en_registry E)" "weights_ok E wt"
  shows "cvs_inv pfx \<Longrightarrow> getter_fuel E wt k (bc_get_net k E pfx)"
proof (induction k arbitrary: pfx)
  case 0
  then show ?case by (simp add: getter_fuel_def)
next
  case (Suc k)
  have "bs_halt s' = None \<and> pot wt s' \<le> pot wt s + ref_cost E wt r"
    if s: "bs_inv s" "bs_halt s = None" "pot wt s + ref_cost E wt r < Suc k"
      and g: "bc_get_net (Suc k) E pfx r (cvs_of p) s = (res, s')" for r p s res s'
  proof -
    have fin: "finite (dom (bs_config s))" using s(1) by (simp add: bs_inv_def)
    obtain q s1 where q: "net_name E pfx r (cvs_of p) s = (q, s1)" by fastforce
    with net_name_ok [OF s(1) Suc.prems] have s1: "bs_inv s1" by blast
    have h1: "bs_halt s1 = None" "pot wt s1 \<le> pot wt s + ref_cost E wt r"
      using q s Suc.prems pot_insert_le [OF fin] iter_collect_strings [of "cvs_of p"]
      by (auto simp: net_name_def ref_cost_def cvs_join_strings elim!: cvs_invE
          split: json.splits outcome.splits sum.splits)
    show ?thesis
    proof (cases "\<exists>nm r1. q = Inr (nm, r1) \<and> bs_cache s1 nm = None")
      case False
      then show ?thesis using g q h1
        by (cases q) (auto split: prod.splits option.splits)
    next
      case True
      then obtain nm r1 where nr: "q = Inr (nm, r1)" "bs_cache s1 nm = None" by blast
      obtain t s2 where t: "take_cfg nm s1 = (t, s2)" by fastforce
      note s2 = take_cfg_pot(1) [OF s1 nr(2) t] take_cfg_pot(2) [OF s1 nr(2) t, of wt]
      have i2: "bs_inv s2" using take_cfg_ok [OF s1 t] by blast
      show ?thesis
      proof (cases t)
        case (Inl e)
        with g q nr t s2 h1 show ?thesis by auto
      next
        case (Inr cfg)
        let ?G = "bc_get_net k E (cvs_from_iter [''net'', nm])"
        obtain b cfg' s3 where b: "build_net E nm cfg ?G s2 = (b, cfg', s3)" by (metis prod_cases3)
        have ok: "getter_ok ?G" by (rule bc_get_net_ok [OF assms(1)]) simp
        have "getter_fuel E wt k ?G" by (rule Suc.IH) simp
        moreover have "bs_halt s2 = None" "pot wt s2 + cfg_cost wt cfg < Suc k"
          using s2 Inr h1 s(3) by auto
        ultimately have f: "bs_halt s3 = None" "pot wt s3 \<le> pot wt s + ref_cost E wt r"
          using build_net_fuel [OF ok _ assms(2) i2 _ _ b] s2 Inr h1 by force+
        have i3: "bs_inv s3" "bs_le s2 s3" using build_net_ok(1,2) [OF ok i2 assms(1) b] by blast+
        then have fin3: "finite (dom (bs_config s3))" "bs_config s3 nm \<noteq> None"
          using t Inr by (auto simp: bs_inv_def bs_le_def take_cfg_def split: option.splits)
        show ?thesis
          using g q nr t Inr b f fin3(2) order_trans [OF pot_cache_le [OF fin3(1)] f(2)]
          by (cases b) (auto simp: put_net_def)
      qed
    qed
  qed
  then show ?case unfolding getter_fuel_def by blast
qed

lemma get_server_net_fuel:
  assumes "builders_ok (en_registry E)" "weights_ok E wt"
  shows "getter_fuel E wt k (get_server_net k E nm)"
  unfolding getter_fuel_def
proof (intro allI impI)
  fix r p s res s'
  assume a: "bs_inv s" "bs_halt s = None" "pot wt s + ref_cost E wt r < k"
    and g: "get_server_net k E nm r (cvs_of p) s = (res, s')"
  let ?G = "bc_get_net k E (cvs_from_iter [''server'', nm])"
  obtain q s1 where q: "?G r (cvs_of p) s = (q, s1)" by fastforce
  have "getter_fuel E wt k ?G" by (rule bc_get_net_fuel [OF assms]) simp
  with a q have "bs_halt s1 = None \<and> pot wt s1 \<le> pot wt s + ref_cost E wt r"
    unfolding getter_fuel_def by blast
  moreover have "s' = s1" using g q by (cases q) (auto simp: get_server_net_def)
  ultimately show "bs_halt s' = None \<and> pot wt s' \<le> pot wt s + ref_cost E wt r" by simp
qed

lemma build_servers_fuel:
  assumes "builders_ok (en_registry E)" "weights_ok E wt"
  shows "bs_inv s \<Longrightarrow> bs_halt s = None \<Longrightarrow>
    pot wt s + sum_list (map (\<lambda>(nm, i). wt (sc_opt i)) cs) < k \<Longrightarrow>
    build_servers k E cs s = (res, cs', s') \<Longrightarrow> bs_halt s' = None"
proof (induction cs arbitrary: s res cs' s')
  case (Cons c cs)
  obtain nm i where c: "c = (nm, i)" by fastforce
  obtain b i' s1 where b: "build_server E nm i (get_server_net k E nm) s = (b, i', s1)" by (metis prod_cases3)
  have s1: "bs_inv s1 \<and> bs_halt s1 = None \<and> pot wt s1 \<le> pot wt s + wt (sc_opt i)"
  proof (cases "rg_server (en_registry E) (sc_type i)")
    case None
    with b Cons.prems show ?thesis by (simp add: build_server_def reg_get_server_def)
  next
    case (Some it)
    obtain r v s2 where ib: "item_build ''server'' it (get_server_net k E nm) (sc_opt i) s = (r, v, s2)"
      by (metis prod_cases3)
    have p: "refs_cost E wt (refs_of [] c) \<le> wt (sc_opt i)"
      if "rs_parse (it_resolver it) (sc_opt i) = Inr c" for c
      using assms(2) Some that unfolding weights_ok_def by blast
    have "pot wt s + wt (sc_opt i) < k" using Cons.prems(3) c by simp
    from item_build_fuel [OF get_server_net_ok [OF assms(1)] get_server_net_fuel [OF assms]
        Cons.prems(1,2) p this ib]
    have "bs_halt s2 = None \<and> pot wt s2 \<le> pot wt s + wt (sc_opt i)" .
    moreover have "bs_inv s2"
      by (rule item_build_ok(1) [OF get_server_net_ok [OF assms(1)] Cons.prems(1) ib])
    moreover have "s1 = s2" using b Some ib by (simp add: build_server_def reg_get_server_def)
    ultimately show ?thesis by simp
  qed
  obtain q rest s3 where q: "build_servers k E cs s1 = (q, rest, s3)" by (metis prod_cases3)
  have "pot wt s1 + sum_list (map (\<lambda>(nm, i). wt (sc_opt i)) cs) < k" using s1 Cons.prems(3) c by simp
  with Cons.IH s1 q have "bs_halt s3 = None" by blast
  with Cons.prems(4) c b q s1 show ?case by (auto split: sum.splits)
qed simp

section \<open>Names and running nets\<close>

lemma bc_get_net_cached:
  assumes "bc_get_net k E pfx r ctx s = (Inr (n, r'), s')"
  shows "\<exists>nm i. represent r' = JString nm \<and> n = RunningNetRef i \<and> bs_cache s' nm = Some i"
proof (cases k)
  case 0
  with assms show ?thesis by (simp add: halt_def)
next
  case (Suc j)
  obtain q s1 where q: "net_name E pfx r ctx s = (q, s1)" by fastforce
  with assms Suc obtain nm r1 where nr: "q = Inr (nm, r1)" by (cases q) auto
  with q have r1: "represent r1 = JString nm"
    by (auto simp: net_name_def halt_def split: json.splits outcome.splits sum.splits)
  with assms Suc q nr show ?thesis
    by (auto simp: put_net_def halt_def split: option.splits prod.splits sum.splits if_splits)
qed

text \<open>A configuration in place whose generated name is already taken by a cached net is not
  built: the reference is given the cached net.\<close>

lemma inline_net_shadowed:
  assumes "net_name E pfx r ctx s = (Inr (nm, r'), s1)" "bs_cache s nm = Some i"
  shows "bc_get_net (Suc k) E pfx r ctx s = (Inr (RunningNetRef i, r'), s1)"
  using assms
  by (auto simp: net_name_def halt_def split: json.splits outcome.splits sum.splits)

lemma init_default_finite: "finite (dom m) \<Longrightarrow> finite (dom (init_default_net eo lo m))"
  by (simp add: init_default_net_def default_net_def)

lemma bs_inv_init: "finite (dom m) \<Longrightarrow> bs_inv (build_init m)"
  by (simp add: bs_inv_def build_init_def heap_ok_def)

lemma pot_init: "pot wt (build_init m) = (\<Sum>nm \<in> dom m. cfg_cost wt (the (m nm)))"
  by (simp add: pot_def build_init_def)

section \<open>Properties\<close>

text \<open>C11: building the entities of a configuration always ends, without a panic: with the fuel
  computed from the configuration it is not the fuel that ends it. The conditions are that
  building a net uses nets its configuration holds, and that the nets configured in place
  inside a configuration weigh no more than the configuration.\<close>

theorem build_terminates:
  assumes "builders_ok (en_registry E)" "weights_ok E wt" "finite (dom (cfg_net cfg))"
    and "build_fuel wt eo lo cfg \<le> k"
  shows "snd (snd (build_entities k E eo lo cfg)) = None"
proof -
  let ?m = "init_default_net eo lo (cfg_net cfg)"
  obtain r cs s where b: "build_servers k E (cfg_server cfg) (build_init ?m) = (r, cs, s)"
    by (metis prod_cases3)
  have "bs_inv (build_init ?m)" by (intro bs_inv_init init_default_finite assms(3))
  moreover have "bs_halt (build_init ?m) = None" by (simp add: build_init_def)
  moreover have "pot wt (build_init ?m) + sum_list (map (\<lambda>(nm, i). wt (sc_opt i)) (cfg_server cfg)) < k"
    using assms(4) by (simp add: pot_init build_fuel_def Let_def)
  ultimately have "bs_halt s = None" using build_servers_fuel [OF assms(1,2) _ _ _ b] by blast
  with b show ?thesis by (simp add: build_entities_def)
qed

text \<open>Every running net of a configuration that was built refers to running nets built before it, and
  each name of the net table is that of its running net.\<close>

lemma built_heap_ok:
  assumes "builders_ok (en_registry E)" "finite (dom (cfg_net cfg))"
    and "fst (build_entities k E eo lo cfg) = Inr ents"
  shows "\<exists>N. heap_ok (re_heap ents) N \<and>
    (\<forall>nm i. re_nets ents nm = Some i \<longrightarrow> i < N \<and> map_option rn_name (re_heap ents i) = Some nm)"
proof -
  let ?m = "init_default_net eo lo (cfg_net cfg)"
  obtain r cs s where b: "build_servers k E (cfg_server cfg) (build_init ?m) = (r, cs, s)"
    by (metis prod_cases3)
  have "bs_inv (build_init ?m)" by (intro bs_inv_init init_default_finite assms(2))
  then have inv: "bs_inv s" using build_servers_ok [OF assms(1) _ b] by blast
  have "re_nets ents = bs_cache s" "re_heap ents = bs_heap s"
    using assms(3) b by (cases r; auto simp: build_entities_def)+
  with inv show ?thesis by (auto simp: bs_inv_def)
qed

text \<open>C7: the nets of a configuration that was built form no cycle: every running net refers to
  running nets built before it, and each name of the net table is that of its running net.
  So every operation of every net of the table returns, and keeps an invariant
  of the outside that the nets of other kinds keep.\<close>

theorem built_nets_return:
  assumes "builders_ok (en_registry E)" "finite (dom (cfg_net cfg))"
    and "fst (build_entities k E eo lo cfg) = Inr ents" "heap_exts_ok I X (re_heap ents)"
  shows "\<exists>N. heap_ok (re_heap ents) N \<and>
    (\<forall>nm i. re_nets ents nm = Some i \<longrightarrow>
       map_option rn_name (re_heap ents i) = Some nm \<and>
       (\<exists>l. \<forall>op a ctx w. I (outer w) \<longrightarrow>
          res_keeps I (net_call l X (re_heap ents) (RunningNetRef i) op a ctx w)))"
proof -
  obtain N where ok: "heap_ok (re_heap ents) N"
    and nets: "\<And>nm i. re_nets ents nm = Some i \<Longrightarrow> i < N \<and> map_option rn_name (re_heap ents i) = Some nm"
    using built_heap_ok [OF assms(1-3)] by blast
  with returns_ref [OF ok assms(4)] show ?thesis unfolding returns_def by blast
qed

section \<open>What the running nets hold\<close>

text \<open>A property of nets that every registered builder gives its nets, when its configuration holds
  running nets.\<close>

definition is_running_ref :: "'p net \<Rightarrow> bool" where
  "is_running_ref n \<longleftrightarrow> (case n of RunningNetRef i \<Rightarrow> True | _ \<Rightarrow> False)"

definition builders_make :: "('p net \<Rightarrow> bool) \<Rightarrow> ('d, 'p, 'srv) registry \<Rightarrow> bool" where
  "builders_make Q R \<longleftrightarrow>
     (\<forall>t it c n. rg_net R t = Some it \<longrightarrow> rs_build (it_resolver it) c = Inr n \<longrightarrow>
        (\<forall>(p, r) \<in> set (refs_of [] c). \<forall>m. res_value r = Some m \<longrightarrow> is_running_ref m) \<longrightarrow> Q n)"

definition heap_all :: "('p net \<Rightarrow> bool) \<Rightarrow> 'p net_heap \<Rightarrow> bool" where
  "heap_all Q H \<longleftrightarrow> (\<forall>i rn. H i = Some rn \<longrightarrow> Q (rn_net rn))"

text \<open>A getter keeps the property of the heap and gives nets with the property \<open>V\<close>.\<close>

definition getter_keeps :: "('p net \<Rightarrow> bool) \<Rightarrow> ('p net \<Rightarrow> bool) \<Rightarrow> ('p, 'p build_state) net_getter \<Rightarrow> bool" where
  "getter_keeps Q V G \<longleftrightarrow>
     (\<forall>r p s res s'. heap_all Q (bs_heap s) \<longrightarrow> G r (cvs_of p) s = (res, s') \<longrightarrow>
        heap_all Q (bs_heap s') \<and> (\<forall>n r'. res = Inr (n, r') \<longrightarrow> V n))"

lemma visit_refs_keeps:
  assumes "getter_keeps Q V G"
  shows "heap_all Q (bs_heap s) \<Longrightarrow> visit_refs (visit_net_ref G) rs s = (res, s') \<Longrightarrow>
    heap_all Q (bs_heap s') \<and>
    (\<forall>rs'. res = Inr rs' \<longrightarrow> (\<forall>(p, r) \<in> set rs'. \<forall>m. res_value r = Some m \<longrightarrow> V m))"
proof (induction rs arbitrary: s res s')
  case (Cons x rs)
  obtain p r where x: "x = (p, r)" by fastforce
  obtain g s1 where g: "G r (cvs_of p) s = (g, s1)" by fastforce
  with assms Cons.prems(1) have s1: "heap_all Q (bs_heap s1)" "\<And>n r'. g = Inr (n, r') \<Longrightarrow> V n"
    unfolding getter_keeps_def by blast+
  show ?case
  proof (cases g)
    case (Inl e)
    with Cons.prems x g s1 show ?thesis by (auto simp: visit_net_ref_def)
  next
    case (Inr nr)
    then obtain n r1 where nr: "g = Inr (n, r1)" by (cases nr) auto
    obtain q s2 where q: "visit_refs (visit_net_ref G) rs s1 = (q, s2)" by fastforce
    note IH = Cons.IH [OF s1(1) q]
    have "visit_net_ref G (cvs_of p) r s = (Inr (r1\<lparr>res_value := Some n\<rparr>), s1)"
      using g nr by (simp add: visit_net_ref_def set_value_def)
    with Cons.prems x q IH s1(2) [OF nr] show ?thesis by (cases q) fastforce+
  qed
qed auto

lemma item_build_keeps:
  assumes "getter_keeps Q V G" "heap_all Q (bs_heap s)" "item_build what it G v s = (res, v', s')"
  shows "heap_all Q (bs_heap s')"
    "res = Inr n \<Longrightarrow> \<exists>c'. rs_build (it_resolver it) c' = Inr n \<and>
       (\<forall>(p, r) \<in> set (refs_of [] c'). \<forall>m. res_value r = Some m \<longrightarrow> V m)"
proof -
  obtain r v1 where b: "build_dyn (it_resolver it) G v s = (r, v1, s')"
    and r: "res = Inr n \<Longrightarrow> r = Inr n"
    using assms(3) by (auto simp: item_build_def split: prod.splits)
  have "heap_all Q (bs_heap s') \<and> (r = Inr n \<longrightarrow> (\<exists>c'. rs_build (it_resolver it) c' = Inr n \<and>
      (\<forall>(p, r) \<in> set (refs_of [] c'). \<forall>m. res_value r = Some m \<longrightarrow> V m)))"
  proof (cases "rs_parse (it_resolver it) v")
    case (Inl e)
    with b assms(2) show ?thesis by (auto simp: build_dyn_def)
  next
    case (Inr c)
    obtain g s2 where g: "resolve_net c G s = (g, s2)" by fastforce
    note ok = visit_refs_keeps [OF assms(1,2) resolve_net_refs [OF g]]
    from Inr b g ok show ?thesis by (cases g) (auto simp: build_dyn_def split: sum.splits)
  qed
  with r show "heap_all Q (bs_heap s')"
    "res = Inr n \<Longrightarrow> \<exists>c'. rs_build (it_resolver it) c' = Inr n \<and>
       (\<forall>(p, r) \<in> set (refs_of [] c'). \<forall>m. res_value r = Some m \<longrightarrow> V m)" by auto
qed

lemma bc_get_net_keeps:
  assumes "builders_make Q (en_registry E)"
  shows "getter_keeps Q is_running_ref (bc_get_net k E pfx)"
proof (induction k arbitrary: pfx)
  case 0
  then show ?case by (simp add: getter_keeps_def halt_def)
next
  case (Suc k)
  have heaps: "net_name E pfx r ctx s = (q, s1) \<Longrightarrow> bs_heap s1 = bs_heap s"
    "take_cfg nm s1 = (t, s2) \<Longrightarrow> bs_heap s2 = bs_heap s1" for pfx r ctx s q s1 nm t s2
    by (auto simp: net_name_def take_cfg_def halt_def
        split: json.splits outcome.splits sum.splits option.splits)
  have "heap_all Q (bs_heap s') \<and> (\<forall>n r'. res = Inr (n, r') \<longrightarrow> is_running_ref n)"
    if s: "heap_all Q (bs_heap s)" and g: "bc_get_net (Suc k) E pfx r (cvs_of p) s = (res, s')" for r p s res s'
  proof -
    obtain q s1 where q: "net_name E pfx r (cvs_of p) s = (q, s1)" by fastforce
    note s1 = heaps(1) [OF q]
    show ?thesis
    proof (cases "\<exists>nm r1 i. q = Inr (nm, r1) \<and> bs_cache s1 nm = None")
      case False
      with g q s s1 show ?thesis
        by (auto simp: is_running_ref_def split: sum.splits option.splits)
    next
      case True
      then obtain nm r1 where nr: "q = Inr (nm, r1)" "bs_cache s1 nm = None" by blast
      obtain t s2 where t: "take_cfg nm s1 = (t, s2)" by fastforce
      let ?G = "bc_get_net k E (cvs_from_iter [''net'', nm])"
      show ?thesis
      proof (cases t)
        case (Inl e)
        with g q nr t s s1 heaps(2) [OF t] show ?thesis by auto
      next
        case (Inr cfg)
        have h2: "heap_all Q (bs_heap s2)" using s s1 heaps(2) [OF t] by simp
        obtain b cfg' s3 where b: "build_net E nm cfg ?G s2 = (b, cfg', s3)" by (metis prod_cases3)
        have h3: "heap_all Q (bs_heap s3) \<and> (\<forall>n. b = Inr n \<longrightarrow> Q n)"
        proof (cases "rg_net (en_registry E) (nc_type cfg)")
          case None
          with b h2 show ?thesis by (auto simp: build_net_def reg_get_net_def)
        next
          case (Some it)
          obtain b1 v where ib: "item_build ''net'' it ?G (nc_opt cfg) s2 = (b1, v, s3)"
            and b1: "\<And>n. b = Inr n \<Longrightarrow> b1 = Inr n"
            using b Some by (auto simp: build_net_def reg_get_net_def split: prod.splits)
          note keeps = item_build_keeps [OF Suc.IH h2 ib]
          have "Q n" if "b1 = Inr n" for n
            using keeps(2) [OF that] assms Some unfolding builders_make_def by blast
          with keeps(1) b1 show ?thesis by blast
        qed
        with g q nr t Inr b show ?thesis
          by (cases b) (auto simp: put_net_def halt_def heap_all_def is_running_ref_def split: if_splits)
      qed
    qed
  qed
  then show ?case unfolding getter_keeps_def by blast
qed

lemma get_server_net_keeps:
  assumes "builders_make Q (en_registry E)"
  shows "getter_keeps Q (\<lambda>_. True) (get_server_net k E nm)"
proof -
  have "heap_all Q (bs_heap s')"
    if "heap_all Q (bs_heap s)" "get_server_net k E nm r (cvs_of p) s = (res, s')" for r p s res s'
    using bc_get_net_keeps [OF assms, of k "cvs_from_iter [''server'', nm]"] that
    unfolding getter_keeps_def get_server_net_def by (fastforce split: prod.splits sum.splits)
  then show ?thesis unfolding getter_keeps_def by blast
qed

lemma build_servers_keeps:
  assumes "builders_make Q (en_registry E)"
  shows "heap_all Q (bs_heap s) \<Longrightarrow> build_servers k E cs s = (res, cs', s') \<Longrightarrow> heap_all Q (bs_heap s')"
proof (induction cs arbitrary: s res cs' s')
  case (Cons c cs)
  obtain nm i where c: "c = (nm, i)" by fastforce
  obtain b i' s1 where b: "build_server E nm i (get_server_net k E nm) s = (b, i', s1)" by (metis prod_cases3)
  have s1: "heap_all Q (bs_heap s1)"
  proof (cases "rg_server (en_registry E) (sc_type i)")
    case None
    with b Cons.prems show ?thesis by (simp add: build_server_def reg_get_server_def)
  next
    case (Some it)
    obtain r v s2 where ib: "item_build ''server'' it (get_server_net k E nm) (sc_opt i) s = (r, v, s2)"
      by (metis prod_cases3)
    with b Some have "s1 = s2" by (simp add: build_server_def reg_get_server_def)
    with item_build_keeps(1) [OF get_server_net_keeps [OF assms] Cons.prems(1) ib] show ?thesis by simp
  qed
  obtain q rest s3 where q: "build_servers k E cs s1 = (q, rest, s3)" by (metis prod_cases3)
  from Cons.IH [OF s1 q] Cons.prems(2) c b q s1 show ?case by (auto split: sum.splits)
qed simp

text \<open>So every running net of a configuration that was built has the property.\<close>

lemma build_entities_make:
  assumes "builders_make Q (en_registry E)" "fst (build_entities k E eo lo cfg) = Inr ents"
  shows "heap_all Q (re_heap ents)"
proof -
  let ?s = "build_init (init_default_net eo lo (cfg_net cfg))"
  obtain r cs s where b: "build_servers k E (cfg_server cfg) ?s = (r, cs, s)" by (metis prod_cases3)
  have "heap_all Q (bs_heap ?s)" by (simp add: heap_all_def build_init_def)
  from build_servers_keeps [OF assms(1) this b] assms(2) b show ?thesis
    by (cases r) (auto simp: build_entities_def)
qed

section \<open>Sharing and circles\<close>

text \<open>Asking again for a net that was built gives the same running net and builds nothing:
  a name stands for one running net, whoever asks and wherever the reference is.\<close>

lemma get_net_shared:
  assumes "bc_get_net k E pfx r ctx s = (Inr (n, r'), s')"
  shows "bc_get_net (Suc l) E pfx' r' ctx' s' = (Inr (n, r'), s')"
proof -
  obtain nm i where "represent r' = JString nm" "n = RunningNetRef i" "bs_cache s' nm = Some i"
    using bc_get_net_cached [OF assms] by blast
  then show ?thesis by (simp add: net_name_def)
qed

text \<open>A net that is being built holds the placeholder in the configuration, so a reference
  back to it, at any depth, is an error that names the circular reference, and leaves no
  running net.\<close>

theorem circular_reference_is_error:
  assumes "rg_net (en_registry E) (nc_type placeholder) = None"
    and "take_cfg nm s = (Inr cfg, s1)" "bs_cache s1 nm = None" "represent r = JString nm"
  shows "fst (bc_get_net (Suc k) E pfx r ctx s1) =
      Inl (Other (''Net type is not loaded: '' @ ''circular reference'')) \<and>
    bs_heap (snd (bc_get_net (Suc k) E pfx r ctx s1)) = bs_heap s1"
proof -
  have "bs_config s1 nm = Some placeholder"
    using assms(2) by (auto simp: take_cfg_def split: option.splits)
  with assms show ?thesis
    by (simp add: net_name_def take_cfg_def build_net_def reg_get_net_def placeholder_def)
qed

section \<open>Witnesses\<close>

text \<open>A registry with the types \<open>alias\<close>, whose options are the reference itself, and \<open>noop\<close>.\<close>

definition demo_alias :: "(unit, bool, bool net) resolver" where
  "demo_alias =
     \<lparr>rs_parse = (\<lambda>j. Inr (CStruct [(''net'', CRef (resolvable_new j))])),
      rs_dump = (\<lambda>c. case c of
         CStruct [(k, CRef r)] \<Rightarrow> Inr (represent r) | _ \<Rightarrow> Inl ''bad''),
      rs_build = (\<lambda>c. case c of
         CStruct [(k, CRef r)] \<Rightarrow>
           (case res_value r of Some n \<Rightarrow> Inr (AliasNet n) | None \<Rightarrow> Inl NotImplemented)
       | _ \<Rightarrow> Inl NotImplemented)\<rparr>"

definition demo_noop :: "(unit, bool, bool net) resolver" where
  "demo_noop = \<lparr>rs_parse = (\<lambda>_. Inr (CEmpty ())), rs_dump = (\<lambda>_. Inr JNull),
                rs_build = (\<lambda>_. Inr NotImplementedNet)\<rparr>"

definition demo_server :: "(unit, bool, unit) resolver" where
  "demo_server = \<lparr>rs_parse = (\<lambda>j. Inr (CRef (resolvable_new j))), rs_dump = (\<lambda>_. Inr JNull),
                  rs_build = (\<lambda>_. Inr ())\<rparr>"

definition demo_env :: "(unit, bool, unit) build_env" where
  "demo_env =
     \<lparr>en_registry = add_registry ''std''
        (add_server ''echo'' demo_server
          (add_net ''alias'' demo_alias (add_net ''noop'' demo_noop plugin_new))) registry_new,
      en_net_of_json = (\<lambda>_. Inl ''not a net''),
      en_debug = (\<lambda>s. s)\<rparr>"

definition demo_cfg :: rd_config where
  "demo_cfg =
     \<lparr>cfg_id = ''demo'',
      cfg_net = [''a'' \<mapsto> \<lparr>nc_type = ''alias'', nc_opt = JString ''noop''\<rparr>],
      cfg_server = [(''s'', \<lparr>sc_type = ''echo'', sc_opt = JString ''a''\<rparr>)]\<rparr>"

lemmas demo_env_simps =
  demo_env_def add_registry_def add_server_def add_net_def plugin_new_def registry_new_def
  items_of_def map_add_def

lemma demo_nets:
  "rg_net (en_registry demo_env) t = Some it \<Longrightarrow>
     it_resolver it = demo_alias \<or> it_resolver it = demo_noop"
  "rg_server (en_registry demo_env) t = Some it' \<Longrightarrow> it_resolver it' = demo_server"
  "rg_net (en_registry demo_env) ''circular reference'' = None"
  by (auto simp: demo_env_simps split: if_splits)

lemma demo_builders_ok: "builders_ok (en_registry demo_env)"
proof -
  have "set (net_refs n) \<subseteq> config_net_refs c" if "rs_build demo_alias c = Inr n" for c n
    using that
    by (fastforce simp: demo_alias_def config_net_refs_def
        split: config.splits list.splits prod.splits option.splits)
  moreover have "net_refs n = []" if "rs_build demo_noop c = Inr n" for c n
    using that by (auto simp: demo_noop_def)
  ultimately show ?thesis unfolding builders_ok_def
    by (metis demo_nets(1) empty_set empty_subsetI)
qed

lemma demo_weights_ok: "weights_ok demo_env (\<lambda>_. 0)"
proof -
  have "ref_cost demo_env (\<lambda>_. 0) r = 0" for r
    by (simp add: ref_cost_def demo_env_def split: json.splits)
  then have "refs_cost demo_env (\<lambda>_. 0) rs = 0" for rs
    by (simp add: refs_cost_def split_def)
  then show ?thesis using demo_nets(3) by (simp add: weights_ok_def placeholder_def)
qed

lemma demo_cfg_finite: "finite (dom (cfg_net demo_cfg))"
  by (simp add: demo_cfg_def)

lemma build_terminates_witness:
  "snd (snd (build_entities (build_fuel (\<lambda>_. 0) JNull JNull demo_cfg) demo_env JNull JNull demo_cfg)) = None"
  by (rule build_terminates [OF demo_builders_ok demo_weights_ok demo_cfg_finite order_refl])

lemma demo_build:
  "\<exists>cfg. build_entities 3 demo_env JNull JNull demo_cfg =
    (Inr \<lparr>re_nets = [''noop'' \<mapsto> 0, ''a'' \<mapsto> 1],
          re_heap = [0 \<mapsto> \<lparr>rn_name = ''noop'', rn_net = NotImplementedNet\<rparr>,
                     1 \<mapsto> \<lparr>rn_name = ''a'', rn_net = AliasNet (RunningNetRef 0)\<rparr>],
          re_servers = [\<lparr>si_name = ''s'', si_server = (), si_type = ''echo'', si_running = sv_new,
                         si_config = JNull\<rparr>]\<rparr>, cfg, None)"
  by (simp add: numeral_3_eq_3 build_entities_def demo_cfg_def build_server_def reg_get_server_def
      demo_env_simps item_build_def build_dyn_def demo_server_def demo_alias_def demo_noop_def
      resolve_net_def visit_net_ref_def get_server_net_def net_name_def resolvable_new_def
      build_init_def init_default_net_def default_net_def take_cfg_def build_net_def
      reg_get_net_def visit_at_def visit_then_def put_net_def set_value_def fun_upd_def)

lemma built_nets_return_witness:
  "\<exists>ents l. fst (build_entities 3 demo_env JNull JNull demo_cfg) = Inr ents \<and>
     re_nets ents ''a'' = Some 1 \<and>
     (\<forall>op a ctx w. res_keeps (\<lambda>_. True) (net_call l demo_ops (re_heap ents) (RunningNetRef 1) op a ctx w))"
proof -
  obtain ents where e: "fst (build_entities 3 demo_env JNull JNull demo_cfg) = Inr ents"
    "re_nets ents ''a'' = Some 1" "heap_exts_ok (\<lambda>_. True) demo_ops (re_heap ents)"
    using demo_build by (auto intro!: that simp: heap_exts_ok_def split: if_splits)
  from built_nets_return [OF demo_builders_ok demo_cfg_finite e(1,3)] e show ?thesis by blast
qed

definition demo_state :: "bool build_state" where
  "demo_state = build_init (init_default_net JNull JNull (cfg_net demo_cfg))"

lemma get_net_shared_witness:
  "\<exists>n r s. fst (bc_get_net 2 demo_env cvs_new (resolvable_new (JString ''a'')) cvs_new demo_state) = Inr (n, r) \<and>
     bc_get_net 1 demo_env cvs_new r cvs_new s = (Inr (n, r), s)"
proof -
  obtain n r s where g: "bc_get_net 2 demo_env cvs_new (resolvable_new (JString ''a'')) cvs_new demo_state =
      (Inr (n, r), s)"
    by (simp add: numeral_2_eq_2 demo_cfg_def demo_env_simps item_build_def build_dyn_def
        demo_alias_def demo_noop_def demo_state_def
        resolve_net_def visit_net_ref_def net_name_def resolvable_new_def
        build_init_def init_default_net_def default_net_def take_cfg_def build_net_def
        reg_get_net_def visit_at_def visit_then_def put_net_def set_value_def)
  from get_net_shared [OF g, of 0 cvs_new cvs_new] g show ?thesis by auto
qed

lemma circular_reference_witness:
  "fst (bc_get_net 1 demo_env cvs_new (resolvable_new (JString ''a'')) cvs_new
     (snd (take_cfg ''a'' demo_state))) =
   Inl (Other (''Net type is not loaded: '' @ ''circular reference''))"
proof -
  obtain c s where t: "take_cfg ''a'' demo_state = (Inr c, s)" and u: "bs_cache s ''a'' = None"
    by (simp add: take_cfg_def demo_state_def build_init_def init_default_net_def default_net_def
        demo_cfg_def)
  have "rg_net (en_registry demo_env) (nc_type placeholder) = None"
    using demo_nets(3) by (simp add: placeholder_def)
  from circular_reference_is_error [OF this t u, of "resolvable_new (JString ''a'')" 0 cvs_new cvs_new] t
  show ?thesis by (simp add: resolvable_new_def del: bc_get_net.simps)
qed

end
