(* ===== verification/RD_Digger.thy ===== *)
theory RD_Digger
  imports RD_Build
begin

text \<open>
  The program as a whole, \<open>RabbitDigger\<close> of \<^verbatim>\<open>src/rabbit_digger.rs\<close>: starting a configuration,
  stopping, joining, replacing a net while running, and following a stream of configurations.

  The state is that of \<open>Inner\<close>. A running server whose \<open>RunningServer\<close> value is dropped is no
  longer managed, but dropping a tokio handle does not end the task: the model remembers what
  was dropped, and the theorems say that nothing is dropped while its task runs.

  An operation that awaits tasks is given how each task ends, \<open>ends\<close>, by server name; a task
  that does not end is \<open>TRun\<close>. \<open>None\<close> means that the operation does not return. Reading and
  writing the configuration as a string is serde's and a parameter.
\<close>

section \<open>State\<close>

record ('p, 'srv) running =
  ru_id :: string
  ru_str :: string
  ru_ents :: "('p, 'srv) running_entities"

datatype ('p, 'srv) rd_state = WaitConfig | Running "('p, 'srv) running"

record ('p, 'srv) rabbit_digger =
  dg_state :: "('p, 'srv) rd_state"
  dg_dropped :: "running_server list"

record ('d, 'p, 'srv) digger_env =
  de_build :: "('d, 'p, 'srv) build_env"
  de_empty :: json
  de_local :: json
  de_to_string :: "rd_config \<Rightarrow> string + string"
  de_from_str :: "string \<Rightarrow> string + rd_config"
  de_fuel :: nat

definition rd_new :: "('p, 'srv) rabbit_digger" where
  "rd_new = \<lparr>dg_state = WaitConfig, dg_dropped = []\<rparr>"

fun rd_running :: "('p, 'srv) rd_state \<Rightarrow> ('p, 'srv) running option" where
  "rd_running WaitConfig = None"
| "rd_running (Running r) = Some r"

section \<open>Awaiting servers\<close>

type_synonym ends = "string \<Rightarrow> server_task"

definition await_stop :: "server_task \<Rightarrow> running_server \<Rightarrow> running_server option" where
  "await_stop e s =
     (case sv_stop (sv_task_end e (snd (sv_stop s))) of
        (Ready _, s') \<Rightarrow> Some s' | (Pending, _) \<Rightarrow> None)"

definition await_join :: "server_task \<Rightarrow> running_server \<Rightarrow> running_server option" where
  "await_join e s =
     (case sv_join (sv_task_end e s) of (Ready _, s') \<Rightarrow> Some s' | (Pending, _) \<Rightarrow> None)"

definition await_start :: "server_task \<Rightarrow> running_server \<Rightarrow> running_server option" where
  "await_start e s =
     (case sv_start (sv_task_end e (snd (sv_stop s))) of
        (Ready _, s') \<Rightarrow> Some s' | (Pending, _) \<Rightarrow> None)"

text \<open>The loops over the servers.\<close>

fun each_server ::
  "(server_task \<Rightarrow> running_server \<Rightarrow> running_server option) \<Rightarrow> ends \<Rightarrow>
   'srv server_info list \<Rightarrow> 'srv server_info list option" where
  "each_server f ends [] = Some []"
| "each_server f ends (i # is) =
     (case f (ends (si_name i)) (si_running i) of
        None \<Rightarrow> None
      | Some s \<Rightarrow> map_option (Cons (i\<lparr>si_running := s\<rparr>)) (each_server f ends is))"

section \<open>Operations\<close>

text \<open>\<open>join\<close>: wait for every server, take the results, drop the entities.\<close>

definition join_one :: "server_task \<Rightarrow> running_server \<Rightarrow> running_server option" where
  "join_one e s = map_option (\<lambda>s'. snd (sv_take_result s')) (await_join e s)"

definition rd_join ::
  "ends \<Rightarrow> ('p, 'srv) rabbit_digger \<Rightarrow> ('p, 'srv) rabbit_digger option" where
  "rd_join ends d =
     (case dg_state d of
        WaitConfig \<Rightarrow> Some d
      | Running r \<Rightarrow>
          (case each_server join_one ends (re_servers (ru_ents r)) of
             None \<Rightarrow> None
           | Some is \<Rightarrow> Some (d\<lparr>dg_state := WaitConfig, dg_dropped := dg_dropped d @ map si_running is\<rparr>)))"

definition rd_stop ::
  "ends \<Rightarrow> ('p, 'srv) rabbit_digger \<Rightarrow> ('p, 'srv) rabbit_digger option" where
  "rd_stop ends d =
     (case dg_state d of
        WaitConfig \<Rightarrow> rd_join ends d
      | Running r \<Rightarrow>
          (case each_server await_stop ends (re_servers (ru_ents r)) of
             None \<Rightarrow> None
           | Some is \<Rightarrow>
               rd_join ends (d\<lparr>dg_state := Running (r\<lparr>ru_ents := (ru_ents r)\<lparr>re_servers := is\<rparr>\<rparr>)\<rparr>)))"

definition rd_start ::
  "('d, 'p, 'srv) digger_env \<Rightarrow> ends \<Rightarrow> rd_config \<Rightarrow> ('p, 'srv) rabbit_digger \<Rightarrow>
   ((error + unit) \<times> ('p, 'srv) rabbit_digger) option" where
  "rd_start E ends cfg d =
     (case build_entities (de_fuel E) (de_build E) (de_empty E) (de_local E) cfg of
        (_, _, Some h) \<Rightarrow> None
      | (Inl e, cfg', None) \<Rightarrow> Some (Inl (WithContext ''Failed to build server'' e), d)
      | (Inr ents, cfg', None) \<Rightarrow>
          (case rd_stop ends d of
             None \<Rightarrow> None
           | Some d1 \<Rightarrow>
               (case each_server await_start ends (re_servers ents) of
                  None \<Rightarrow> None
                | Some is \<Rightarrow>
                    (case de_to_string E cfg' of
                       Inl e \<Rightarrow> Some (Inl (Config e), d1\<lparr>dg_dropped := dg_dropped d1 @ map si_running is\<rparr>)
                     | Inr str \<Rightarrow>
                         Some (Inr (), d1\<lparr>dg_state := Running
                           \<lparr>ru_id = cfg_id cfg', ru_str = str, ru_ents = ents\<lparr>re_servers := is\<rparr>\<rparr>\<rparr>)))))"

definition rd_config_str :: "('p, 'srv) rabbit_digger \<Rightarrow> error + string" where
  "rd_config_str d =
     (case dg_state d of Running r \<Rightarrow> Inr (ru_str r) | WaitConfig \<Rightarrow> Inl (Other ''Not running''))"

definition state_str :: "('p, 'srv) rabbit_digger \<Rightarrow> string" where
  "state_str d = (case dg_state d of WaitConfig \<Rightarrow> ''WaitConfig'' | Running _ \<Rightarrow> ''Running'')"

definition is_running :: "('p, 'srv) rabbit_digger \<Rightarrow> bool" where
  "is_running d \<longleftrightarrow> (case dg_state d of Running _ \<Rightarrow> True | WaitConfig \<Rightarrow> False)"

definition rd_get_net :: "string \<Rightarrow> ('p, 'srv) rabbit_digger \<Rightarrow> error + rid option" where
  "rd_get_net nm d =
     (case dg_state d of
        Running r \<Rightarrow> Inr (re_nets (ru_ents r) nm) | WaitConfig \<Rightarrow> Inl (Other ''Not running''))"

definition rd_get_id :: "('p, 'srv) rabbit_digger \<Rightarrow> string option" where
  "rd_get_id d = (case dg_state d of Running r \<Rightarrow> Some (ru_id r) | WaitConfig \<Rightarrow> None)"

definition rd_get_config :: "(string option \<Rightarrow> 'r) \<Rightarrow> ('p, 'srv) rabbit_digger \<Rightarrow> 'r" where
  "rd_get_config f d = f (map_option ru_str (rd_running (dg_state d)))"

text \<open>The getter of \<open>update_net\<close>: running nets by name, nothing is built.\<close>

definition update_getter :: "(string \<Rightarrow> rid option) \<Rightarrow> ('p, unit) net_getter" where
  "update_getter nets r ctx u =
     (case represent r of
        JString nm \<Rightarrow>
          (case nets nm of
             Some i \<Rightarrow> (Inr (RunningNetRef i, r), u)
           | None \<Rightarrow> (Inl (NotFound nm), u))
      | _ \<Rightarrow> (Inl (Other ''Net not found''), u))"

definition rd_update_net ::
  "('d, 'p, 'srv) digger_env \<Rightarrow> string \<Rightarrow> (net_cfg \<Rightarrow> net_cfg) \<Rightarrow> ('p, 'srv) rabbit_digger \<Rightarrow>
   (error + unit) \<times> ('p, 'srv) rabbit_digger" where
  "rd_update_net E nm update d =
     (case dg_state d of
        WaitConfig \<Rightarrow> (Inl (Other ''Not running''), d)
      | Running r \<Rightarrow>
          (case de_from_str E (ru_str r) of
             Inl e \<Rightarrow> (Inl (Config e), d)
           | Inr cfg \<Rightarrow>
               (case (cfg_net cfg nm, re_nets (ru_ents r) nm) of
                  (Some c, Some i) \<Rightarrow>
                    (case build_net (de_build E) nm (update c) (update_getter (re_nets (ru_ents r))) () of
                       (Inl e, c', _) \<Rightarrow> (Inl e, d)
                     | (Inr n, c', _) \<Rightarrow>
                         (let ents = (ru_ents r)\<lparr>re_heap := update_running_net i n (re_heap (ru_ents r))\<rparr>;
                              cfg' = cfg\<lparr>cfg_net := (cfg_net cfg)(nm \<mapsto> c')\<rparr>
                          in case de_to_string E cfg' of
                               Inl e \<Rightarrow> (Inl (Config e), d\<lparr>dg_state := Running (r\<lparr>ru_ents := ents\<rparr>)\<rparr>)
                             | Inr str \<Rightarrow>
                                 (Inr (), d\<lparr>dg_state := Running (r\<lparr>ru_ents := ents, ru_str := str\<rparr>)\<rparr>)))
                | _ \<Rightarrow> (Inr (), d))))"

section \<open>Following a stream of configurations\<close>

datatype stream_item = NextConfig rd_config | StreamErr error | StreamEnd






section \<open>No task is orphaned\<close>

definition ended :: "running_server \<Rightarrow> bool" where
  "ended s \<longleftrightarrow> TRun \<notin> set (sv_tasks s)"

definition dg_inv :: "('p, 'srv) rabbit_digger \<Rightarrow> bool" where
  "dg_inv d \<longleftrightarrow>
     (\<forall>s \<in> set (dg_dropped d). ended s) \<and>
     (\<forall>r i. dg_state d = Running r \<longrightarrow> i \<in> set (re_servers (ru_ents r)) \<longrightarrow> sv_inv (si_running i))"

text \<open>The states the program can be in: operations in any order, and tasks that end at any time.\<close>

inductive rd_reachable :: "('d, 'p, 'srv) digger_env \<Rightarrow> ('p, 'srv) rabbit_digger \<Rightarrow> bool" for E where
  reach_new: "rd_reachable E rd_new"
| reach_start: "rd_reachable E d \<Longrightarrow> rd_start E ends cfg d = Some (res, d') \<Longrightarrow> rd_reachable E d'"
| reach_stop: "rd_reachable E d \<Longrightarrow> rd_stop ends d = Some d' \<Longrightarrow> rd_reachable E d'"
| reach_join: "rd_reachable E d \<Longrightarrow> rd_join ends d = Some d' \<Longrightarrow> rd_reachable E d'"
| reach_update: "rd_reachable E d \<Longrightarrow> rd_update_net E nm upd d = (res, d') \<Longrightarrow> rd_reachable E d'"
| reach_task: "rd_reachable E d \<Longrightarrow> dg_state d = Running r \<Longrightarrow>
    is = map (\<lambda>i. i\<lparr>si_running := sv_task_end (ends (si_name i)) (si_running i)\<rparr>) (re_servers (ru_ents r)) \<Longrightarrow>
    rd_reachable E (d\<lparr>dg_state := Running (r\<lparr>ru_ents := (ru_ents r)\<lparr>re_servers := is\<rparr>\<rparr>)\<rparr>)"

lemma ended_if: "sv_inv s \<Longrightarrow> sv_state s \<noteq> SRunning \<Longrightarrow> ended s"
  by (auto simp: sv_inv_def ended_def split: list.splits)

lemma sv_inv_task_end: "sv_inv s \<Longrightarrow> sv_inv (sv_task_end e s)"
  using sv_inv_step [of s "SvTaskEnd e"] by simp

lemma await_stop_ok:
  assumes "sv_inv s" "await_stop e s = Some s'"
  shows "sv_inv s' \<and> sv_state s' \<noteq> SRunning"
proof -
  let ?t = "sv_task_end e (snd (sv_stop s))"
  have t: "sv_inv ?t" using assms(1) by (simp add: sv_inv_task_end sv_stop_inv)
  obtain p u where p: "sv_stop ?t = (p, u)" by fastforce
  with assms(2) have "p = Ready ()" "u = s'" by (auto simp: await_stop_def split: poll.splits)
  with p sv_stop_inv [OF t] sv_stop_ready [of ?t "()" s'] show ?thesis by simp
qed

lemma join_one_ok:
  assumes "sv_inv s" "join_one e s = Some s'"
  shows "sv_inv s' \<and> ended s'"
proof -
  have t: "sv_inv (sv_task_end e s)" using assms(1) by (rule sv_inv_task_end)
  obtain u where u: "sv_join (sv_task_end e s) = (Ready (), u)" "s' = snd (sv_take_result u)"
    using assms(2) by (auto simp: join_one_def await_join_def split: prod.splits poll.splits)
  have "sv_inv u" using sv_join_inv [OF t] u(1) by simp
  moreover have "sv_state u \<noteq> SRunning"
    using u(1) by (auto simp: sv_join_def split: if_splits list.splits option.splits)
  ultimately have "sv_inv u" "ended u" "sv_inv s'"
    using sv_inv_step [of u SvTake] u(2) by (auto intro: ended_if)
  then show ?thesis using u(2) by (auto simp: ended_def sv_take_result_def split: server_state.splits)
qed

lemma each_server_ok:
  assumes "\<And>e s s'. P s \<Longrightarrow> f e s = Some s' \<Longrightarrow> Q s'"
  shows "each_server f ends is = Some is' \<Longrightarrow> \<forall>i \<in> set is. P (si_running i) \<Longrightarrow>
    (\<forall>i \<in> set is'. Q (si_running i)) \<and> map si_name is' = map si_name is"
proof (induction "is" arbitrary: is')
  case (Cons i "is")
  from Cons.prems(1) obtain s js where f: "f (ends (si_name i)) (si_running i) = Some s"
    and js: "each_server f ends is = Some js" and is': "is' = i\<lparr>si_running := s\<rparr> # js"
    by (auto split: option.splits)
  have "Q s" using assms [OF _ f] Cons.prems(2) by simp
  with Cons.IH [OF js] Cons.prems(2) is' show ?case by simp
qed simp

lemma rd_join_ok:
  assumes "dg_inv d" "rd_join ends d = Some d'"
  shows "dg_inv d' \<and> dg_state d' = WaitConfig"
proof (cases "dg_state d")
  case WaitConfig
  with assms show ?thesis by (simp add: rd_join_def)
next
  case (Running r)
  with assms(2) obtain js where j: "each_server join_one ends (re_servers (ru_ents r)) = Some js"
    "d' = d\<lparr>dg_state := WaitConfig, dg_dropped := dg_dropped d @ map si_running js\<rparr>"
    by (auto simp: rd_join_def split: option.splits)
  have "\<forall>i \<in> set (re_servers (ru_ents r)). sv_inv (si_running i)"
    using assms(1) Running by (simp add: dg_inv_def)
  with each_server_ok [of sv_inv join_one "\<lambda>s. sv_inv s \<and> ended s", OF join_one_ok j(1)]
  have "\<forall>i \<in> set js. ended (si_running i)" by simp
  with assms(1) j(2) show ?thesis by (auto simp: dg_inv_def)
qed

lemma rd_stop_ok:
  assumes "dg_inv d" "rd_stop ends d = Some d'"
  shows "dg_inv d' \<and> dg_state d' = WaitConfig"
proof (cases "dg_state d")
  case WaitConfig
  with assms(2) have "rd_join ends d = Some d'" by (simp add: rd_stop_def)
  with assms(1) show ?thesis by (rule rd_join_ok)
next
  case (Running r)
  with assms(2) obtain js where j: "each_server await_stop ends (re_servers (ru_ents r)) = Some js"
    "rd_join ends (d\<lparr>dg_state := Running (r\<lparr>ru_ents := (ru_ents r)\<lparr>re_servers := js\<rparr>\<rparr>)\<rparr>) = Some d'"
    by (auto simp: rd_stop_def split: option.splits)
  have "\<forall>i \<in> set (re_servers (ru_ents r)). sv_inv (si_running i)"
    using assms(1) Running by (simp add: dg_inv_def)
  with each_server_ok [of sv_inv await_stop "\<lambda>s. sv_inv s \<and> sv_state s \<noteq> SRunning", OF await_stop_ok j(1)]
  have "\<forall>i \<in> set js. sv_inv (si_running i)" by simp
  with assms(1) have "dg_inv (d\<lparr>dg_state := Running (r\<lparr>ru_ents := (ru_ents r)\<lparr>re_servers := js\<rparr>\<rparr>)\<rparr>)"
    by (auto simp: dg_inv_def)
  then show ?thesis using rd_join_ok j(2) by blast
qed

lemma build_servers_new:
  "build_servers k E cs s = (Inr infos, cs', s') \<Longrightarrow>
   (\<forall>i \<in> set infos. si_running i = sv_new) \<and> map si_name infos = map fst cs"
  by (induction k E cs s arbitrary: infos cs' s' rule: build_servers.induct)
     (auto split: prod.splits sum.splits)

lemma build_entities_new:
  assumes "build_entities k E eo lo cfg = (Inr ents, cfg', h)"
  shows "(\<forall>i \<in> set (re_servers ents). si_running i = sv_new) \<and>
    map si_name (re_servers ents) = map fst (cfg_server cfg)"
proof -
  obtain r cs s where b:
    "build_servers k E (cfg_server cfg) (build_init (init_default_net eo lo (cfg_net cfg))) = (r, cs, s)"
    by (metis prod_cases3)
  with assms obtain infos where "r = Inr infos" "re_servers ents = infos"
    by (cases r) (auto simp: build_entities_def)
  with b build_servers_new show ?thesis by metis
qed

text \<open>Starting a new server spawns its one task.\<close>

definition one_task :: "running_server \<Rightarrow> bool" where
  "one_task s \<longleftrightarrow> sv_state s = SRunning \<and> sv_tasks s = [TRun]"

lemma await_start_new: "await_start e sv_new = Some s \<Longrightarrow> one_task s"
  by (auto simp: await_start_def sv_ops sv_new_def one_task_def)

lemma one_task_inv: "one_task s \<Longrightarrow> sv_inv s"
  by (simp add: one_task_def sv_inv_def)

lemma rd_start_cases:
  assumes "rd_start E ends cfg d = Some (res, d')" "dg_inv d" "\<forall>c. is_ok (de_to_string E c)"
  shows "(\<exists>e. res = Inl (WithContext ''Failed to build server'' e) \<and> d' = d) \<or>
    (\<exists>d1 r. res = Inr () \<and> dg_inv d1 \<and> dg_state d1 = WaitConfig \<and> d' = d1\<lparr>dg_state := Running r\<rparr> \<and>
       (\<forall>i \<in> set (re_servers (ru_ents r)). one_task (si_running i)) \<and>
       map si_name (re_servers (ru_ents r)) = map fst (cfg_server cfg))"
proof -
  obtain b cfg' h where b: "build_entities (de_fuel E) (de_build E) (de_empty E) (de_local E) cfg = (b, cfg', h)"
    by (metis prod_cases3)
  from assms(1) b have h: "h = None" by (cases h; cases b) (auto simp: rd_start_def)
  show ?thesis
  proof (cases b)
    case (Inl e)
    with assms(1) b h show ?thesis by (auto simp: rd_start_def)
  next
    case (Inr ents)
    obtain str where str: "de_to_string E cfg' = Inr str" using assms(3) by (auto simp: is_ok_iff)
    with assms(1) b h Inr obtain d1 js where d1: "rd_stop ends d = Some d1"
      and j: "each_server await_start ends (re_servers ents) = Some js"
      and r: "res = Inr ()"
        "d' = d1\<lparr>dg_state := Running \<lparr>ru_id = cfg_id cfg', ru_str = str, ru_ents = ents\<lparr>re_servers := js\<rparr>\<rparr>\<rparr>"
      by (auto simp: rd_start_def split: option.splits)
    have "build_entities (de_fuel E) (de_build E) (de_empty E) (de_local E) cfg = (Inr ents, cfg', None)"
      using b h Inr by simp
    note new = build_entities_new [OF this]
    have "(\<forall>i \<in> set js. one_task (si_running i)) \<and> map si_name js = map si_name (re_servers ents)"
      by (rule each_server_ok [of "\<lambda>s. s = sv_new" await_start one_task, OF _ j])
         (use new await_start_new in auto)
    with rd_stop_ok [OF assms(2) d1] r new show ?thesis
      by (intro disjI2 exI [of _ d1]
          exI [of _ "\<lparr>ru_id = cfg_id cfg', ru_str = str, ru_ents = ents\<lparr>re_servers := js\<rparr>\<rparr>"]) auto
  qed
qed

lemma rd_update_net_servers:
  assumes "rd_update_net E nm upd d = (res, d')"
  shows "dg_dropped d' = dg_dropped d \<and>
    (d' = d \<or> (\<exists>r r'. dg_state d = Running r \<and> dg_state d' = Running r' \<and>
       re_servers (ru_ents r') = re_servers (ru_ents r)))"
  using assms
  by (auto simp: rd_update_net_def Let_def split: rd_state.splits sum.splits option.splits prod.splits)

lemma dg_inv_reachable:
  assumes "rd_reachable E d" "\<forall>c. is_ok (de_to_string E c)"
  shows "dg_inv d"
  using assms(1)
proof (induction rule: rd_reachable.induct)
  case reach_new
  then show ?case by (simp add: dg_inv_def rd_new_def)
next
  case (reach_start d ends cfg res d')
  from rd_start_cases [OF reach_start.hyps(2) reach_start.IH assms(2)] reach_start.IH show ?case
    by (auto simp: dg_inv_def intro: one_task_inv)
next
  case (reach_update d nm upd res d')
  from rd_update_net_servers [OF reach_update.hyps(2)] reach_update.IH show ?case
    by (auto simp: dg_inv_def)
next
  case (reach_task d r js ends)
  then show ?case by (auto simp: dg_inv_def sv_inv_task_end)
qed (use rd_join_ok rd_stop_ok in blast)+


lemma await_stop_returns:
  assumes "sv_inv s" "e \<noteq> TRun"
  shows "\<exists>s'. await_stop e s = Some s'"
  using assms
  by (cases "sv_tasks s"; cases "hd (sv_tasks s)"; cases e)
     (auto simp: await_stop_def sv_ops sv_inv_def split: if_splits)

lemma join_one_returns: "sv_state s \<noteq> SRunning \<Longrightarrow> \<exists>s'. join_one e s = Some s'"
  by (auto simp: join_one_def await_join_def sv_join_def sv_task_end_def
      split: list.splits server_task.splits)

lemma each_server_returns:
  assumes "\<And>i. i \<in> set is \<Longrightarrow> \<exists>s'. f (ends (si_name i)) (si_running i) = Some s'"
  shows "\<exists>is'. each_server f ends is = Some is'"
  using assms
proof (induction "is")
  case (Cons i "is")
  obtain s where "f (ends (si_name i)) (si_running i) = Some s" using Cons.prems by force
  moreover obtain js where "each_server f ends is = Some js" using Cons by force
  ultimately show ?case by simp
qed simp

section \<open>Properties\<close>





text \<open>C35: a stop returns as soon as every task has ended, in whatever way, and leaves the program
  waiting for a configuration.\<close>

theorem stop_returns:
  assumes "rd_reachable E d" "\<forall>c. is_ok (de_to_string E c)" "\<forall>nm. ends nm \<noteq> TRun"
  shows "\<exists>d'. rd_stop ends d = Some d' \<and> state_str d' = ''WaitConfig''"
proof -
  note inv = dg_inv_reachable [OF assms(1,2)]
  have "\<exists>d'. rd_stop ends d = Some d'"
  proof (cases "dg_state d")
    case WaitConfig
    then show ?thesis by (simp add: rd_stop_def rd_join_def)
  next
    case (Running r)
    have i: "\<forall>i \<in> set (re_servers (ru_ents r)). sv_inv (si_running i)"
      using inv Running by (simp add: dg_inv_def)
    have "\<exists>s'. await_stop (ends (si_name i)) (si_running i) = Some s'"
      if "i \<in> set (re_servers (ru_ents r))" for i
      using i that assms(3) await_stop_returns by blast
    then obtain js where j: "each_server await_stop ends (re_servers (ru_ents r)) = Some js"
      using each_server_returns [of "re_servers (ru_ents r)" await_stop ends] by blast
    with each_server_ok [of sv_inv await_stop "\<lambda>s. sv_inv s \<and> sv_state s \<noteq> SRunning", OF await_stop_ok j] i
    have "\<forall>i \<in> set js. sv_state (si_running i) \<noteq> SRunning" by simp
    then have "\<exists>s'. join_one (ends (si_name i)) (si_running i) = Some s'" if "i \<in> set js" for i
      using that join_one_returns by blast
    then obtain ks where "each_server join_one ends js = Some ks"
      using each_server_returns [of js join_one ends] by blast
    with Running j show ?thesis by (simp add: rd_stop_def rd_join_def)
  qed
  with rd_stop_ok [OF inv] show ?thesis by (auto simp: state_str_def)
qed

section \<open>Witnesses\<close>

definition demo_dg :: "(unit, bool, unit) digger_env" where
  "demo_dg = \<lparr>de_build = demo_env, de_empty = JNull, de_local = JNull,
     de_to_string = (\<lambda>_. Inr []), de_from_str = (\<lambda>_. Inr demo_cfg), de_fuel = 3\<rparr>"

lemma demo_to_string: "\<forall>c. is_ok (de_to_string demo_dg c)"
  by (simp add: demo_dg_def)

lemma demo_start: "\<exists>d'. rd_start demo_dg ends demo_cfg rd_new = Some (Inr (), d')"
  using demo_build
  by (auto simp: rd_start_def demo_dg_def rd_new_def rd_stop_def rd_join_def await_start_def sv_ops sv_new_def)



lemma stop_returns_witness:
  "\<exists>(d :: (bool, unit) rabbit_digger) d'. is_running d \<and> rd_stop (\<lambda>_. TCancelled) d = Some d' \<and> state_str d' = ''WaitConfig''"
proof -
  obtain d where d: "rd_start demo_dg (\<lambda>_. TCancelled) demo_cfg rd_new = Some (Inr (), d)"
    using demo_start by blast
  have "is_running d"
    using d by (auto simp: rd_start_def is_running_def split: prod.splits sum.splits option.splits)
  moreover have "rd_reachable demo_dg d" using d by (rule reach_start [OF reach_new])
  then have "\<exists>d'. rd_stop (\<lambda>_. TCancelled) d = Some d' \<and> state_str d' = ''WaitConfig''"
    by (rule stop_returns [OF _ demo_to_string]) simp
  ultimately show ?thesis by blast
qed





end
