(* ===== verification/RD_Resolve.thy ===== *)
theory RD_Resolve
  imports RD_Net
begin

text \<open>
  The net that resolves domains before it connects, \<^verbatim>\<open>rd-std/src/builtin/resolve.rs\<close>.

  It is a net with two inner nets, the one it connects with (index 0) and the one it resolves
  with (index 1), and its operations are programs over the calls of \<^verbatim>\<open>RD_Net\<close>. A host lookup
  returns an object like every operation; \<open>addrs_of\<close> are the addresses it holds. The
  operations it passes on unchanged make it a \<open>CombineNet\<close> of itself and its inner net.

  The reference is \<open>all_fail\<close>, a sequence of attempts that all fail: a call succeeds with the
  first address that does, and the error is that of the last attempt.
\<close>

section \<open>ResolveNet\<close>

record resolve_config =
  rc_ipv4 :: bool
  rc_ipv6 :: bool

definition family_enabled :: "resolve_config \<Rightarrow> socket_addr \<Rightarrow> bool" where
  "family_enabled cfg i \<longleftrightarrow> (rc_ipv4 cfg \<and> is_ipv4 i) \<or> (rc_ipv6 cfg \<and> \<not> is_ipv4 i)"

definition could_not_resolve :: error where
  "could_not_resolve = IO (IoCustom KindNotFound ''could not resolve to any address'')"

text \<open>The loop of \<open>tcp_connect\<close> and \<open>udp_bind\<close>, which differ in the operation only.\<close>

fun try_addrs ::
  "net_op \<Rightarrow> socket_addr list \<Rightarrow> error option \<Rightarrow> conn_context \<Rightarrow> 'x \<Rightarrow> ('h, 'x) prog" where
  "try_addrs op [] last_err ctx x =
     Done (Inl (case last_err of Some e \<Rightarrow> e | None \<Rightarrow> could_not_resolve)) ctx x"
| "try_addrs op (s # ss) last_err ctx x =
     Call 0 op (SocketAddr s) ctx x
       (\<lambda>(r, ctx', x'). case r of
          Inr h \<Rightarrow> Done (Inr h) ctx' x'
        | Inl e \<Rightarrow> try_addrs op ss (Some e) ctx' x')"

text \<open>The resolver of \<open>ResolveNet::new\<close> inside \<open>Address::resolve\<close>. A host lookup takes no
  context; the error of a lookup passes through \<open>io::Error\<close>.\<close>

definition resolve_prog ::
  "('h item \<Rightarrow> socket_addr list) \<Rightarrow> resolve_config \<Rightarrow> net_op \<Rightarrow> address \<Rightarrow> conn_context \<Rightarrow> 'x \<Rightarrow>
   ('h, 'x) prog" where
  "resolve_prog addrs_of cfg op a ctx x =
     (case normalize a of
        Inl s \<Rightarrow> try_addrs op [s] None ctx x
      | Inr (domain, port) \<Rightarrow>
          Call 1 LookupHost (Domain domain port) ctx x
            (\<lambda>(r, _, x'). case r of
               Inl e \<Rightarrow> Done (Inl (IO (to_io_err e))) ctx x'
             | Inr h \<Rightarrow> try_addrs op (filter (family_enabled cfg) (addrs_of h)) None ctx x'))"

definition resolve_provides :: "net_op \<Rightarrow> bool" where
  "resolve_provides op \<longleftrightarrow> op = TcpConnect \<or> op = UdpBind"

definition resolving_net :: "'p \<Rightarrow> 'p net \<Rightarrow> 'p net \<Rightarrow> 'p net" where
  "resolving_net p n r = CombineNet (Ext p [n, r]) n (Ext p [n, r]) n"

section \<open>Attempts\<close>

text \<open>\<open>all_fail call ctx w ss errs ctx' w'\<close>: calling with each of \<open>ss\<close> in turn, in the context and
  world the previous attempt left, fails with the errors \<open>errs\<close>.\<close>

inductive all_fail ::
  "(address \<Rightarrow> conn_context \<Rightarrow> 'x world \<Rightarrow> ('h, 'x) call_result option) \<Rightarrow>
   conn_context \<Rightarrow> 'x world \<Rightarrow> socket_addr list \<Rightarrow> error list \<Rightarrow> conn_context \<Rightarrow> 'x world \<Rightarrow> bool"
  for call where
  none_failed: "all_fail call ctx w [] [] ctx w"
| one_failed: "call (SocketAddr s) ctx w = Some (Inl e, ctx1, w1) \<Longrightarrow>
    all_fail call ctx1 w1 ss errs ctx2 w2 \<Longrightarrow> all_fail call ctx w (s # ss) (e # errs) ctx2 w2"

inductive_simps all_fail_Nil [simp]: "all_fail call ctx w [] errs ctx' w'"
inductive_simps all_fail_Cons: "all_fail call ctx w (s # ss) errs ctx' w'"

definition first_success ::
  "(address \<Rightarrow> conn_context \<Rightarrow> 'x world \<Rightarrow> ('h, 'x) call_result option) \<Rightarrow> socket_addr list \<Rightarrow>
   conn_context \<Rightarrow> 'x world \<Rightarrow> 'h item \<times> conn_context \<times> 'x world \<Rightarrow> bool" where
  "first_success call ss ctx w res \<longleftrightarrow>
     (\<exists>pre s post errs ctx1 w1. ss = pre @ s # post \<and> all_fail call ctx w pre errs ctx1 w1 \<and>
        call (SocketAddr s) ctx1 w1 = Some (Inr (fst res), snd res))"

lemma first_success_Nil [simp]: "\<not> first_success call [] ctx w res"
  by (simp add: first_success_def)

lemma first_success_Cons:
  "first_success call (s # ss) ctx w res \<longleftrightarrow>
     call (SocketAddr s) ctx w = Some (Inr (fst res), snd res) \<or>
     (\<exists>e ctx1 w1. call (SocketAddr s) ctx w = Some (Inl e, ctx1, w1) \<and>
        first_success call ss ctx1 w1 res)"
  (is "?l \<longleftrightarrow> ?a \<or> ?b")
proof
  assume ?l
  then obtain pre t post errs ctx1 w1 where *: "s # ss = pre @ t # post"
    "all_fail call ctx w pre errs ctx1 w1" "call (SocketAddr t) ctx1 w1 = Some (Inr (fst res), snd res)"
    unfolding first_success_def by blast
  show "?a \<or> ?b"
  proof (cases pre)
    case Nil
    with * show ?thesis by auto
  next
    case (Cons u us)
    with * obtain e ctx2 w2 errs' where "call (SocketAddr s) ctx w = Some (Inl e, ctx2, w2)"
      "all_fail call ctx2 w2 us errs' ctx1 w1" "ss = us @ t # post"
      by (auto simp: all_fail_Cons)
    with *(3) have ?b unfolding first_success_def by blast
    then show ?thesis ..
  qed
next
  assume "?a \<or> ?b"
  then show ?l
  proof
    assume ?a
    then show ?l unfolding first_success_def by (intro exI [of _ "[]"]) auto
  next
    assume ?b
    then obtain e ctx1 w1 pre t post errs ctx2 w2
      where "call (SocketAddr s) ctx w = Some (Inl e, ctx1, w1)" "ss = pre @ t # post"
        "all_fail call ctx1 w1 pre errs ctx2 w2"
        "call (SocketAddr t) ctx2 w2 = Some (Inr (fst res), snd res)"
      unfolding first_success_def by blast
    then show ?l unfolding first_success_def
      by (intro exI [of _ "s # pre"] exI [of _ t] exI [of _ post] exI [of _ "e # errs"]
          exI [of _ ctx2] exI [of _ w2]) (auto intro: one_failed)
  qed
qed

lemma try_addrs_success:
  "run_prog cb (try_addrs op ss le ctx (outer w)) w = Some (Inr i, ctx', w') \<longleftrightarrow>
     first_success (cb 0 op) ss ctx w (i, ctx', w')"
  by (induction ss arbitrary: le ctx w)
     (auto simp: first_success_Cons split: option.splits sum.splits)

text \<open>Accumulating the last error is taking the last of the errors.\<close>

lemma last_error_step:
  "(\<exists>errs. (\<exists>es. errs = d # es \<and> P es) \<and> e = (if errs = [] then f else last errs)) \<longleftrightarrow>
   (\<exists>es. P es \<and> e = (if es = [] then d else last es))"
  (is "(\<exists>errs. ?Q errs) \<longleftrightarrow> (\<exists>es. ?R es)")
proof
  assume "\<exists>errs. ?Q errs"
  then obtain es where "P es" "e = last (d # es)" by force
  then have "?R es" by simp
  then show "\<exists>es. ?R es" ..
next
  assume "\<exists>es. ?R es"
  then obtain es where "?R es" ..
  then have "?Q (d # es)" by simp
  then show "\<exists>errs. ?Q errs" ..
qed

lemma try_addrs_failure:
  "run_prog cb (try_addrs op ss le ctx (outer w)) w = Some (Inl e, ctx', w') \<longleftrightarrow>
     (\<exists>errs. all_fail (cb 0 op) ctx w ss errs ctx' w' \<and>
        e = (if errs = [] then (case le of Some e \<Rightarrow> e | None \<Rightarrow> could_not_resolve) else last errs))"
proof (induction ss arbitrary: le ctx w)
  case (Cons s ss)
  show ?case
  proof (cases "cb 0 op (SocketAddr s) ctx w")
    case (Some res)
    obtain r ctx1 w1 where res: "res = (r, ctx1, w1)" by (cases res)
    show ?thesis
    proof (cases r)
      case (Inl d)
      have r1: "run_prog cb (try_addrs op (s # ss) le ctx (outer w)) w =
          run_prog cb (try_addrs op ss (Some d) ctx1 (outer w1)) w1"
        using Some res Inl by simp
      have r2: "all_fail (cb 0 op) ctx w (s # ss) errs ctx' w' \<longleftrightarrow>
          (\<exists>errs1. errs = d # errs1 \<and> all_fail (cb 0 op) ctx1 w1 ss errs1 ctx' w')" for errs
        unfolding all_fail_Cons using Some res Inl by simp
      show ?thesis unfolding r1 r2 Cons.IH [of "Some d" ctx1 w1] last_error_step option.case ..
    qed (use Some res in \<open>auto simp: all_fail_Cons\<close>)
  qed (auto simp: all_fail_Cons)
qed auto

section \<open>Properties\<close>

text \<open>C30: Connecting to a domain (or binding at one) through a resolving net. The domain is looked
  up once; an error of the lookup is the result. Otherwise the addresses of the enabled
  families are tried one after the other, in the order of the answer: the call succeeds exactly
  when one of the attempts does, with the first that succeeds and after all before it failed;
  it fails exactly when all attempts fail, with the last error, or with "could not resolve" when
  there is no address to try.\<close>

theorem resolve_tries_in_order:
  assumes "ext_provides E p = resolve_provides" "ext_prog E p = resolve_prog addrs_of cfg"
    and "resolve_provides op" "normalize a = Inr (d, q)"
    and lookup: "net_call k E H r LookupHost (Domain d q) ctx w = Some (l, ctx0, w0)"
  shows "case l of
      Inl e \<Rightarrow> net_call (Suc k) E H (resolving_net p n r) op a ctx w = Some (Inl (IO (to_io_err e)), ctx, w0)
    | Inr h \<Rightarrow>
        (let ss = filter (family_enabled cfg) (addrs_of h)
         in (\<forall>i ctx' w'. net_call (Suc k) E H (resolving_net p n r) op a ctx w = Some (Inr i, ctx', w') \<longleftrightarrow>
               first_success (net_call k E H n op) ss ctx w0 (i, ctx', w')) \<and>
            (\<forall>e ctx' w'. net_call (Suc k) E H (resolving_net p n r) op a ctx w = Some (Inl e, ctx', w') \<longleftrightarrow>
               (\<exists>errs. all_fail (net_call k E H n op) ctx w0 ss errs ctx' w' \<and>
                  e = (if errs = [] then could_not_resolve else last errs))))"
proof -
  let ?cb = "\<lambda>i. if i < length [n, r] then net_call k E H ([n, r] ! i) else (\<lambda>_ _ _ _. None)"
  have c: "net_call (Suc k) E H (resolving_net p n r) op a ctx w =
      run_prog ?cb (resolve_prog addrs_of cfg op a ctx (outer w)) w"
    using assms(1-3) by (auto simp: resolving_net_def resolve_provides_def)
  show ?thesis
  proof (cases l)
    case (Inl e)
    with lookup assms(4) show ?thesis unfolding c by (simp add: resolve_prog_def)
  next
    case (Inr h)
    have r: "run_prog ?cb (resolve_prog addrs_of cfg op a ctx (outer w)) w =
        run_prog ?cb (try_addrs op (filter (family_enabled cfg) (addrs_of h)) None ctx (outer w0)) w0"
      using lookup assms(4) Inr by (simp add: resolve_prog_def)
    show ?thesis
      using try_addrs_success [of ?cb op _ None ctx w0] try_addrs_failure [of ?cb op _ None ctx w0]
      unfolding c r Inr by (simp add: Let_def)
  qed
qed

text \<open>A literal address is not looked up, and the enabled families do not apply to it.\<close>

lemma resolve_literal:
  assumes "ext_provides E p = resolve_provides" "ext_prog E p = resolve_prog addrs_of cfg"
    and "resolve_provides op" "normalize a = Inl s"
  shows "net_call (Suc k) E H (resolving_net p n r) op a ctx w = net_call k E H n op (SocketAddr s) ctx w"
proof -
  have "net_call (Suc k) E H (resolving_net p n r) op a ctx w =
      (case net_call k E H n op (SocketAddr s) ctx w of
         None \<Rightarrow> None
       | Some (Inl e, ctx', w') \<Rightarrow> Some (Inl e, ctx', w')
       | Some (Inr h, ctx', w') \<Rightarrow> Some (Inr h, ctx', w'))"
    using assms by (auto simp: resolving_net_def resolve_provides_def resolve_prog_def
        split: option.splits sum.splits)
  then show ?thesis by (auto split: option.splits sum.splits)
qed

text \<open>The operations that are not resolved are those of the inner net.\<close>

lemma resolve_passes_on:
  assumes "\<not> resolve_provides op"
  shows "net_call k E H (resolving_net p n r) op = net_call k E H n op"
  using assms by (cases op) (simp_all add: resolving_net_def resolve_provides_def combine_transparent)

section \<open>Witness\<close>

text \<open>A net that resolves every domain to an IPv6 and two IPv4 addresses, and connects to port 80
  of the second IPv4 address only, behind a resolving net with IPv6 disabled.\<close>

datatype demo_part = Resolving | Backend

definition demo_v4 :: "u8 \<Rightarrow> socket_addr" where
  "demo_v4 b = SV4 (Ipv4 10 0 0 b) 80"

definition demo_cfg :: resolve_config where
  "demo_cfg = \<lparr>rc_ipv4 = True, rc_ipv6 = False\<rparr>"

definition demo_addrs :: "socket_addr list item \<Rightarrow> socket_addr list" where
  "demo_addrs h = (case h of Inner ss \<Rightarrow> ss | _ \<Rightarrow> [])"

definition demo_resolve_ops :: "(demo_part, socket_addr list, unit) ext_ops" where
  "demo_resolve_ops =
     \<lparr>ext_provides = (\<lambda>p. case p of Resolving \<Rightarrow> resolve_provides | Backend \<Rightarrow> (\<lambda>_. True)),
      ext_prog = (\<lambda>p. case p of
         Resolving \<Rightarrow> resolve_prog demo_addrs demo_cfg
       | Backend \<Rightarrow> (\<lambda>op a ctx x.
           if op = LookupHost
           then Done (Inr (Inner [socket_addr_new (IpV6 ipv6_unspecified) 80, demo_v4 1, demo_v4 2])) ctx x
           else if a = SocketAddr (demo_v4 2) then Done (Inr (Inner [])) ctx x
           else Done (Inl Timeout) ctx x)),
      addr_ser = (\<lambda>_. Inl []), addr_de = (\<lambda>_. Inl [])\<rparr>"

theorem resolve_tries_in_order_witness:
  "net_call 2 demo_resolve_ops (\<lambda>_. None) (resolving_net Resolving (Ext Backend []) (Ext Backend []))
     TcpConnect (Domain ''x.cn'' 80) context_new
     \<lparr>conns = sys_init, next_uuid = 0, clock = 0, outer = ()\<rparr> =
   Some (Inr (Inner []), context_new, \<lparr>conns = sys_init, next_uuid = 0, clock = 0, outer = ()\<rparr>)"
proof -
  let ?w = "\<lparr>conns = sys_init, next_uuid = 0, clock = 0, outer = ()\<rparr>"
  let ?n = "Ext Backend [] :: demo_part net" and ?H = "\<lambda>_. None :: demo_part running_net option"
  have "parse_ip ''x.cn'' = None"
    by (simp add: parse_ip_def parse_with_def read_ip_addr_def read_ipv6_addr_def
        read_ipv4_addr_stops read_groups_stop stops_def to_digit_def)
  moreover have "strip_brackets ''x.cn'' = ''x.cn''" by (intro strip_brackets_plain) simp
  ultimately have n: "normalize (Domain ''x.cn'' 80) = Inr (''x.cn'', 80)" by simp
  have l: "net_call 1 demo_resolve_ops ?H ?n LookupHost (Domain ''x.cn'' 80) context_new ?w =
      Some (Inr (Inner [socket_addr_new (IpV6 ipv6_unspecified) 80, demo_v4 1, demo_v4 2]), context_new, ?w)"
    by (simp add: demo_resolve_ops_def)
  have f: "filter (family_enabled demo_cfg)
      (demo_addrs (Inner [socket_addr_new (IpV6 ipv6_unspecified) 80, demo_v4 1, demo_v4 2])) =
      [demo_v4 1, demo_v4 2]"
    by (simp add: demo_addrs_def demo_cfg_def family_enabled_def socket_addr_new_def demo_v4_def)
  have s: "first_success (net_call 1 demo_resolve_ops ?H ?n TcpConnect) [demo_v4 1, demo_v4 2]
      context_new ?w (Inner [], context_new, ?w)"
    by (simp add: first_success_Cons demo_resolve_ops_def demo_v4_def)
  have k: "Suc 1 = (2 :: nat)" by simp
  show ?thesis
    using resolve_tries_in_order [of demo_resolve_ops Resolving demo_addrs demo_cfg TcpConnect
        "Domain ''x.cn'' 80" "''x.cn''" 80 1 ?H ?n context_new ?w _ context_new ?w ?n, OF _ _ _ n l] s
    unfolding k f sum.case Let_def by (simp add: demo_resolve_ops_def resolve_provides_def)
qed

end
