(* ===== verification/RD_Rule.thy ===== *)
theory RD_Rule
  imports RD_Context
begin

text \<open>
  The rule engine, after \<^verbatim>\<open>rd-std/src/rule/\<close>: matchers (\<^verbatim>\<open>config.rs\<close>, \<^verbatim>\<open>domain.rs\<close>,
  \<^verbatim>\<open>ipcidr.rs\<close>, \<^verbatim>\<open>geoip.rs\<close>, \<^verbatim>\<open>any.rs\<close>), the match context (\<^verbatim>\<open>matcher.rs\<close>) and \<open>Rule\<close> with
  its LRU cache (\<^verbatim>\<open>rule_net.rs\<close>).

  Arguments of the model: \<open>contains_addr\<close> of the smoltcp CIDR type, the GeoIP database lookup,
  serde's codec of \<open>SocketAddr\<close> (\<open>cd\<close>), and the two operations of the LRU cache. What is relied
  on of the cache is the predicate \<open>lru_laws\<close>: an entry found was inserted; anything may be
  evicted at any time.

  \<open>first_match\<close> is the reference: the first rule in order whose matcher accepts. The theorems
  show that \<open>get_rule\<close>, cache and all, returns it, for calls in sequence and for calls whose
  cache accesses interleave.
\<close>

section \<open>Matchers\<close>

datatype domain_matcher_method = Keyword | Suffix | Match

definition method_try_from :: "string \<Rightarrow> string + domain_matcher_method" where
  "method_try_from v =
     (if v = ''keyword'' then Inr Keyword
      else if v = ''suffix'' then Inr Suffix
      else if v = ''match'' then Inr Match
      else Inl (''Unsupported method: '' @ v))"

record domain_matcher =
  dm_method :: domain_matcher_method
  dm_domain :: compact_vec_string

datatype 'cidr matcher =
    MDomain domain_matcher
  | MIpCidr "'cidr single_or_vec"
  | MSrcIpCidr "'cidr single_or_vec"
  | MGeoIp string
  | MAny

text \<open>\<open>IpCidr::from_str\<close> over the two parsers of smoltcp.\<close>

datatype ('c4, 'c6) ip_cidr = Ipv4Cidr 'c4 | Ipv6Cidr 'c6

definition ip_cidr_from_str ::
  "(string \<Rightarrow> 'c4 option) \<Rightarrow> (string \<Rightarrow> 'c6 option) \<Rightarrow> string \<Rightarrow> error + ('c4, 'c6) ip_cidr" where
  "ip_cidr_from_str p4 p6 s =
     (case p4 s of
        Some c \<Rightarrow> Inr (Ipv4Cidr c)
      | None \<Rightarrow>
          (case p6 s of
             Some c \<Rightarrow> Inr (Ipv6Cidr c)
           | None \<Rightarrow> Inl (Other (''Failed to parse ip_cidr: '' @ s))))"

text \<open>The outside world of a match: CIDR membership and the country database. A successful
  lookup gives the country record when there is one, with its ISO code when there is one.\<close>

datatype geo_error = AddressNotFoundError | OtherGeoError

record 'cidr match_env =
  contains_addr :: "'cidr \<Rightarrow> ip_addr \<Rightarrow> bool"
  geo_lookup :: "ip_addr \<Rightarrow> geo_error + string option option"

type_synonym sa_codec = "(socket_addr \<Rightarrow> string + json) \<times> (json \<Rightarrow> string + socket_addr)"

record match_context =
  mc_address :: address
  mc_src_ip_addr :: "ip_addr option"
  mc_dest_socket_addr :: "socket_addr option"
  mc_dest_domain :: "address_domain option"

definition from_context_address ::
  "sa_codec \<Rightarrow> conn_context \<Rightarrow> address \<Rightarrow> error + match_context" where
  "from_context_address cd ctx addr =
     map_err ContextError
       (and_then (get_common (src_socket_addr_field (fst cd) (snd cd)) ctx) (\<lambda>src.
        and_then (get_common (dest_socket_addr_field (fst cd) (snd cd)) ctx) (\<lambda>dsa.
        and_then (get_common dest_domain_field ctx) (\<lambda>dd.
          Inr \<lparr>mc_address = to_normalized addr,
               mc_src_ip_addr = map_option sa_ip src,
               mc_dest_socket_addr = dsa,
               mc_dest_domain = dd\<rparr>))))"

definition get_domain :: "match_context \<Rightarrow> (string \<times> u16) option" where
  "get_domain mc =
     (case mc_address mc of
        Domain d p \<Rightarrow> Some (d, p)
      | SocketAddr _ \<Rightarrow>
          (case mc_dest_domain mc of
             Some ad \<Rightarrow> Some (ad_domain ad, ad_port ad)
           | None \<Rightarrow> None))"

definition get_socket_addr :: "match_context \<Rightarrow> socket_addr option" where
  "get_socket_addr mc =
     (case mc_address mc of
        SocketAddr a \<Rightarrow> Some a
      | Domain _ _ \<Rightarrow>
          (case to_socket_addr (mc_address mc) of
             Inr a \<Rightarrow> Some a
           | Inl _ \<Rightarrow> mc_dest_socket_addr mc))"

text \<open>The items an iteration over a string list yields (no panic occurs on a well-formed one).\<close>

definition cvs_items :: "compact_vec_string \<Rightarrow> string list" where
  "cvs_items c = (case iter_collect (cvs_iter_of c) of Panic \<Rightarrow> [] | Ret ss \<Rightarrow> ss)"

text \<open>One entry of a \<open>Match\<close> list.\<close>

definition match_entry :: "string \<Rightarrow> string \<Rightarrow> bool" where
  "match_entry host d =
     (if starts_with d ''+.''
      then (case strip_prefix d ''+'' of Some i \<Rightarrow> ends_with host i | None \<Rightarrow> False) \<or>
           (case strip_prefix d ''+.'' of Some d' \<Rightarrow> host = d' | None \<Rightarrow> False)
      else host = d)"

definition domain_test :: "domain_matcher \<Rightarrow> string \<Rightarrow> bool" where
  "domain_test m host =
     (case dm_method m of
        Keyword \<Rightarrow> list_ex (\<lambda>d. contains_str host d) (cvs_items (dm_domain m))
      | Match \<Rightarrow> list_ex (match_entry host) (cvs_items (dm_domain m))
      | Suffix \<Rightarrow> list_ex (\<lambda>d. ends_with host d) (cvs_items (dm_domain m)))"

definition ipcidr_test :: "'cidr match_env \<Rightarrow> 'cidr single_or_vec \<Rightarrow> ip_addr \<Rightarrow> bool" where
  "ipcidr_test env cs ip = list_ex (\<lambda>i. contains_addr env i ip) (sov_collect (sov_iter_of cs))"

definition geoip_test :: "'cidr match_env \<Rightarrow> string \<Rightarrow> ip_addr \<Rightarrow> bool" where
  "geoip_test env country ip =
     (case geo_lookup env ip of
        Inr (Some (Some c)) \<Rightarrow> c = country
      | Inl AddressNotFoundError \<Rightarrow> country = []
      | Inl _ \<Rightarrow> False
      | _ \<Rightarrow> False)"

fun match_rule :: "'cidr match_env \<Rightarrow> 'cidr matcher \<Rightarrow> match_context \<Rightarrow> bool" where
  "match_rule env (MDomain m) mc =
     (case get_domain mc of Some (d, _) \<Rightarrow> domain_test m d | None \<Rightarrow> False)"
| "match_rule env (MIpCidr cs) mc =
     (case get_socket_addr mc of Some a \<Rightarrow> ipcidr_test env cs (sa_ip a) | None \<Rightarrow> False)"
| "match_rule env (MSrcIpCidr cs) mc =
     (case mc_src_ip_addr mc of Some ip \<Rightarrow> ipcidr_test env cs ip | None \<Rightarrow> False)"
| "match_rule env (MGeoIp c) mc =
     (case get_socket_addr mc of Some a \<Rightarrow> geoip_test env c (sa_ip a) | None \<Rightarrow> False)"
| "match_rule env MAny mc = True"

text \<open>\<open>Matcher::merge\<close>: whether it merged, and the first matcher afterwards.\<close>

fun matcher_merge :: "'cidr matcher \<Rightarrow> 'cidr matcher \<Rightarrow> bool \<times> 'cidr matcher" where
  "matcher_merge (MDomain a) (MDomain b) =
     (True, MDomain (a\<lparr>dm_domain := cvs_extend (cvs_items (dm_domain b)) (dm_domain a)\<rparr>))"
| "matcher_merge (MIpCidr a) (MIpCidr b) = (True, MIpCidr (sov_extend a (sov_collect (sov_iter_of b))))"
| "matcher_merge (MSrcIpCidr a) (MSrcIpCidr b) =
     (True, MSrcIpCidr (sov_extend a (sov_collect (sov_iter_of b))))"
| "matcher_merge MAny MAny = (True, MAny)"
| "matcher_merge (MGeoIp a) (MGeoIp b) = (False, MGeoIp a)"
| "matcher_merge a b = (False, a)"

record ('n, 'cidr) rule_config_item =
  rc_target :: "'n net_ref"
  rc_matcher :: "'cidr matcher"

definition rule_item_merge ::
  "('n, 'cidr) rule_config_item \<Rightarrow> ('n, 'cidr) rule_config_item \<Rightarrow> bool \<times> ('n, 'cidr) rule_config_item"
where
  "rule_item_merge a b =
     (if represent (rc_target a) = represent (rc_target b)
      then (case matcher_merge (rc_matcher a) (rc_matcher b) of
              (ok, mtch) \<Rightarrow> (ok, a\<lparr>rc_matcher := mtch\<rparr>))
      else (False, a))"

section \<open>Rule\<close>

record ('n, 'cidr) rule_item =
  target_name :: string
  target :: 'n
  ri_matcher :: "'cidr matcher"

text \<open>The LRU cache of \<open>lru_time_cache\<close>: \<open>get\<close> (which refreshes the entry) and \<open>insert\<close>.\<close>

record ('k, 'v, 'c) lru_ops =
  lru_get :: "'k \<Rightarrow> 'c \<Rightarrow> 'v option \<times> 'c"
  lru_insert :: "'k \<Rightarrow> 'v \<Rightarrow> 'c \<Rightarrow> 'c"

record ('n, 'cidr, 'c) rule_net =
  rules :: "('n, 'cidr) rule_item list"
  cache :: 'c

text \<open>\<open>Rule::new\<close>: an unresolved target panics; \<open>empty_cache\<close> is the cache of the configured
  size and \<open>to_str\<close> the JSON printer.\<close>

fun rule_items ::
  "(json \<Rightarrow> string) \<Rightarrow> ('n, 'cidr) rule_config_item list \<Rightarrow> ('n, 'cidr) rule_item list outcome" where
  "rule_items to_str [] = Ret []"
| "rule_items to_str (r # rs) =
     (case value_cloned (rc_target r) of
        Panic \<Rightarrow> Panic
      | Ret n \<Rightarrow>
          (case rule_items to_str rs of
             Panic \<Rightarrow> Panic
           | Ret is \<Rightarrow>
               Ret (\<lparr>target_name = to_str (represent (rc_target r)), target = n,
                     ri_matcher = rc_matcher r\<rparr> # is)))"

definition default_lru_cache_size :: nat where
  "default_lru_cache_size = 32"

definition rule_new ::
  "(json \<Rightarrow> string) \<Rightarrow> (nat \<Rightarrow> 'c) \<Rightarrow> nat \<Rightarrow> ('n, 'cidr) rule_config_item list \<Rightarrow>
   ('n, 'cidr, 'c) rule_net outcome" where
  "rule_new to_str with_capacity lru_cache_size config =
     (case rule_items to_str config of
        Panic \<Rightarrow> Panic
      | Ret is \<Rightarrow> Ret \<lparr>rules = is, cache = with_capacity lru_cache_size\<rparr>)"

text \<open>The loop of \<open>get_rule\<close> over the rules, from index \<open>i\<close>.\<close>

fun scan_rules ::
  "'cidr match_env \<Rightarrow> match_context \<Rightarrow> nat \<Rightarrow> ('n, 'cidr) rule_item list \<Rightarrow>
   (nat \<times> ('n, 'cidr) rule_item) option" where
  "scan_rules env mc i [] = None"
| "scan_rules env mc i (r # rs) =
     (if match_rule env (ri_matcher r) mc then Some (i, r) else scan_rules env mc (i + 1) rs)"

text \<open>\<open>&self.rule[i]\<close>.\<close>

definition index_rule :: "'r list \<Rightarrow> nat \<Rightarrow> 'r outcome" where
  "index_rule rs i = (if i < length rs then Ret (rs ! i) else Panic)"

definition get_rule ::
  "'cidr match_env \<Rightarrow> sa_codec \<Rightarrow> (match_context, nat, 'c) lru_ops \<Rightarrow>
   conn_context \<Rightarrow> address \<Rightarrow> ('n, 'cidr, 'c) rule_net \<Rightarrow>
   (error + ('n, 'cidr) rule_item) outcome \<times> ('n, 'cidr, 'c) rule_net" where
  "get_rule env cd lru ctx tgt r =
     (case from_context_address cd ctx tgt of
        Inl e \<Rightarrow> (Ret (Inl e), r)
      | Inr mc \<Rightarrow>
          (case lru_get lru mc (cache r) of
             (Some i, c) \<Rightarrow>
               (case index_rule (rules r) i of
                  Panic \<Rightarrow> (Panic, r\<lparr>cache := c\<rparr>)
                | Ret it \<Rightarrow> (Ret (Inr it), r\<lparr>cache := c\<rparr>))
           | (None, c) \<Rightarrow>
               (case scan_rules env mc 0 (rules r) of
                  Some (i, it) \<Rightarrow> (Ret (Inr it), r\<lparr>cache := lru_insert lru mc i c\<rparr>)
                | None \<Rightarrow> (Ret (Inl NotMatched), r\<lparr>cache := c\<rparr>))))"

text \<open>\<open>RuleNet::tcp_connect\<close>; \<open>connect\<close> is \<open>tcp_connect\<close> of the target net, which may change the
  context and the world \<open>'w\<close>.\<close>

definition rule_tcp_connect ::
  "'cidr match_env \<Rightarrow> sa_codec \<Rightarrow> (match_context, nat, 'c) lru_ops \<Rightarrow>
   ('n \<Rightarrow> conn_context \<Rightarrow> address \<Rightarrow> 'w \<Rightarrow> (error + 's) \<times> conn_context \<times> 'w) \<Rightarrow>
   conn_context \<Rightarrow> address \<Rightarrow> ('n, 'cidr, 'c) rule_net \<Rightarrow> 'w \<Rightarrow>
   (error + 's) outcome \<times> conn_context \<times> ('n, 'cidr, 'c) rule_net \<times> 'w" where
  "rule_tcp_connect env cd lru connect ctx addr r w =
     (case get_rule env cd lru ctx addr r of
        (Panic, r') \<Rightarrow> (Panic, ctx, r', w)
      | (Ret (Inl e), r') \<Rightarrow> (Ret (Inl e), ctx, r', w)
      | (Ret (Inr it), r') \<Rightarrow>
          (case connect (target it) ctx addr w of
             (res, ctx', w') \<Rightarrow> (Ret res, ctx', r', w')))"

text \<open>The connector that \<open>RuleNet::udp_bind\<close> builds: choose a rule for the first destination,
  bind there, send the datagram.\<close>

definition rule_udp_connector ::
  "'cidr match_env \<Rightarrow> sa_codec \<Rightarrow> (match_context, nat, 'c) lru_ops \<Rightarrow>
   ('n \<Rightarrow> conn_context \<Rightarrow> address \<Rightarrow> 'w \<Rightarrow> (error + 's) \<times> conn_context \<times> 'w) \<Rightarrow>
   ('s \<Rightarrow> u8 list \<Rightarrow> address \<Rightarrow> 'w \<Rightarrow> (io_error + nat) \<times> 's \<times> 'w) \<Rightarrow>
   conn_context \<Rightarrow> address \<Rightarrow> u8 list \<Rightarrow> address \<Rightarrow> ('n, 'cidr, 'c) rule_net \<Rightarrow> 'w \<Rightarrow>
   (error + 's) outcome \<times> ('n, 'cidr, 'c) rule_net \<times> 'w" where
  "rule_udp_connector env cd lru bind send_to ctx bind_addr buf target_addr r w =
     (case get_rule env cd lru ctx target_addr r of
        (Panic, r') \<Rightarrow> (Panic, r', w)
      | (Ret (Inl e), r') \<Rightarrow> (Ret (Inl e), r', w)
      | (Ret (Inr it), r') \<Rightarrow>
          (case bind (target it) ctx bind_addr w of
             (Inl e, ctx', w') \<Rightarrow> (Ret (Inl e), r', w')
           | (Inr udp, ctx', w') \<Rightarrow>
               (case send_to udp buf target_addr w' of
                  (Inl e, udp', w'') \<Rightarrow> (Ret (Inl (IO e)), r', w'')
                | (Inr n, udp', w'') \<Rightarrow> (Ret (Inr udp'), r', w''))))"

section \<open>Lemmas on matchers\<close>

lemma cvs_items_strings [simp]: "cvs_inv c \<Longrightarrow> cvs_items c = strings c"
  by (simp add: cvs_items_def iter_collect_strings)

lemma match_entry_plus: "match_entry host (''+.'' @ d) \<longleftrightarrow> host = d \<or> (\<exists>sub. host = sub @ ''.'' @ d)"
proof -
  have "starts_with (''+.'' @ d) ''+.''" by (simp add: starts_with_def)
  moreover have "strip_prefix (''+.'' @ d) ''+'' = Some (''.'' @ d)"
    "strip_prefix (''+.'' @ d) ''+.'' = Some d"
    by (simp_all add: strip_prefix_Some)
  ultimately show ?thesis by (auto simp: match_entry_def ends_with_suffix suffix_def)
qed

lemma match_entry_plain: "\<not> prefix ''+.'' d \<Longrightarrow> match_entry host d \<longleftrightarrow> host = d"
  by (simp add: match_entry_def starts_with_prefix)

text \<open>The domain test depends on the method and on the set of strings only.\<close>

definition entry_matches :: "domain_matcher_method \<Rightarrow> string \<Rightarrow> string \<Rightarrow> bool" where
  "entry_matches meth host d =
     (case meth of Keyword \<Rightarrow> sublist d host | Match \<Rightarrow> match_entry host d | Suffix \<Rightarrow> suffix d host)"

lemma domain_test_iff:
  assumes "cvs_inv (dm_domain m)"
  shows "domain_test m host \<longleftrightarrow> (\<exists>d \<in> set (strings (dm_domain m)). entry_matches (dm_method m) host d)"
  using assms
  by (cases "dm_method m")
     (auto simp: domain_test_def entry_matches_def list_ex_iff contains_str_sublist ends_with_suffix)

lemma ipcidr_test_iff:
  "ipcidr_test env cs ip \<longleftrightarrow> (\<exists>c \<in> set (sov_into_vec cs). contains_addr env c ip)"
  by (simp add: ipcidr_test_def list_ex_iff)

lemma ipcidr_test_extend:
  "ipcidr_test env (sov_extend a (sov_into_vec b)) ip \<longleftrightarrow>
   ipcidr_test env a ip \<or> ipcidr_test env b ip"
  by (auto simp: ipcidr_test_iff)

fun matcher_inv :: "'cidr matcher \<Rightarrow> bool" where
  "matcher_inv (MDomain m) = cvs_inv (dm_domain m)"
| "matcher_inv _ = True"

text \<open>Two domain matchers use the same method.\<close>

fun same_method :: "'cidr matcher \<Rightarrow> 'cidr matcher \<Rightarrow> bool" where
  "same_method (MDomain a) (MDomain b) = (dm_method a = dm_method b)"
| "same_method _ _ = True"

lemma merge_domain_test:
  assumes "cvs_inv (dm_domain a)" "cvs_inv (dm_domain b)"
  shows "domain_test (a\<lparr>dm_domain := cvs_extend (cvs_items (dm_domain b)) (dm_domain a)\<rparr>) host \<longleftrightarrow>
    domain_test a host \<or> domain_test (b\<lparr>dm_method := dm_method a\<rparr>) host"
proof -
  obtain ss ts where "dm_domain a = cvs_of ss" "dm_domain b = cvs_of ts"
    using assms by (meson cvs_invE)
  then show ?thesis by (auto simp: domain_test_iff)
qed

text \<open>Merging: what the merged matcher accepts.\<close>

lemma matcher_merge_accepts:
  assumes "matcher_merge a b = (True, c)" "matcher_inv a" "matcher_inv b" "same_method a b"
  shows "match_rule env c mc \<longleftrightarrow> match_rule env a mc \<or> match_rule env b mc"
proof (cases "(a, b)" rule: matcher_merge.cases)
  case (1 x y)
  with assms have "dm_method x = dm_method y" by simp
  then have y: "y\<lparr>dm_method := dm_method x\<rparr> = y" by simp
  from 1 assms(2,3) have "matcher_inv (MDomain x)" "matcher_inv (MDomain y)" by simp_all
  then have "domain_test (x\<lparr>dm_domain := cvs_extend (cvs_items (dm_domain y)) (dm_domain x)\<rparr>) h \<longleftrightarrow>
      domain_test x h \<or> domain_test y h" for h
    using merge_domain_test [of x y h] unfolding y by simp
  note test = this
  from 1 assms(1) have "c = MDomain (x\<lparr>dm_domain := cvs_extend (cvs_items (dm_domain y)) (dm_domain x)\<rparr>)"
    by simp
  with 1 test show ?thesis by (cases "get_domain mc") (simp_all split: prod.split)
next
  case (2 x y)
  with assms(1) show ?thesis by (auto simp: ipcidr_test_extend split: option.splits)
next
  case (3 x y)
  with assms(1) show ?thesis by (auto simp: ipcidr_test_extend split: option.splits)
next
  case 4
  with assms(1) show ?thesis by auto
qed (use assms(1) in simp_all)

section \<open>The reference and the cache\<close>

definition is_first_match ::
  "'cidr match_env \<Rightarrow> ('n, 'cidr) rule_item list \<Rightarrow> match_context \<Rightarrow> nat \<Rightarrow> bool" where
  "is_first_match env rs mc j \<longleftrightarrow>
     j < length rs \<and> match_rule env (ri_matcher (rs ! j)) mc \<and>
     (\<forall>k < j. \<not> match_rule env (ri_matcher (rs ! k)) mc)"

definition first_match ::
  "'cidr match_env \<Rightarrow> ('n, 'cidr) rule_item list \<Rightarrow> match_context \<Rightarrow> error + ('n, 'cidr) rule_item" where
  "first_match env rs mc =
     (case find (\<lambda>r. match_rule env (ri_matcher r) mc) rs of
        None \<Rightarrow> Inl NotMatched
      | Some it \<Rightarrow> Inr it)"

definition lru_laws :: "('k, 'v, 'c) lru_ops \<Rightarrow> ('c \<Rightarrow> 'k \<Rightarrow> 'v option) \<Rightarrow> bool" where
  "lru_laws lru content \<longleftrightarrow>
     (\<forall>k c v c'. lru_get lru k c = (v, c') \<longrightarrow>
        (v \<noteq> None \<longrightarrow> content c k = v) \<and> content c' \<subseteq>\<^sub>m content c) \<and>
     (\<forall>k v c. content (lru_insert lru k v c) \<subseteq>\<^sub>m (content c)(k \<mapsto> v))"

definition cache_ok ::
  "'cidr match_env \<Rightarrow> ('c \<Rightarrow> match_context \<Rightarrow> nat option) \<Rightarrow> ('n, 'cidr) rule_item list \<Rightarrow> 'c \<Rightarrow> bool"
where
  "cache_ok env content rs c \<longleftrightarrow> (\<forall>mc i. content c mc = Some i \<longrightarrow> is_first_match env rs mc i)"

lemma first_match_index: "is_first_match env rs mc j \<Longrightarrow> first_match env rs mc = Inr (rs ! j)"
proof -
  assume j: "is_first_match env rs mc j"
  then have "find (\<lambda>r. match_rule env (ri_matcher r) mc) rs = Some (rs ! j)"
    by (auto simp: is_first_match_def find_Some_iff)
  then show ?thesis by (simp add: first_match_def)
qed

lemma scan_rules_Some:
  "scan_rules env mc i rs = Some (n, it) \<Longrightarrow>
   \<exists>j. n = i + j \<and> it = rs ! j \<and> is_first_match env rs mc j"
proof (induction env mc i rs rule: scan_rules.induct)
  case (2 env mc i r rs)
  show ?case
  proof (cases "match_rule env (ri_matcher r) mc")
    case True
    with 2(2) show ?thesis by (auto simp: is_first_match_def intro!: exI [of _ 0])
  next
    case False
    with 2 obtain j where "n = i + 1 + j" "it = rs ! j" "is_first_match env rs mc j" by auto
    with False show ?thesis
      by (auto simp: is_first_match_def less_Suc_eq_0_disj intro!: exI [of _ "Suc j"])
  qed
qed simp

lemma scan_rules_None:
  "scan_rules env mc i rs = None \<Longrightarrow> first_match env rs mc = Inl NotMatched"
  by (induction env mc i rs rule: scan_rules.induct)
     (auto simp: first_match_def split: if_splits option.splits)

lemma cache_ok_mono:
  "cache_ok env content rs c \<Longrightarrow> content c' \<subseteq>\<^sub>m content c \<Longrightarrow> cache_ok env content rs c'"
  unfolding cache_ok_def map_le_def by (metis domIff option.distinct(1))

lemma cache_ok_get:
  assumes "lru_laws lru content" "cache_ok env content rs c" "lru_get lru mc c = (v, c')"
  shows "cache_ok env content rs c'" and "v = Some i \<Longrightarrow> is_first_match env rs mc i"
proof -
  have "content c' \<subseteq>\<^sub>m content c" and v: "v \<noteq> None \<Longrightarrow> content c mc = v"
    using assms(1,3) unfolding lru_laws_def by blast+
  then show "cache_ok env content rs c'" using cache_ok_mono [OF assms(2)] by blast
  show "v = Some i \<Longrightarrow> is_first_match env rs mc i" using v assms(2) by (simp add: cache_ok_def)
qed

lemma cache_ok_insert:
  assumes "lru_laws lru content" "cache_ok env content rs c" "is_first_match env rs mc i"
  shows "cache_ok env content rs (lru_insert lru mc i c)"
proof -
  have "content (lru_insert lru mc i c) \<subseteq>\<^sub>m (content c)(mc \<mapsto> i)"
    using assms(1) by (simp add: lru_laws_def)
  then show ?thesis
    using assms(2,3) unfolding cache_ok_def map_le_def
    by (metis domIff fun_upd_apply option.distinct(1) option.inject)
qed

lemma get_rule_step:
  assumes "lru_laws lru content" "cache_ok env content (rules r) (cache r)"
  shows "fst (get_rule env cd lru ctx tgt r) =
      Ret (and_then (from_context_address cd ctx tgt) (first_match env (rules r)))"
    and "rules (snd (get_rule env cd lru ctx tgt r)) = rules r"
    and "cache_ok env content (rules r) (cache (snd (get_rule env cd lru ctx tgt r)))"
proof -
  let ?P = "\<lambda>x. fst x = Ret (and_then (from_context_address cd ctx tgt) (first_match env (rules r))) \<and>
      rules (snd x) = rules r \<and> cache_ok env content (rules r) (cache (snd x))"
  have "?P (get_rule env cd lru ctx tgt r)"
  proof (cases "from_context_address cd ctx tgt")
    case (Inl e)
    with assms show ?thesis by (simp add: get_rule_def)
  next
    case (Inr mc)
    obtain v c where g: "lru_get lru mc (cache r) = (v, c)" by fastforce
    note c = cache_ok_get [OF assms g]
    show ?thesis
    proof (cases v)
      case (Some i)
      then have "is_first_match env (rules r) mc i" using c(2) by simp
      then have "index_rule (rules r) i = Ret (rules r ! i)"
        "first_match env (rules r) mc = Inr (rules r ! i)"
        by (simp_all add: index_rule_def is_first_match_def first_match_index)
      with Inr g Some c(1) show ?thesis by (simp add: get_rule_def)
    next
      case None
      show ?thesis
      proof (cases "scan_rules env mc 0 (rules r)")
        case None
        with \<open>v = None\<close> Inr g c(1) show ?thesis by (simp add: get_rule_def scan_rules_None)
      next
        case (Some x)
        then obtain i where "x = (i, rules r ! i)" "is_first_match env (rules r) mc i"
          using scan_rules_Some [of env mc 0 "rules r"] by (cases x) auto
        with \<open>v = None\<close> Some Inr g c(1) show ?thesis
          by (simp add: get_rule_def first_match_index cache_ok_insert [OF assms(1)])
      qed
    qed
  qed
  then show "fst (get_rule env cd lru ctx tgt r) =
      Ret (and_then (from_context_address cd ctx tgt) (first_match env (rules r)))"
    "rules (snd (get_rule env cd lru ctx tgt r)) = rules r"
    "cache_ok env content (rules r) (cache (snd (get_rule env cd lru ctx tgt r)))" by auto
qed

section \<open>Calls in sequence\<close>

fun get_rules ::
  "'cidr match_env \<Rightarrow> sa_codec \<Rightarrow> (match_context, nat, 'c) lru_ops \<Rightarrow>
   (conn_context \<times> address) list \<Rightarrow> ('n, 'cidr, 'c) rule_net \<Rightarrow>
   (error + ('n, 'cidr) rule_item) outcome list" where
  "get_rules env cd lru [] r = []"
| "get_rules env cd lru ((ctx, a) # qs) r =
     (case get_rule env cd lru ctx a r of (res, r') \<Rightarrow> res # get_rules env cd lru qs r')"

lemma get_rules_spec:
  assumes "lru_laws lru content" "cache_ok env content (rules r) (cache r)"
  shows "get_rules env cd lru qs r =
    map (\<lambda>(ctx, a). Ret (and_then (from_context_address cd ctx a) (first_match env (rules r)))) qs"
  using assms(2)
proof (induction qs arbitrary: r)
  case (Cons q qs)
  obtain ctx a where q: "q = (ctx, a)" by fastforce
  obtain res r' where g: "get_rule env cd lru ctx a r = (res, r')" by fastforce
  note s = get_rule_step [OF assms(1) Cons.prems, of cd ctx a, unfolded g fst_conv snd_conv]
  have "cache_ok env content (rules r') (cache r')" using s(2,3) by simp
  from Cons.IH [OF this] s(1,2) q g show ?case by simp
qed simp

section \<open>Calls that interleave\<close>

text \<open>The points at which a running \<open>get_rule\<close> may be preempted: before the cache lookup,
  before the scan and before the cache insert. The lock is held within a step only.\<close>

datatype ('n, 'cidr) rule_task =
    TStart match_context
  | TScan match_context
  | TInsert match_context nat "('n, 'cidr) rule_item"
  | TDone match_context "(error + ('n, 'cidr) rule_item) outcome"

fun task_step ::
  "'cidr match_env \<Rightarrow> (match_context, nat, 'c) lru_ops \<Rightarrow> ('n, 'cidr) rule_item list \<Rightarrow>
   ('n, 'cidr) rule_task \<Rightarrow> 'c \<Rightarrow> ('n, 'cidr) rule_task \<times> 'c" where
  "task_step env lru rs (TStart mc) c =
     (case lru_get lru mc c of
        (Some i, c') \<Rightarrow> (TDone mc (case index_rule rs i of Panic \<Rightarrow> Panic | Ret it \<Rightarrow> Ret (Inr it)), c')
      | (None, c') \<Rightarrow> (TScan mc, c'))"
| "task_step env lru rs (TScan mc) c =
     (case scan_rules env mc 0 rs of
        Some (i, it) \<Rightarrow> (TInsert mc i it, c)
      | None \<Rightarrow> (TDone mc (Ret (Inl NotMatched)), c))"
| "task_step env lru rs (TInsert mc i it) c = (TDone mc (Ret (Inr it)), lru_insert lru mc i c)"
| "task_step env lru rs (TDone mc res) c = (TDone mc res, c)"

text \<open>Three steps of a task alone are one call.\<close>

lemma get_rule_as_task:
  assumes "from_context_address cd ctx tgt = Inr mc"
  shows "\<exists>res c. (let st = \<lambda>(t, c). task_step env lru (rules r) t c
      in st (st (st (TStart mc, cache r)))) = (TDone mc res, c) \<and>
    get_rule env cd lru ctx tgt r = (res, r\<lparr>cache := c\<rparr>)"
  using assms
  by (auto simp: get_rule_def Let_def split: prod.splits option.splits outcome.splits)

inductive rule_step ::
  "'cidr match_env \<Rightarrow> (match_context, nat, 'c) lru_ops \<Rightarrow> ('n, 'cidr) rule_item list \<Rightarrow>
   ('n, 'cidr) rule_task list \<times> 'c \<Rightarrow> ('n, 'cidr) rule_task list \<times> 'c \<Rightarrow> bool"
  for env lru rs where
  run: "k < length ts \<Longrightarrow> task_step env lru rs (ts ! k) c = (t', c') \<Longrightarrow>
        rule_step env lru rs (ts, c) (ts[k := t'], c')"

inductive_cases rule_stepE: "rule_step env lru rs (ts, c) s"

fun task_ok :: "'cidr match_env \<Rightarrow> ('n, 'cidr) rule_item list \<Rightarrow> ('n, 'cidr) rule_task \<Rightarrow> bool" where
  "task_ok env rs (TStart mc) = True"
| "task_ok env rs (TScan mc) = True"
| "task_ok env rs (TInsert mc i it) = (is_first_match env rs mc i \<and> it = rs ! i)"
| "task_ok env rs (TDone mc res) = (res = Ret (first_match env rs mc))"

lemma task_step_ok:
  assumes "lru_laws lru content" "cache_ok env content rs c" "task_ok env rs t"
    and "task_step env lru rs t c = (t', c')"
  shows "task_ok env rs t' \<and> cache_ok env content rs c'"
proof (cases t)
  case (TStart mc)
  obtain v d where g: "lru_get lru mc c = (v, d)" by fastforce
  note d = cache_ok_get [OF assms(1,2) g]
  show ?thesis
  proof (cases v)
    case (Some i)
    then have "is_first_match env rs mc i" using d(2) by simp
    then have "index_rule rs i = Ret (rs ! i)" "first_match env rs mc = Inr (rs ! i)"
      by (simp_all add: index_rule_def is_first_match_def first_match_index)
    with TStart g Some d(1) assms(4) show ?thesis by auto
  next
    case None
    with TStart g d(1) assms(4) show ?thesis by auto
  qed
next
  case (TScan mc)
  show ?thesis
  proof (cases "scan_rules env mc 0 rs")
    case None
    with TScan assms show ?thesis by (auto simp: scan_rules_None)
  next
    case (Some x)
    then obtain i where "x = (i, rs ! i)" "is_first_match env rs mc i"
      using scan_rules_Some [of env mc 0 rs] by (cases x) auto
    with TScan assms Some show ?thesis by auto
  qed
next
  case (TInsert mc i it)
  with assms show ?thesis by (auto simp: first_match_index cache_ok_insert)
next
  case (TDone mc res)
  with assms show ?thesis by auto
qed

lemma rule_step_inv:
  assumes "lru_laws lru content" "rule_step env lru rs s s'"
    and "list_all (task_ok env rs) (fst s) \<and> cache_ok env content rs (snd s)"
  shows "list_all (task_ok env rs) (fst s') \<and> cache_ok env content rs (snd s')"
  using assms(2,3)
proof (cases rule: rule_step.cases)
  case (run k ts c t' c')
  with assms(3) have "task_ok env rs (ts ! k)" by (simp add: list_all_length)
  with task_step_ok [OF assms(1) _ this run(4)] assms(3) run show ?thesis
    by (auto simp: list_all_length nth_list_update)
qed

section \<open>Reserved addresses\<close>

text \<open>\<open>is_reserved\<close> of \<^verbatim>\<open>rd-std/src/util.rs\<close> over the CIDR tests of smoltcp.\<close>

record reserved_env =
  contains4 :: "ipv4 \<Rightarrow> nat \<Rightarrow> ipv4 \<Rightarrow> bool"
  contains6 :: "ipv6 \<Rightarrow> nat \<Rightarrow> ipv6 \<Rightarrow> bool"
  is_link_local :: "ipv6 \<Rightarrow> bool"

fun is_reserved :: "reserved_env \<Rightarrow> ip_addr \<Rightarrow> bool" where
  "is_reserved e (IpV4 a) \<longleftrightarrow>
     contains4 e (Ipv4 0 0 0 0) 8 a \<or> contains4 e (Ipv4 127 0 0 0) 8 a \<or>
     contains4 e (Ipv4 10 0 0 0) 8 a \<or> contains4 e (Ipv4 169 254 0 0) 16 a \<or>
     contains4 e (Ipv4 192 168 0 0) 16 a \<or> contains4 e (Ipv4 172 16 0 0) 12 a \<or>
     contains4 e (Ipv4 224 0 0 0) 4 a \<or> contains4 e (Ipv4 240 0 0 0) 4 a"
| "is_reserved e (IpV6 a) \<longleftrightarrow>
     contains6 e (Ipv6 0 0 0 0 0 0 0 1) 128 a \<or>
     contains6 e (Ipv6 0xfc00 0 0 0 0 0 0 0) 7 a \<or> is_link_local e a"

text \<open>What a CIDR test means: the first \<open>n\<close> bits of the big-endian value agree.\<close>

fun ipv4_value :: "ipv4 \<Rightarrow> nat" where
  "ipv4_value (Ipv4 a b c d) = ((unat a * 256 + unat b) * 256 + unat c) * 256 + unat d"

definition prefix_test4 :: "(ipv4 \<Rightarrow> nat \<Rightarrow> ipv4 \<Rightarrow> bool) \<Rightarrow> bool" where
  "prefix_test4 f \<longleftrightarrow>
     (\<forall>net n a. n \<le> 32 \<longrightarrow> f net n a = (ipv4_value net div 2 ^ (32 - n) = ipv4_value a div 2 ^ (32 - n)))"

lemma octets_div:
  assumes "(a::nat) < 256" "b < 256" "c < 256" "d < 256"
  shows "(((a * 256 + b) * 256 + c) * 256 + d) div 2 ^ 24 = a"
    and "(((a * 256 + b) * 256 + c) * 256 + d) div 2 ^ 16 = a * 256 + b"
    and "(((a * 256 + b) * 256 + c) * 256 + d) div 2 ^ 20 = a * 16 + b div 16"
    and "(((a * 256 + b) * 256 + c) * 256 + d) div 2 ^ 28 = a div 16"
  using assms by simp_all

lemma ipv4_value_div:
  "ipv4_value (Ipv4 a b c d) div 16777216 = unat a"
  "ipv4_value (Ipv4 a b c d) div 65536 = unat a * 256 + unat b"
  "ipv4_value (Ipv4 a b c d) div 1048576 = unat a * 16 + unat b div 16"
  "ipv4_value (Ipv4 a b c d) div 268435456 = unat a div 16"
  using octets_div [OF unat_u8_less unat_u8_less unat_u8_less unat_u8_less, of a b c d]
  by simp_all

lemma prefix_test4_iff:
  assumes "prefix_test4 f" "n \<le> 32"
  shows "f net n a \<longleftrightarrow> ipv4_value net div 2 ^ (32 - n) = ipv4_value a div 2 ^ (32 - n)"
  using assms by (simp add: prefix_test4_def)

lemma octet_split:
  fixes a b x y k :: nat
  assumes "b < k" "y < k"
  shows "x * k + y = a * k + b \<longleftrightarrow> x = a \<and> y = b"
proof
  assume e: "x * k + y = a * k + b"
  then have "(x * k + y) div k = (a * k + b) div k" "(x * k + y) mod k = (a * k + b) mod k" by simp_all
  with assms show "x = a \<and> y = b" by simp
qed simp

lemma div16_top: "(n::nat) < 256 \<Longrightarrow> (14 = n div 16 \<or> 15 = n div 16) = (224 \<le> n)"
proof -
  assume n: "n < 256"
  define q r where "q = n div 16" and "r = n mod 16"
  then have "n = 16 * q + r" "r < 16" by simp_all
  with n have "(14 = q \<or> 15 = q) = (224 \<le> n)" by (auto intro: ccontr)
  then show ?thesis by (simp only: q_def)
qed

lemma div16_one: "(1 = (n::nat) div 16) = (16 \<le> n \<and> n \<le> 31)"
proof -
  define q r where "q = n div 16" and "r = n mod 16"
  then have "n = 16 * q + r" "r < 16" by simp_all
  then have "(1 = q) = (16 \<le> n \<and> n \<le> 31)" by (auto intro: ccontr)
  then show ?thesis by (simp only: q_def)
qed

section \<open>Properties\<close>

definition map_lru :: "('k, 'v, 'k \<Rightarrow> 'v option) lru_ops" where
  "map_lru = \<lparr>lru_get = (\<lambda>k c. (c k, c)), lru_insert = (\<lambda>k v c. c(k \<mapsto> v))\<rparr>"

lemma map_lru_laws: "lru_laws map_lru (\<lambda>c. c)"
  by (simp add: lru_laws_def map_lru_def map_le_def)

text \<open>C1: whatever calls came before and whatever the cache kept or evicted, \<open>get_rule\<close> returns the
  first rule in configuration order whose matcher accepts the connection, and \<open>NotMatched\<close> when
  none does; a cached index is never out of range.\<close>

theorem get_rule_first_match:
  assumes "lru_laws lru content" "content (cache r) = (\<lambda>_. None)"
  shows "get_rules env cd lru qs r =
    map (\<lambda>(ctx, a). Ret (and_then (from_context_address cd ctx a) (first_match env (rules r)))) qs"
  using assms by (intro get_rules_spec [OF assms(1)]) (simp add: cache_ok_def)

definition demo_rules :: "(string, unit) rule_item list" where
  "demo_rules =
     [\<lparr>target_name = ''cn'', target = ''cn'',
        ri_matcher = MDomain \<lparr>dm_method = Suffix, dm_domain = cvs_from_iter [''.cn'']\<rparr>\<rparr>,
      \<lparr>target_name = ''direct'', target = ''direct'', ri_matcher = MAny\<rparr>]"

definition demo_env :: "unit match_env" where
  "demo_env = \<lparr>contains_addr = (\<lambda>_ _. False), geo_lookup = (\<lambda>_. Inl AddressNotFoundError)\<rparr>"

definition text_codec :: sa_codec where
  "text_codec =
     (\<lambda>s. Inr (JString (show_socket_addr s)),
      \<lambda>j. case j of JString s \<Rightarrow> ok_or (parse_socket_addr s) ''invalid address''
                  | _ \<Rightarrow> Inl ''invalid type'')"

lemma demo_first_match:
  "first_match env demo_rules
     \<lparr>mc_address = Domain ''a.cn'' 80, mc_src_ip_addr = None, mc_dest_socket_addr = None,
      mc_dest_domain = None\<rparr> = Inr (demo_rules ! 0)"
  by (rule first_match_index)
     (simp add: is_first_match_def demo_rules_def get_domain_def domain_test_iff entry_matches_def
        suffix_def)

lemma from_context_address_new:
  "from_context_address cd context_new a =
   Inr \<lparr>mc_address = to_normalized a, mc_src_ip_addr = None, mc_dest_socket_addr = None,
        mc_dest_domain = None\<rparr>"
  by (simp add: from_context_address_def get_common_def ctx_get_def context_new_def)

lemma normalized_a_cn: "to_normalized (Domain ''a.cn'' 80) = Domain ''a.cn'' 80"
proof -
  have "strip_brackets ''a.cn'' = ''a.cn''" by (intro strip_brackets_plain) simp
  moreover have "parse_ip ''a.cn'' = None"
  proof -
    have "read_ipv4_addr ''a.cn'' = None" by (intro read_ipv4_addr_fail) (simp add: to_digit_def)
    moreover have "read_groups 8 0 ''a.cn'' = ([0xa], False, ''.cn'')"
      unfolding eight_Suc
      by (simp add: read_separator_def read_ipv4_unfold read_number_def to_digit_def)
    ultimately show ?thesis
      by (simp add: parse_ip_def parse_with_def read_ip_addr_def read_ipv6_addr_def)
  qed
  ultimately show ?thesis by (simp add: to_normalized_def)
qed

lemma get_rule_first_match_witness:
  "get_rules demo_env text_codec map_lru
     [(context_new, Domain ''a.cn'' 80), (context_new, Domain ''a.cn'' 80)]
     \<lparr>rules = demo_rules, cache = (\<lambda>_. None)\<rparr> =
   [Ret (Inr (demo_rules ! 0)), Ret (Inr (demo_rules ! 0))]"
  using get_rule_first_match
    [OF map_lru_laws, of "\<lparr>rules = demo_rules, cache = (\<lambda>_. None)\<rparr>" demo_env text_codec
      "[(context_new, Domain ''a.cn'' 80), (context_new, Domain ''a.cn'' 80)]"]
  by (simp add: from_context_address_new normalized_a_cn demo_first_match)

text \<open>C26: calls of \<open>get_rule\<close> that share the cache and interleave at every point where the lock is
  released still all return the first matching rule of their own connection.\<close>

theorem get_rule_concurrent:
  assumes "lru_laws lru content" "content c0 = (\<lambda>_. None)"
    and "(rule_step env lru rs)\<^sup>*\<^sup>* (map TStart mcs, c0) (ts, c)"
    and "TDone mc res \<in> set ts"
  shows "res = Ret (first_match env rs mc)"
proof -
  have "list_all (task_ok env rs) (fst (ts, c)) \<and> cache_ok env content rs (snd (ts, c))"
    using assms(3)
  proof (induction rule: rtranclp_induct)
    case base
    then show ?case using assms(2) by (simp add: cache_ok_def list_all_iff)
  next
    case (step s s')
    then show ?case using rule_step_inv [OF assms(1)] by blast
  qed
  then show ?thesis using assms(4) by (auto simp: list_all_iff)
qed

definition demo_mc :: match_context where
  "demo_mc = \<lparr>mc_address = Domain ''a.cn'' 80, mc_src_ip_addr = None, mc_dest_socket_addr = None,
              mc_dest_domain = None\<rparr>"

lemma demo_interleaving:
  "(rule_step demo_env map_lru demo_rules)\<^sup>*\<^sup>* (map TStart [demo_mc, demo_mc], \<lambda>_. None)
     ([TDone demo_mc (Ret (Inr (demo_rules ! 0))), TScan demo_mc], [demo_mc \<mapsto> 0])"
proof -
  let ?s = "rule_step demo_env map_lru demo_rules" and ?mc = demo_mc
  note step = rule_step.run [of _ _ demo_env map_lru demo_rules "\<lambda>_. None"]
  have sc: "scan_rules demo_env ?mc 0 demo_rules = Some (0, demo_rules ! 0)"
    by (simp add: demo_rules_def demo_mc_def get_domain_def domain_test_iff entry_matches_def suffix_def)
  have 1: "?s (map TStart [?mc, ?mc], \<lambda>_. None) ([TScan ?mc, TStart ?mc], \<lambda>_. None)"
    using step [of 0 "map TStart [?mc, ?mc]"] by (simp add: map_lru_def)
  have 2: "?s ([TScan ?mc, TStart ?mc], \<lambda>_. None) ([TScan ?mc, TScan ?mc], \<lambda>_. None)"
    using step [of 1 "[TScan ?mc, TStart ?mc]"] by (simp add: map_lru_def)
  have 3: "?s ([TScan ?mc, TScan ?mc], \<lambda>_. None)
      ([TInsert ?mc 0 (demo_rules ! 0), TScan ?mc], \<lambda>_. None)"
    using step [of 0 "[TScan ?mc, TScan ?mc]"] by (simp add: sc)
  have 4: "?s ([TInsert ?mc 0 (demo_rules ! 0), TScan ?mc], \<lambda>_. None)
      ([TDone ?mc (Ret (Inr (demo_rules ! 0))), TScan ?mc], [?mc \<mapsto> 0])"
    using step [of 0 "[TInsert ?mc 0 (demo_rules ! 0), TScan ?mc]"] by (simp add: map_lru_def)
  show ?thesis
    by (rule converse_rtranclp_into_rtranclp [of ?s, OF 1], rule converse_rtranclp_into_rtranclp [of ?s, OF 2],
        rule converse_rtranclp_into_rtranclp [of ?s, OF 3], rule r_into_rtranclp [of ?s, OF 4])
qed

lemma get_rule_concurrent_witness:
  "\<exists>ts c. (rule_step demo_env map_lru demo_rules)\<^sup>*\<^sup>* (map TStart [demo_mc, demo_mc], \<lambda>_. None) (ts, c) \<and>
     TDone demo_mc (Ret (Inr (demo_rules ! 0))) \<in> set ts \<and>
     Ret (Inr (demo_rules ! 0)) = Ret (first_match demo_env demo_rules demo_mc)"
  using demo_interleaving
    get_rule_concurrent [OF map_lru_laws _ demo_interleaving, of demo_mc "Ret (Inr (demo_rules ! 0))"]
  by (intro exI conjI) (assumption, simp_all)

text \<open>An entry \<open>+.d\<close> of a \<open>match\<close> list accepts exactly the domain \<open>d\<close> and its subdomains; a
  keyword list accepts the domains that contain an entry, a suffix list those that end in
  one.\<close>

theorem domain_test_meaning:
  "(domain_test \<lparr>dm_method = Match, dm_domain = cvs_from_iter (map (\<lambda>d. ''+.'' @ d) ds)\<rparr> h \<longleftrightarrow>
     (\<exists>d \<in> set ds. h = d \<or> (\<exists>sub. h = sub @ ''.'' @ d))) \<and>
   (domain_test \<lparr>dm_method = Keyword, dm_domain = cvs_from_iter ds\<rparr> h \<longleftrightarrow>
     (\<exists>d \<in> set ds. \<exists>u v. h = u @ d @ v)) \<and>
   (domain_test \<lparr>dm_method = Suffix, dm_domain = cvs_from_iter ds\<rparr> h \<longleftrightarrow>
     (\<exists>d \<in> set ds. \<exists>u. h = u @ d))"
  by (simp_all add: domain_test_iff entry_matches_def match_entry_plus sublist_def suffix_def
      del: append_Cons)

text \<open>Merging a rule matcher into another of the same kind (and, for domains, the same method)
  gives a matcher that accepts exactly what one of the two accepted.\<close>

lemma matcher_merge_union:
  assumes "matcher_merge a b = (True, c)" "matcher_inv a" "matcher_inv b" "same_method a b"
  shows "match_rule env c mc \<longleftrightarrow> match_rule env a mc \<or> match_rule env b mc"
  by (rule matcher_merge_accepts [OF assms])

lemma matcher_merge_union_witness:
  "match_rule demo_env (MIpCidr (Vec [(), ()])) demo_mc \<longleftrightarrow>
     match_rule demo_env (MIpCidr (Single ())) demo_mc \<or> match_rule demo_env (MIpCidr (Vec [()])) demo_mc"
  by (rule matcher_merge_union) simp_all

text \<open>Merging domain matchers ignores the method of the second: a keyword list merged into a
  suffix list is tested as suffixes, so a domain that the second matcher accepted can be
  rejected by the merged one.\<close>

lemma matcher_merge_ignores_method:
  "\<exists>(a :: unit matcher) b c mc. matcher_merge a b = (True, c) \<and> matcher_inv a \<and> matcher_inv b \<and>
     match_rule env b mc \<and> \<not> match_rule env c mc"
proof -
  let ?a = "MDomain \<lparr>dm_method = Suffix, dm_domain = cvs_of [''.cn'']\<rparr> :: unit matcher"
  let ?b = "MDomain \<lparr>dm_method = Keyword, dm_domain = cvs_of [''ads'']\<rparr> :: unit matcher"
  let ?mc = "demo_mc\<lparr>mc_address := Domain ''ads.com'' 80\<rparr>"
  have "match_rule env ?b ?mc"
    by (simp add: get_domain_def domain_test_iff entry_matches_def sublist_code)
  moreover have "\<not> match_rule env (snd (matcher_merge ?a ?b)) ?mc"
    by (simp add: get_domain_def domain_test_iff entry_matches_def suffix_def append_eq_Cons_conv)
  ultimately show ?thesis
    by (intro exI [of _ ?a] exI [of _ ?b] exI [of _ "snd (matcher_merge ?a ?b)"] exI [of _ ?mc]) simp
qed

text \<open>C40: with CIDR tests that compare prefixes, the reserved IPv4 addresses are 0/8, 10/8, 127/8,
  169.254/16, 192.168/16, 172.16 to 172.31 and everything from 224 up.\<close>

theorem is_reserved_ipv4:
  assumes "prefix_test4 (contains4 e)"
  shows "is_reserved e (IpV4 (Ipv4 a b c d)) \<longleftrightarrow>
    a = 0 \<or> a = 10 \<or> a = 127 \<or> a = 169 \<and> b = 254 \<or> a = 192 \<and> b = 168 \<or>
    a = 172 \<and> 16 \<le> unat b \<and> unat b \<le> 31 \<or> 224 \<le> unat a"
proof -
  note t = prefix_test4_iff [OF assms] ipv4_value_div
  have less: "unat a < 256" "unat b < 256" "unat b div 16 < 16"
    using unat_u8_less [of a] unat_u8_less [of b] by simp_all
  have eq: "(k = unat x) = (x = of_nat k)" if "k < 256" for k and x :: u8
    using that by (auto simp: unat_of_nat)
  have "contains4 e (Ipv4 0 0 0 0) 8 (Ipv4 a b c d) \<longleftrightarrow> a = 0"
    "contains4 e (Ipv4 127 0 0 0) 8 (Ipv4 a b c d) \<longleftrightarrow> a = 127"
    "contains4 e (Ipv4 10 0 0 0) 8 (Ipv4 a b c d) \<longleftrightarrow> a = 10"
    using eq [of 127 a] eq [of 10 a] by (simp_all add: t del: ipv4_value.simps) (metis unat_eq_zero)
  moreover have "contains4 e (Ipv4 169 254 0 0) 16 (Ipv4 a b c d) \<longleftrightarrow> a = 169 \<and> b = 254"
    "contains4 e (Ipv4 192 168 0 0) 16 (Ipv4 a b c d) \<longleftrightarrow> a = 192 \<and> b = 168"
    using octet_split [of "unat b" 256 254 169 "unat a"] octet_split [of "unat b" 256 168 192 "unat a"]
      eq [of 169 a] eq [of 254 b] eq [of 192 a] eq [of 168 b] less(2)
    by (simp_all add: t del: ipv4_value.simps)
  moreover have "contains4 e (Ipv4 172 16 0 0) 12 (Ipv4 a b c d) \<longleftrightarrow>
      a = 172 \<and> 16 \<le> unat b \<and> unat b \<le> 31"
  proof -
    have "(1 = unat b div 16) = (16 \<le> unat b \<and> unat b \<le> 31)" by (rule div16_one)
    then show ?thesis
      using octet_split [of "unat b div 16" 16 1 172 "unat a"] eq [of 172 a] less(3)
      by (simp add: t del: ipv4_value.simps)
  qed
  moreover have "contains4 e (Ipv4 224 0 0 0) 4 (Ipv4 a b c d) \<or>
      contains4 e (Ipv4 240 0 0 0) 4 (Ipv4 a b c d) \<longleftrightarrow> 224 \<le> unat a"
  proof -
    have "(14 = unat a div 16 \<or> 15 = unat a div 16) = (224 \<le> unat a)"
      by (rule div16_top [OF less(1)])
    then show ?thesis by (simp add: t del: ipv4_value.simps)
  qed
  ultimately show ?thesis by auto
qed

lemma is_reserved_ipv4_witness:
  "is_reserved
     \<lparr>contains4 = (\<lambda>net n a. ipv4_value net div 2 ^ (32 - n) = ipv4_value a div 2 ^ (32 - n)),
      contains6 = (\<lambda>net n a. net = a), is_link_local = (\<lambda>_. False)\<rparr>
     (IpV4 (Ipv4 172 20 0 1))"
proof -
  have "prefix_test4 (\<lambda>net n a. ipv4_value net div 2 ^ (32 - n) = ipv4_value a div 2 ^ (32 - n))"
    by (simp add: prefix_test4_def)
  then show ?thesis by (subst is_reserved_ipv4) simp_all
qed

end
