(* ===== verification/RD_Sniffer.thy ===== *)
theory RD_Sniffer
  imports RD_Rule RD_Net RD_CopyUdp
begin

text \<open>
  The DNS sniffer of \<^verbatim>\<open>rd-std/src/sniffer\<close>: it learns from the DNS answers that pass through its
  UDP sockets which domain an address belongs to (\<^verbatim>\<open>service.rs\<close>), and connects to the domain when
  it is asked to connect to such an address (\<^verbatim>\<open>dns_sniffer.rs\<close>).

  The parser of DNS messages and the cache of \<open>lru_time_cache\<close> are parameters. Of the cache only
  the laws of \<^verbatim>\<open>RD_Rule\<close> are used, and that \<open>peek\<close> finds only what was inserted: an entry may be
  gone at any time. The net is a program over the calls of \<^verbatim>\<open>RD_Net\<close>, and its state, which its
  sockets share, a part of the world (\<open>get_rl\<close>, \<open>put_rl\<close>).

  The reference are the two maps \<open>latest_addr\<close> and \<open>latest_alias\<close> a reader of all answers would
  keep: what a lookup returns is the latest answer for the address, followed along at most 16
  aliases.
\<close>

section \<open>ReverseLookup\<close>

datatype rdata = RA ipv4 | RAAAA ipv6 | RCNAME string | ROther

text \<open>What is used of \<open>trust_dns_proto::op::Message\<close>: the names asked for and, of each answer, the
  data if it has any. Names are as \<open>to_utf8\<close> gives them.\<close>

record dns_message =
  queries :: "string list"
  answers :: "rdata option list"

type_synonym dns_decoder = "u8 list \<Rightarrow> dns_message option"

record ('r, 'c) reverse_lookup =
  rl_records :: 'r
  rl_cname_map :: 'c

text \<open>The two caches: the operations of both, and \<open>peek\<close> of the second.\<close>

record ('r, 'c) rl_caches =
  rec_lru :: "(ip_addr, string, 'r) lru_ops"
  cname_lru :: "(string, string, 'c) lru_ops"
  cname_peek :: "string \<Rightarrow> 'c \<Rightarrow> string option"

definition rl_expiry_secs :: nat where
  "rl_expiry_secs = 10 * 60"

definition rl_capacity :: nat where
  "rl_capacity = 128"

definition reverse_lookup_new ::
  "(nat \<Rightarrow> nat \<Rightarrow> 'r) \<Rightarrow> (nat \<Rightarrow> nat \<Rightarrow> 'c) \<Rightarrow> ('r, 'c) reverse_lookup" where
  "reverse_lookup_new with_expiry1 with_expiry2 =
     \<lparr>rl_records = with_expiry1 rl_expiry_secs rl_capacity,
      rl_cname_map = with_expiry2 rl_expiry_secs rl_capacity\<rparr>"

definition trim_end_dots :: "string \<Rightarrow> string" where
  "trim_end_dots s = trim_end_matches (CHR ''.'') s"

fun record_rdata ::
  "('r, 'c) rl_caches \<Rightarrow> string \<Rightarrow> rdata \<Rightarrow> ('r, 'c) reverse_lookup \<Rightarrow> ('r, 'c) reverse_lookup" where
  "record_rdata C domain (RA a) rl = rl\<lparr>rl_records := lru_insert (rec_lru C) (IpV4 a) domain (rl_records rl)\<rparr>"
| "record_rdata C domain (RAAAA a) rl = rl\<lparr>rl_records := lru_insert (rec_lru C) (IpV6 a) domain (rl_records rl)\<rparr>"
| "record_rdata C domain (RCNAME n) rl =
     rl\<lparr>rl_cname_map := lru_insert (cname_lru C) (trim_end_dots n) domain (rl_cname_map rl)\<rparr>"
| "record_rdata C domain ROther rl = rl"

definition record_packet ::
  "dns_decoder \<Rightarrow> ('r, 'c) rl_caches \<Rightarrow> u8 list \<Rightarrow> ('r, 'c) reverse_lookup \<Rightarrow> ('r, 'c) reverse_lookup" where
  "record_packet decode C packet rl =
     (case decode packet of
        None \<Rightarrow> rl
      | Some msg \<Rightarrow>
          if length (queries msg) = 1 then
            (let domain = trim_end_dots (hd (queries msg))
             in fold (record_rdata C domain) (concat (map (case_option [] (\<lambda>d. [d])) (answers msg))) rl)
          else rl)"

text \<open>The loop that follows the aliases, with its limit.\<close>

function cname_walk :: "(string \<Rightarrow> string option) \<Rightarrow> nat \<Rightarrow> string \<Rightarrow> string" where
  "cname_walk peek limit d =
     (case peek d of
        None \<Rightarrow> d
      | Some r \<Rightarrow> if r = d \<or> limit = 0 then d else cname_walk peek (limit - 1) r)"
  by pat_completeness auto
termination
  by (relation "measure (\<lambda>(peek, limit, d). limit)") auto

declare cname_walk.simps [simp del]

definition cname_limit :: nat where
  "cname_limit = 16"

definition rl_reverse_lookup ::
  "('r, 'c) rl_caches \<Rightarrow> ip_addr \<Rightarrow> ('r, 'c) reverse_lookup \<Rightarrow> string option \<times> ('r, 'c) reverse_lookup" where
  "rl_reverse_lookup C addr rl =
     (case lru_get (rec_lru C) addr (rl_records rl) of
        (None, r) \<Rightarrow> (None, rl\<lparr>rl_records := r\<rparr>)
      | (Some d, r) \<Rightarrow>
          (Some (cname_walk (\<lambda>k. cname_peek C k (rl_cname_map rl)) cname_limit d),
           rl\<lparr>rl_records := r\<rparr>))"

section \<open>DNSSnifferNet\<close>

text \<open>\<open>DNSSnifferNet::reverse_lookup\<close>; the \<open>expect\<close> on the context is the panic.\<close>

definition sniffer_reverse_lookup ::
  "('r, 'c) rl_caches \<Rightarrow> conn_context \<Rightarrow> address \<Rightarrow> ('r, 'c) reverse_lookup \<Rightarrow>
   (address \<times> conn_context \<times> ('r, 'c) reverse_lookup) outcome" where
  "sniffer_reverse_lookup C ctx addr rl =
     (case addr of
        SocketAddr sa \<Rightarrow>
          (case rl_reverse_lookup C (sa_ip sa) rl of
             (None, rl') \<Rightarrow> Ret (addr, ctx, rl')
           | (Some name, rl') \<Rightarrow>
               (case insert_common dest_domain_field \<lparr>ad_domain = name, ad_port = sa_port sa\<rparr> ctx of
                  (Inl _, _) \<Rightarrow> Panic
                | (Inr _, ctx') \<Rightarrow> Ret (Domain name (sa_port sa), ctx', rl')))
      | d \<Rightarrow> Ret (d, ctx, rl))"

text \<open>The two operations the net has itself, as a program with one inner net. A panic does not
  return (the index 1 is out of range); \<open>mitm\<close> wraps a socket into a \<open>MitmUdp\<close>.\<close>

definition sniffer_prog ::
  "('r, 'c) rl_caches \<Rightarrow> ('x \<Rightarrow> ('r, 'c) reverse_lookup) \<Rightarrow> (('r, 'c) reverse_lookup \<Rightarrow> 'x \<Rightarrow> 'x) \<Rightarrow>
   ('h item \<Rightarrow> 'h item) \<Rightarrow> net_op \<Rightarrow> address \<Rightarrow> conn_context \<Rightarrow> 'x \<Rightarrow> ('h, 'x) prog" where
  "sniffer_prog C get_rl put_rl mitm op a ctx x =
     (if op = TcpConnect then
        (case sniffer_reverse_lookup C ctx a (get_rl x) of
           Panic \<Rightarrow> Call 1 op a ctx x (\<lambda>(r, c, y). prog.Done r c y)
         | Ret (a', ctx', rl) \<Rightarrow> Call 0 op a' ctx' (put_rl rl x) (\<lambda>(r, c, y). prog.Done r c y))
      else Call 0 op a ctx x (\<lambda>(r, c, y). prog.Done (map_ok mitm r) c y))"

definition sniffer_provides :: "net_op \<Rightarrow> bool" where
  "sniffer_provides op \<longleftrightarrow> op = TcpConnect \<or> op = UdpBind"

definition sniffer_net :: "'p \<Rightarrow> 'p net \<Rightarrow> 'p net" where
  "sniffer_net p n = CombineNet (Ext p [n]) n (Ext p [n]) n"

text \<open>\<open>MitmUdp::poll_recv_from\<close>; \<open>filled\<close> is what the buffer held before.\<close>

definition mitm_poll_recv_from ::
  "dns_decoder \<Rightarrow> ('r, 'c) rl_caches \<Rightarrow> u8 list \<Rightarrow> nat \<Rightarrow> socket_addr dgram_source \<Rightarrow>
   ('r, 'c) reverse_lookup \<Rightarrow>
   (io_error + u8 list \<times> socket_addr) poll \<times> socket_addr dgram_source \<times> ('r, 'c) reverse_lookup" where
  "mitm_poll_recv_from decode C filled room s rl =
     (case poll_fetch room s of
        (Ready (Inr (bs, from_addr)), s') \<Rightarrow>
          (Ready (Inr (bs, from_addr)), s',
           if sa_port from_addr = 53 then record_packet decode C (filled @ bs) rl else rl)
      | (r, s') \<Rightarrow> (r, s', rl))"

section \<open>What was answered\<close>

fun answer_addr :: "rdata \<Rightarrow> ip_addr option" where
  "answer_addr (RA a) = Some (IpV4 a)"
| "answer_addr (RAAAA a) = Some (IpV6 a)"
| "answer_addr _ = None"

fun answer_alias :: "rdata \<Rightarrow> string option" where
  "answer_alias (RCNAME n) = Some (trim_end_dots n)"
| "answer_alias _ = None"

text \<open>The facts of a packet: the domain asked for with each answer.\<close>

definition packet_answers :: "dns_decoder \<Rightarrow> u8 list \<Rightarrow> (string \<times> rdata) list" where
  "packet_answers decode packet =
     (case decode packet of
        Some msg \<Rightarrow>
          if length (queries msg) = 1
          then [(trim_end_dots (hd (queries msg)), d). Some d \<leftarrow> answers msg] else []
      | None \<Rightarrow> [])"

definition latest :: "(rdata \<Rightarrow> 'k option) \<Rightarrow> (string \<times> rdata) list \<Rightarrow> 'k \<Rightarrow> string option" where
  "latest key as k = map_option fst (find (\<lambda>(d, r). key r = Some k) (rev as))"

abbreviation "latest_addr \<equiv> latest answer_addr"
abbreviation "latest_alias \<equiv> latest answer_alias"

fun alias_steps :: "(string \<Rightarrow> string option) \<Rightarrow> nat \<Rightarrow> string \<Rightarrow> string option" where
  "alias_steps m 0 d = Some d"
| "alias_steps m (Suc n) d = Option.bind (m d) (alias_steps m n)"

text \<open>What happens at the sniffer: a datagram arrives at one of its sockets, or a connection to an
  address is asked for.\<close>

datatype sniff_event = Received socket_addr "u8 list" | Connected ip_addr

fun sniff_step ::
  "dns_decoder \<Rightarrow> ('r, 'c) rl_caches \<Rightarrow> sniff_event \<Rightarrow> ('r, 'c) reverse_lookup \<Rightarrow> ('r, 'c) reverse_lookup" where
  "sniff_step decode C (Received from d) rl =
     snd (snd (mitm_poll_recv_from decode C [] (length d)
       \<lparr>src_script = [AOk (d, from)], received = []\<rparr> rl))"
| "sniff_step decode C (Connected ip) rl = snd (rl_reverse_lookup C ip rl)"

fun heard :: "dns_decoder \<Rightarrow> sniff_event \<Rightarrow> (string \<times> rdata) list" where
  "heard decode (Received from d) = (if sa_port from = 53 then packet_answers decode d else [])"
| "heard decode (Connected ip) = []"

definition peek_law :: "('c \<Rightarrow> string \<Rightarrow> string option) \<Rightarrow> (string \<Rightarrow> 'c \<Rightarrow> string option) \<Rightarrow> bool" where
  "peek_law content peek \<longleftrightarrow> (\<forall>k c v. peek k c = Some v \<longrightarrow> content c k = Some v)"

definition rl_inv ::
  "('r \<Rightarrow> ip_addr \<Rightarrow> string option) \<Rightarrow> ('c \<Rightarrow> string \<Rightarrow> string option) \<Rightarrow> (string \<times> rdata) list \<Rightarrow>
   ('r, 'c) reverse_lookup \<Rightarrow> bool" where
  "rl_inv rc cc as rl \<longleftrightarrow>
     rc (rl_records rl) \<subseteq>\<^sub>m latest_addr as \<and> cc (rl_cname_map rl) \<subseteq>\<^sub>m latest_alias as"

lemma latest_Nil [simp]: "latest key [] = Map.empty"
  by (auto simp: latest_def)

lemma latest_snoc:
  "latest key (as @ [(d, r)]) =
     (case key r of None \<Rightarrow> latest key as | Some k \<Rightarrow> (latest key as)(k \<mapsto> d))"
  by (auto simp: latest_def fun_eq_iff split: option.splits)

lemma record_rdata_inv:
  assumes "lru_laws (rec_lru C) rc" "lru_laws (cname_lru C) cc" "rl_inv rc cc as rl"
  shows "rl_inv rc cc (as @ [(d, r)]) (record_rdata C d r rl)"
proof -
  have ins: "m (lru_insert l k v c) \<subseteq>\<^sub>m M(k \<mapsto> v)" if "lru_laws l m" "m c \<subseteq>\<^sub>m M" for l m k v c M
    using that unfolding lru_laws_def by (meson map_le_trans map_le_upd)
  show ?thesis
    using assms by (cases r) (auto simp: rl_inv_def latest_snoc intro: ins)
qed

lemma record_packet_inv:
  assumes "lru_laws (rec_lru C) rc" "lru_laws (cname_lru C) cc" "rl_inv rc cc as rl"
  shows "rl_inv rc cc (as @ packet_answers decode p) (record_packet decode C p rl)"
proof -
  have f: "rl_inv rc cc (as @ map (Pair d) ds) (fold (record_rdata C d) ds rl)"
    if "rl_inv rc cc as rl" for d ds as rl
    using that
  proof (induction ds arbitrary: as rl)
    case (Cons r ds)
    from Cons.IH [OF record_rdata_inv [OF assms(1,2) Cons.prems, of d r]] show ?case by simp
  qed simp
  have e: "map (Pair d) (concat (map (case_option [] (\<lambda>x. [x])) xs)) = [(d, x). Some x \<leftarrow> xs]"
    for d and xs :: "rdata option list"
    by (induction xs) (auto split: option.splits)
  show ?thesis
    using f [OF assms(3)] assms(3)
    by (auto simp: record_packet_def packet_answers_def Let_def e [symmetric] split: option.splits)
qed

lemma rl_inv_init: "rc (rl_records rl) = Map.empty \<Longrightarrow> cc (rl_cname_map rl) = Map.empty \<Longrightarrow> rl_inv rc cc [] rl"
  by (simp add: rl_inv_def)

lemma reverse_lookup_inv:
  assumes "lru_laws (rec_lru C) rc" "rl_inv rc cc as rl"
  shows "rl_inv rc cc as (snd (rl_reverse_lookup C ip rl))"
proof -
  obtain v r where g: "lru_get (rec_lru C) ip (rl_records rl) = (v, r)" by fastforce
  with assms(1) have "rc r \<subseteq>\<^sub>m rc (rl_records rl)" unfolding lru_laws_def by blast
  with assms(2) have "rc r \<subseteq>\<^sub>m latest_addr as" unfolding rl_inv_def by (blast intro: map_le_trans)
  with g assms(2) show ?thesis by (cases v) (simp_all add: rl_reverse_lookup_def rl_inv_def)
qed

lemma sniff_step_inv:
  assumes "lru_laws (rec_lru C) rc" "lru_laws (cname_lru C) cc" "rl_inv rc cc as rl"
  shows "rl_inv rc cc (as @ heard decode e) (sniff_step decode C e rl)"
proof (cases e)
  case (Received src d)
  with record_packet_inv [OF assms] assms(3) show ?thesis
    by (simp add: mitm_poll_recv_from_def poll_fetch_def)
qed (use reverse_lookup_inv [OF assms(1,3)] in simp)

lemma sniff_run_inv:
  assumes "lru_laws (rec_lru C) rc" "lru_laws (cname_lru C) cc" "rl_inv rc cc as rl"
  shows "rl_inv rc cc (as @ concat (map (heard decode) es)) (fold (sniff_step decode C) es rl)"
  using assms(3)
proof (induction es arbitrary: as rl)
  case (Cons e es)
  from Cons.IH [OF sniff_step_inv [OF assms(1,2) Cons.prems, of decode e]] show ?case by simp
qed simp

text \<open>The walk ends, also when the aliases form a cycle, and only follows aliases.\<close>

lemma cname_walk_steps:
  assumes "\<And>k v. peek k = Some v \<Longrightarrow> m k = Some v"
  shows "\<exists>n \<le> limit. alias_steps m n d = Some (cname_walk peek limit d)"
  using assms
proof (induction peek limit d rule: cname_walk.induct)
  case (1 peek limit d)
  show ?case
  proof (cases "\<exists>r. peek d = Some r \<and> r \<noteq> d \<and> limit \<noteq> 0")
    case True
    then obtain r where r: "peek d = Some r" "r \<noteq> d" "limit \<noteq> 0" by blast
    with "1.IH" [OF r(1)] "1.prems" obtain n
      where "n \<le> limit - 1" "alias_steps m n r = Some (cname_walk peek (limit - 1) r)" by auto
    with r "1.prems" [OF r(1)] show ?thesis
      by (intro exI [of _ "Suc n"]) (simp add: cname_walk.simps [of peek limit d])
  next
    case False
    then have "cname_walk peek limit d = d"
      by (subst cname_walk.simps) (auto split: option.splits)
    then show ?thesis by (intro exI [of _ 0]) simp
  qed
qed

lemma reverse_lookup_sound:
  assumes "lru_laws (rec_lru C) rc" "peek_law cc (cname_peek C)" "rl_inv rc cc as rl"
    and "rl_reverse_lookup C ip rl = (Some d, rl')"
  shows "\<exists>d0 n. latest_addr as ip = Some d0 \<and> n \<le> cname_limit \<and>
    alias_steps (latest_alias as) n d0 = Some d"
proof -
  from assms(4) obtain d0 r where g: "lru_get (rec_lru C) ip (rl_records rl) = (Some d0, r)"
    and d: "d = cname_walk (\<lambda>k. cname_peek C k (rl_cname_map rl)) cname_limit d0"
    by (auto simp: rl_reverse_lookup_def split: prod.splits option.splits)
  from g assms(1) have "rc (rl_records rl) ip = Some d0" unfolding lru_laws_def by fastforce
  with assms(3) have "latest_addr as ip = Some d0"
    unfolding rl_inv_def map_le_def by (metis domI)
  moreover have "latest_alias as k = Some v" if "cname_peek C k (rl_cname_map rl) = Some v" for k v
    using that assms(2,3) unfolding peek_law_def rl_inv_def map_le_def by (metis domI)
  then have "\<exists>n \<le> cname_limit. alias_steps (latest_alias as) n d0 = Some d"
    unfolding d by (rule cname_walk_steps)
  ultimately show ?thesis by blast
qed

text \<open>The context never refuses a domain, so the sniffer does not panic.\<close>

lemma sniffer_reverse_lookup_eq:
  "\<exists>ctx'. get_common dest_domain_field ctx' = Inr (Some \<lparr>ad_domain = d, ad_port = sa_port sa\<rparr>) \<and>
     net_list ctx' = net_list ctx \<and>
     (\<forall>k. k \<noteq> cf_key dest_domain_field \<longrightarrow> data ctx' k = data ctx k) \<and>
     (rl_reverse_lookup C (sa_ip sa) rl = (Some d, rl') \<longrightarrow>
       sniffer_reverse_lookup C ctx (SocketAddr sa) rl = Ret (Domain d (sa_port sa), ctx', rl'))"
proof -
  obtain ctx' where "insert_common dest_domain_field \<lparr>ad_domain = d, ad_port = sa_port sa\<rparr> ctx = (Inr (), ctx')"
    "get_common dest_domain_field ctx' = Inr (Some \<lparr>ad_domain = d, ad_port = sa_port sa\<rparr>)"
    "net_list ctx' = net_list ctx" "\<forall>k. k \<noteq> cf_key dest_domain_field \<longrightarrow> data ctx' k = data ctx k"
    using dest_domain.get_insert [of "\<lparr>ad_domain = d, ad_port = sa_port sa\<rparr>" ctx] by auto
  then show ?thesis
    by (intro exI [of _ ctx']) (auto simp: sniffer_reverse_lookup_def)
qed

lemma sniffer_call:
  assumes "ext_provides E p = sniffer_provides" "ext_prog E p = sniffer_prog C get_rl put_rl mitm"
    and "sniffer_reverse_lookup C ctx a (get_rl (outer w)) = Ret (a', ctx', rl)"
  shows "net_call (Suc k) E H (sniffer_net p n) TcpConnect a ctx w =
    net_call k E H n TcpConnect a' ctx' (w\<lparr>outer := put_rl rl (outer w)\<rparr>)"
proof -
  have "net_call (Suc k) E H (sniffer_net p n) TcpConnect a ctx w =
      (case net_call k E H n TcpConnect a' ctx' (w\<lparr>outer := put_rl rl (outer w)\<rparr>) of
         None \<Rightarrow> None | Some (r, c, v) \<Rightarrow> Some (r, c, v))"
    using assms
    by (auto simp: sniffer_net_def sniffer_provides_def sniffer_prog_def split: option.splits)
  then show ?thesis by (auto split: option.splits)
qed

lemma sniffer_passes_on:
  "\<not> sniffer_provides op \<Longrightarrow> net_call k E H (sniffer_net p n) op = net_call k E H n op"
  by (cases op) (simp_all add: sniffer_net_def sniffer_provides_def combine_transparent)

section \<open>Properties\<close>

text \<open>C14: Connecting to an address through the sniffer, after any datagrams and connections.
  When the lookup finds nothing the inner net is asked for the same address in the same context.
  Otherwise it is asked for a domain with the same port, and the context holds that domain as the
  destination. The domain is never made up: it is the one asked for in the latest DNS answer
  (from port 53) for this address, followed along at most 16 aliases of the latest answers, also
  when the aliases form a cycle. Nothing else of the context or the world changes.\<close>

theorem sniffer_connect:
  assumes laws: "lru_laws (rec_lru C) rc" "lru_laws (cname_lru C) cc" "peek_law cc (cname_peek C)"
    and new: "rc (rl_records rl0) = Map.empty" "cc (rl_cname_map rl0) = Map.empty"
    and net: "ext_provides E p = sniffer_provides" "ext_prog E p = sniffer_prog C get_rl put_rl mitm"
    and run: "get_rl (outer w) = fold (sniff_step decode C) es rl0"
  shows "case rl_reverse_lookup C (sa_ip sa) (get_rl (outer w)) of
      (None, rl) \<Rightarrow>
        net_call (Suc k) E H (sniffer_net p n) TcpConnect (SocketAddr sa) ctx w =
        net_call k E H n TcpConnect (SocketAddr sa) ctx (w\<lparr>outer := put_rl rl (outer w)\<rparr>)
    | (Some d, rl) \<Rightarrow>
        (\<exists>d0 m. latest_addr (concat (map (heard decode) es)) (sa_ip sa) = Some d0 \<and> m \<le> 16 \<and>
           alias_steps (latest_alias (concat (map (heard decode) es))) m d0 = Some d) \<and>
        (\<exists>ctx'. get_common dest_domain_field ctx' = Inr (Some \<lparr>ad_domain = d, ad_port = sa_port sa\<rparr>) \<and>
           net_list ctx' = net_list ctx \<and>
           (\<forall>key. key \<noteq> cf_key dest_domain_field \<longrightarrow> data ctx' key = data ctx key) \<and>
           net_call (Suc k) E H (sniffer_net p n) TcpConnect (SocketAddr sa) ctx w =
           net_call k E H n TcpConnect (Domain d (sa_port sa)) ctx' (w\<lparr>outer := put_rl rl (outer w)\<rparr>))"
proof -
  let ?rl = "get_rl (outer w)" and ?as = "concat (map (heard decode) es)"
  obtain v rl where l: "rl_reverse_lookup C (sa_ip sa) ?rl = (v, rl)" by fastforce
  have inv: "rl_inv rc cc ?as ?rl"
    using sniff_run_inv [OF laws(1,2) rl_inv_init [of rc rl0 cc, OF new], of decode es] run by simp
  show ?thesis
  proof (cases v)
    case None
    with l have "sniffer_reverse_lookup C ctx (SocketAddr sa) ?rl = Ret (SocketAddr sa, ctx, rl)"
      by (simp add: sniffer_reverse_lookup_def)
    from sniffer_call [OF net this] l None show ?thesis by (simp del: net_call.simps)
  next
    case (Some d)
    from sniffer_reverse_lookup_eq [of d sa ctx C ?rl rl] obtain ctx'
      where c: "get_common dest_domain_field ctx' = Inr (Some \<lparr>ad_domain = d, ad_port = sa_port sa\<rparr>)"
        "net_list ctx' = net_list ctx" "\<forall>key. key \<noteq> cf_key dest_domain_field \<longrightarrow> data ctx' key = data ctx key"
      and s: "sniffer_reverse_lookup C ctx (SocketAddr sa) ?rl = Ret (Domain d (sa_port sa), ctx', rl)"
      using l Some by blast
    from reverse_lookup_sound [OF laws(1,3) inv l [unfolded Some]] c sniffer_call [OF net s, of k H n]
    show ?thesis unfolding l Some cname_limit_def prod.case option.case by blast
  qed
qed

text \<open>An answer is recovered: right after a DNS answer whose last record is an address passed
  through a socket of the sniffer, a lookup of that address finds the domain that was asked for,
  followed along the aliases known, whatever the caches held before; when the domain asked for is
  not itself known as an alias it is the result.\<close>

theorem answer_recovered:
  assumes keeps: "\<And>k v c. rc (lru_insert (rec_lru C) k v c) k = Some v"
    and finds: "\<And>k c. fst (lru_get (rec_lru C) k c) = rc c k"
    and msg: "decode packet = Some msg" "queries msg = [q]" "answers msg = as @ [Some r]"
    and addr: "answer_addr r = Some ip" and port: "sa_port src = 53"
    and rl': "rl' = sniff_step decode C (Received src packet) rl"
  shows "fst (rl_reverse_lookup C ip rl') =
      Some (cname_walk (\<lambda>k. cname_peek C k (rl_cname_map rl')) 16 (trim_end_dots q)) \<and>
    (cname_peek C (trim_end_dots q) (rl_cname_map rl') = None \<longrightarrow>
      fst (rl_reverse_lookup C ip rl') = Some (trim_end_dots q))"
proof -
  let ?d = "trim_end_dots q"
  have "\<exists>rl1. rl' = record_rdata C ?d r rl1"
    using msg port by (auto simp: rl' mitm_poll_recv_from_def poll_fetch_def record_packet_def Let_def)
  then obtain rl1 where rl1: "rl' = record_rdata C ?d r rl1" ..
  have "rc (rl_records (record_rdata C ?d r rl1)) ip = Some ?d"
    using addr keeps by (cases r) auto
  with finds [of ip "rl_records rl'"] rl1 obtain c
    where "lru_get (rec_lru C) ip (rl_records rl') = (Some ?d, c)"
    by (metis prod.exhaust_sel)
  then have e: "fst (rl_reverse_lookup C ip rl') =
      Some (cname_walk (\<lambda>k. cname_peek C k (rl_cname_map rl')) 16 ?d)"
    by (simp add: rl_reverse_lookup_def cname_limit_def)
  then show ?thesis by (simp add: cname_walk.simps [of _ 16 ?d])
qed

section \<open>Witnesses\<close>

text \<open>Caches that are maps, and a decoder that reads every packet as the answer for
  \<open>a.com\<close>: an alias and the address 10.0.0.1.\<close>

definition demo_caches :: "(ip_addr \<Rightarrow> string option, string \<Rightarrow> string option) rl_caches" where
  "demo_caches = \<lparr>rec_lru = map_lru, cname_lru = map_lru, cname_peek = (\<lambda>k c. c k)\<rparr>"

definition demo_decoder :: dns_decoder where
  "demo_decoder packet =
     Some \<lparr>queries = [''a.com.''], answers = [Some (RCNAME ''b.com.''), None, Some (RA (Ipv4 10 0 0 1))]\<rparr>"

definition demo_rl :: "(ip_addr \<Rightarrow> string option, string \<Rightarrow> string option) reverse_lookup" where
  "demo_rl = \<lparr>rl_records = Map.empty, rl_cname_map = Map.empty\<rparr>"

definition demo_dns :: sniff_event where
  "demo_dns = Received (SV4 (Ipv4 8 8 8 8) 53) [0]"

lemma demo_sniffed:
  "sniff_step demo_decoder demo_caches demo_dns demo_rl =
     \<lparr>rl_records = [IpV4 (Ipv4 10 0 0 1) \<mapsto> ''a.com''], rl_cname_map = [''b.com'' \<mapsto> ''a.com'']\<rparr>"
  by (simp add: demo_dns_def mitm_poll_recv_from_def poll_fetch_def record_packet_def demo_decoder_def
      trim_end_dots_def trim_end_matches_def demo_caches_def demo_rl_def map_lru_def Let_def)

theorem answer_recovered_witness:
  "fst (rl_reverse_lookup demo_caches (IpV4 (Ipv4 10 0 0 1))
     (sniff_step demo_decoder demo_caches demo_dns demo_rl)) = Some ''a.com''"
  using answer_recovered [of "\<lambda>c. c" demo_caches demo_decoder "[0]"
    "\<lparr>queries = [''a.com.''], answers = [Some (RCNAME ''b.com.''), None, Some (RA (Ipv4 10 0 0 1))]\<rparr>"
    "''a.com.''" "[Some (RCNAME ''b.com.''), None]" "RA (Ipv4 10 0 0 1)" "IpV4 (Ipv4 10 0 0 1)"
    "SV4 (Ipv4 8 8 8 8) 53" "sniff_step demo_decoder demo_caches demo_dns demo_rl" demo_rl]
  unfolding demo_dns_def [symmetric] demo_sniffed
  by (auto simp: demo_caches_def map_lru_def demo_decoder_def trim_end_dots_def trim_end_matches_def
      cname_walk.simps [of _ _ "''a.com''"])

definition demo_sniffer_ops ::
  "(bool, unit, (ip_addr \<Rightarrow> string option, string \<Rightarrow> string option) reverse_lookup) ext_ops" where
  "demo_sniffer_ops =
     \<lparr>ext_provides = (\<lambda>b. if b then sniffer_provides else (\<lambda>_. True)),
      ext_prog = (\<lambda>b. if b then sniffer_prog demo_caches (\<lambda>x. x) (\<lambda>rl x. rl) (\<lambda>i. i)
        else (\<lambda>op a ctx x. prog.Done (if a = Domain ''a.com'' 443 then Inr (Inner ()) else Inl Timeout) ctx x)),
      addr_ser = (\<lambda>_. Inl []), addr_de = (\<lambda>_. Inl [])\<rparr>"

text \<open>A connection to 10.0.0.1:443 is made to \<open>a.com:443\<close>.\<close>

theorem sniffer_connect_witness:
  "\<exists>ctx' w'. net_call 2 demo_sniffer_ops (\<lambda>_. None) (sniffer_net True (Ext False [])) TcpConnect
      (SocketAddr (SV4 (Ipv4 10 0 0 1) 443)) context_new
      \<lparr>conns = sys_init, next_uuid = 0, clock = 0,
       outer = sniff_step demo_decoder demo_caches demo_dns demo_rl\<rparr> = Some (Inr (Inner ()), ctx', w') \<and>
    get_common dest_domain_field ctx' = Inr (Some \<lparr>ad_domain = ''a.com'', ad_port = 443\<rparr>)"
proof -
  let ?w = "\<lparr>conns = sys_init, next_uuid = 0, clock = 0,
    outer = sniff_step demo_decoder demo_caches demo_dns demo_rl\<rparr> ::
      (ip_addr \<Rightarrow> string option, string \<Rightarrow> string option) reverse_lookup world"
  let ?sa = "SV4 (Ipv4 10 0 0 1) 443"
  have laws: "lru_laws (rec_lru demo_caches) (\<lambda>c. c)" "lru_laws (cname_lru demo_caches) (\<lambda>c. c)"
    "peek_law (\<lambda>c. c) (cname_peek demo_caches)"
    using map_lru_laws by (auto simp: demo_caches_def peek_law_def)
  have l: "rl_reverse_lookup demo_caches (sa_ip ?sa) (outer ?w) = (Some ''a.com'', outer ?w)"
    unfolding demo_sniffed
    by (simp add: rl_reverse_lookup_def demo_caches_def map_lru_def cname_walk.simps [of _ _ "''a.com''"])
  have k: "Suc 1 = (2 :: nat)" by simp
  have inner: "net_call 1 demo_sniffer_ops (\<lambda>_. None) (Ext False []) TcpConnect (Domain ''a.com'' 443) ctx v =
      Some (Inr (Inner ()), ctx, v)" for ctx v
    by (simp add: demo_sniffer_ops_def)
  show ?thesis
    using sniffer_connect [where C = demo_caches and rc = "\<lambda>c. c" and cc = "\<lambda>c. c" and ?rl0.0 = demo_rl
        and E = demo_sniffer_ops and p = True and get_rl = "\<lambda>x. x" and put_rl = "\<lambda>rl x. rl"
        and mitm = "\<lambda>i. i" and w = ?w and decode = demo_decoder and es = "[demo_dns]" and sa = ?sa
        and k = 1 and H = "\<lambda>_. None" and n = "Ext False []" and ctx = context_new, OF laws]
    unfolding k l prod.case option.case inner
    by (force simp: demo_rl_def demo_sniffer_ops_def)
qed

end
