(* ===== verification/RD_Peek.thy ===== *)
theory RD_Peek
  imports RD_CopyTcp
begin

text \<open>
  The peekable stream of \<^verbatim>\<open>rd-std/src/util/peekable_tcpstream.rs\<close> and the server that tells
  SOCKS5 from HTTP by the first byte, \<^verbatim>\<open>rd-std/src/mixed.rs\<close>.

  Streams are those of \<^verbatim>\<open>RD_CopyTcp\<close>. The \<open>VecDeque\<close> of peeked bytes is its contents; where its
  ring buffer wraps around is \<open>lay\<close>, the length of the first slice of \<open>as_slices\<close>, of which
  only that it is not empty for a non-empty deque is used. An await that never completes is
  \<open>None\<close>.

  The reference is \<open>bytes_of\<close>, the bytes a stream delivers up to its end or first error: peeking
  takes nothing away from it, and reads deliver it, whatever the sizes of the peeks and reads
  and however the bytes arrive.
\<close>

section \<open>PeekableTcpStream\<close>

record peekable =
  pk_tcp :: stream
  pk_buf :: "u8 list"

definition peekable_new :: "stream \<Rightarrow> peekable" where
  "peekable_new st = \<lparr>pk_tcp = st, pk_buf = []\<rparr>"

definition pk_poll_read ::
  "(u8 list \<Rightarrow> nat) \<Rightarrow> nat \<Rightarrow> peekable \<Rightarrow> (io_error + u8 list) poll \<times> peekable" where
  "pk_poll_read lay room p =
     (let first = take (lay (pk_buf p)) (pk_buf p)
      in if first \<noteq> [] then
           (let read = min (length first) room
            in (Ready (Inr (take read first)), p\<lparr>pk_buf := drop read (pk_buf p)\<rparr>))
         else
           (case poll_read room (pk_tcp p) of (r, st) \<Rightarrow> (r, p\<lparr>pk_tcp := st\<rparr>)))"

text \<open>\<open>read_exact\<close> of tokio: read until the buffer is full, an end of file is an error.\<close>

definition early_eof :: io_error where
  "early_eof = IoCustom UnexpectedEof ''early eof''"

function read_exact :: "nat \<Rightarrow> u8 list \<Rightarrow> stream \<Rightarrow> ((io_error + u8 list) \<times> stream) option" where
  "read_exact n acc st =
     (if n = 0 then Some (Inr acc, st)
      else
        (case rd_script st of
           [] \<Rightarrow> None
         | _ \<Rightarrow>
             (case poll_read n st of
                (Pending, st') \<Rightarrow> read_exact n acc st'
              | (Ready (Inl e), st') \<Rightarrow> Some (Inl e, st')
              | (Ready (Inr bs), st') \<Rightarrow>
                  if bs = [] then Some (Inl early_eof, st')
                  else read_exact (n - length bs) (acc @ bs) st')))"
  by pat_completeness auto
termination
  by (relation "measures [\<lambda>(n, acc, st). n, \<lambda>(n, acc, st). length (rd_script st)]")
     (auto simp: poll_read_def split: list.splits answer.splits if_splits)

declare read_exact.simps [simp del]

definition fill_buf :: "nat \<Rightarrow> peekable \<Rightarrow> ((error + unit) \<times> peekable) option" where
  "fill_buf sz p =
     (if length (pk_buf p) < sz then
        (case read_exact (sz - length (pk_buf p)) [] (pk_tcp p) of
           None \<Rightarrow> None
         | Some (Inl e, st) \<Rightarrow> Some (Inl (IO e), p\<lparr>pk_tcp := st\<rparr>)
         | Some (Inr bs, st) \<Rightarrow> Some (Inr (), p\<lparr>pk_tcp := st, pk_buf := pk_buf p @ bs\<rparr>))
      else Some (Inr (), p))"

definition peek_exact :: "nat \<Rightarrow> peekable \<Rightarrow> ((error + u8 list) \<times> peekable) option" where
  "peek_exact n p =
     (case fill_buf n p of
        None \<Rightarrow> None
      | Some (Inl e, p') \<Rightarrow> Some (Inl e, p')
      | Some (Inr _, p') \<Rightarrow> Some (Inr (take n (pk_buf p')), p'))"

definition pk_into_inner :: "peekable \<Rightarrow> stream \<times> u8 list" where
  "pk_into_inner p = (pk_tcp p, pk_buf p)"

section \<open>The mixed server\<close>

datatype mixed_handler = Socks5Handler | HttpHandler

text \<open>\<open>HttpSocks5Server::serve_connection\<close> up to the call of one of the two servers, which is
  given the peekable stream; \<open>None\<close> inside: the client closed first, nothing to do.\<close>

definition mixed_dispatch :: "stream \<Rightarrow> (mixed_handler \<times> peekable) option option" where
  "mixed_dispatch st =
     (case peek_exact 1 (peekable_new st) of
        None \<Rightarrow> None
      | Some (Inl e, p) \<Rightarrow> Some None
      | Some (Inr b, p) \<Rightarrow> Some (Some (if b = [0x05] then Socks5Handler else HttpHandler, p)))"

section \<open>What a stream delivers\<close>

fun bytes_of :: "u8 list answer list \<Rightarrow> u8 list" where
  "bytes_of [] = []"
| "bytes_of (APending # as) = bytes_of as"
| "bytes_of (AErr e # as) = []"
| "bytes_of (AOk bs # as) = (if bs = [] then [] else bs @ bytes_of as)"

definition st_bytes :: "stream \<Rightarrow> u8 list" where
  "st_bytes st = bytes_of (rd_script st)"

definition pk_bytes :: "peekable \<Rightarrow> u8 list" where
  "pk_bytes p = pk_buf p @ st_bytes (pk_tcp p)"

lemma poll_read_bytes:
  assumes "poll_read room st = (r, st')" "0 < room"
  shows "case r of Pending \<Rightarrow> st_bytes st' = st_bytes st
    | Ready (Inl e) \<Rightarrow> st_bytes st = []
    | Ready (Inr bs) \<Rightarrow> if bs = [] then st_bytes st = [] else st_bytes st = bs @ st_bytes st'"
  using assms
  by (auto simp: poll_read_def st_bytes_def split: list.splits answer.splits if_splits)

lemma poll_read_room: "poll_read room st = (Ready (Inr bs), st') \<Longrightarrow> length bs \<le> room"
  by (auto simp: poll_read_def split: list.splits answer.splits)

lemma read_exact_bytes:
  assumes "read_exact n acc st = Some (r, st')"
  shows "case r of Inl e \<Rightarrow> length (st_bytes st) < n
    | Inr out \<Rightarrow> (\<exists>bs. out = acc @ bs \<and> length bs = n \<and> st_bytes st = bs @ st_bytes st')"
  using assms
proof (induction n acc st arbitrary: r st' rule: read_exact.induct)
  case (1 n acc st)
  note u = "1.prems" [unfolded read_exact.simps [of n acc st]]
  show ?case
  proof (cases "n = 0 \<or> rd_script st = []")
    case True
    with u show ?thesis by (auto split: if_splits)
  next
    case False
    then obtain x xs where x: "rd_script st = x # xs" by (cases "rd_script st") auto
    obtain q st1 where q: "poll_read n st = (q, st1)" by fastforce
    note b = poll_read_bytes [OF q] and l = poll_read_room [of n st _ st1]
    consider "q = Pending" | e where "q = Ready (Inl e)" | "q = Ready (Inr [])"
      | bs where "q = Ready (Inr bs)" "bs \<noteq> []"
      by (cases q) (metis sum.exhaust)+
    then show ?thesis
    proof cases
      case 1
      with False x q u have "read_exact n acc st1 = Some (r, st')" by simp
      with "1.IH"(2) [OF _ x q [symmetric] 1, of r st'] False b 1 show ?thesis by (cases r) auto
    next
      case (4 bs)
      from 4 False x q u have "read_exact (n - length bs) (acc @ bs) st1 = Some (r, st')" by simp
      with "1.IH"(1) [OF _ x q [symmetric] 4(1) refl 4(2)] False
      have "case r of Inl e \<Rightarrow> length (st_bytes st1) < n - length bs
        | Inr out \<Rightarrow> (\<exists>cs. out = (acc @ bs) @ cs \<and> length cs = n - length bs \<and>
            st_bytes st1 = cs @ st_bytes st')"
        by blast
      with b 4 False l [of bs] q show ?thesis by (cases r) auto
    qed (use False x q u b in auto)
  qed
qed

text \<open>No error before the bytes run out, and no waiting while they are there.\<close>

lemma read_exact_enough:
  assumes "n \<le> length (st_bytes st)"
  shows "\<exists>out st'. read_exact n acc st = Some (Inr out, st')"
  using assms
proof (induction n acc st rule: read_exact.induct)
  case (1 n acc st)
  note u = read_exact.simps [of n acc st]
  show ?case
  proof (cases "n = 0")
    case True
    with u show ?thesis by simp
  next
    case False
    with "1.prems" obtain x xs where x: "rd_script st = x # xs"
      by (cases "rd_script st") (auto simp: st_bytes_def)
    obtain q st1 where q: "poll_read n st = (q, st1)" by fastforce
    note b = poll_read_bytes [OF q] and l = poll_read_room [of n st _ st1]
    consider "q = Pending" | e where "q = Ready (Inl e)" | "q = Ready (Inr [])"
      | bs where "q = Ready (Inr bs)" "bs \<noteq> []"
      by (cases q) (metis sum.exhaust)+
    then show ?thesis
    proof cases
      case 1
      with "1.IH"(2) [OF _ x q [symmetric] 1] False q b "1.prems" x show ?thesis by (simp add: u)
    next
      case (4 bs)
      from 4 b False "1.prems" have "n - length bs \<le> length (st_bytes st1)" by simp
      with "1.IH"(1) [OF _ x q [symmetric] 4(1) refl 4(2)] False
      have "\<exists>out st'. read_exact (n - length bs) (acc @ bs) st1 = Some (Inr out, st')" by blast
      with 4 False x q show ?thesis by (simp add: u)
    qed (use False b "1.prems" in auto)
  qed
qed

section \<open>Peeking and reading\<close>

lemma fill_buf_bytes:
  assumes "fill_buf n p = Some (Inr u, p')"
  shows "pk_bytes p' = pk_bytes p \<and> n \<le> length (pk_buf p')"
  using assms read_exact_bytes [of "n - length (pk_buf p)" "[]" "pk_tcp p"]
  by (fastforce simp: fill_buf_def pk_bytes_def split: if_splits option.splits sum.splits prod.splits)

lemma peek_exact_bytes:
  assumes "peek_exact n p = Some (Inr bs, p')"
  shows "pk_bytes p' = pk_bytes p \<and> bs = take n (pk_bytes p) \<and> length bs = n"
proof -
  from assms obtain u where f: "fill_buf n p = Some (Inr u, p')" and bs: "bs = take n (pk_buf p')"
    by (auto simp: peek_exact_def split: option.splits sum.splits)
  from fill_buf_bytes [OF f] have "pk_bytes p = pk_bytes p'" "n \<le> length (pk_buf p')" by auto
  with bs show ?thesis by (simp add: pk_bytes_def)
qed

lemma peek_exact_total:
  assumes "n \<le> length (pk_bytes p)"
  shows "\<exists>p'. peek_exact n p = Some (Inr (take n (pk_bytes p)), p')"
proof -
  have "\<exists>u p'. fill_buf n p = Some (Inr u, p')"
  proof (cases "length (pk_buf p) < n")
    case True
    with assms have "n - length (pk_buf p) \<le> length (st_bytes (pk_tcp p))"
      by (simp add: pk_bytes_def)
    with read_exact_enough obtain out st'
      where "read_exact (n - length (pk_buf p)) [] (pk_tcp p) = Some (Inr out, st')" by blast
    with True show ?thesis by (simp add: fill_buf_def)
  qed (simp add: fill_buf_def)
  then obtain u p' where f: "fill_buf n p = Some (Inr u, p')" by blast
  then have "peek_exact n p = Some (Inr (take n (pk_buf p')), p')" by (simp add: peek_exact_def)
  with peek_exact_bytes [OF this] show ?thesis by metis
qed

lemma peek_exact_short:
  assumes "peek_exact n p = Some (Inl e, p')"
  shows "length (pk_bytes p) < n"
  using assms read_exact_bytes [of "n - length (pk_buf p)" "[]" "pk_tcp p"]
  by (fastforce simp: peek_exact_def fill_buf_def pk_bytes_def
      split: if_splits option.splits sum.splits prod.splits)

lemma pk_poll_read_bytes:
  assumes "pk_poll_read lay room p = (r, p')" "0 < room" "\<And>c. c \<noteq> [] \<Longrightarrow> 0 < lay c"
  shows "case r of Pending \<Rightarrow> pk_bytes p' = pk_bytes p
    | Ready (Inl e) \<Rightarrow> pk_bytes p = []
    | Ready (Inr bs) \<Rightarrow> if bs = [] then pk_bytes p = [] else pk_bytes p = bs @ pk_bytes p'"
proof (cases "pk_buf p = []")
  case True
  obtain q st1 where q: "poll_read room (pk_tcp p) = (q, st1)" by fastforce
  with True assms(1) have "r = q \<and> p' = p\<lparr>pk_tcp := st1\<rparr>"
    by (auto simp: pk_poll_read_def Let_def)
  with poll_read_bytes [OF q assms(2)] True show ?thesis
    by (auto simp: pk_bytes_def split: poll.splits sum.splits if_splits)
next
  case False
  with assms(3) have l: "0 < lay (pk_buf p)" by blast
  let ?k = "min (lay (pk_buf p)) room"
  from l False assms(1)
  have "r = Ready (Inr (take ?k (pk_buf p)))" "p' = p\<lparr>pk_buf := drop ?k (pk_buf p)\<rparr>"
    by (auto simp: pk_poll_read_def Let_def min_def)
  with l False assms(2) show ?thesis by (simp add: pk_bytes_def)
qed

text \<open>A reader that peeks and reads as it likes: the bytes its reads delivered, and the stream
  it leaves. The run stops at an end of file, an error or an await that does not complete.\<close>

datatype pk_op = PkRead nat | PkPeek nat

fun pk_run :: "(u8 list \<Rightarrow> nat) \<Rightarrow> pk_op list \<Rightarrow> peekable \<Rightarrow> u8 list \<times> peekable" where
  "pk_run lay [] p = ([], p)"
| "pk_run lay (PkPeek n # ops) p =
     (case peek_exact n p of
        Some (Inr _, p') \<Rightarrow> pk_run lay ops p'
      | Some (Inl _, p') \<Rightarrow> ([], p)
      | None \<Rightarrow> ([], p))"
| "pk_run lay (PkRead room # ops) p =
     (case pk_poll_read lay room p of
        (Pending, p') \<Rightarrow> pk_run lay ops p'
      | (Ready (Inl _), p') \<Rightarrow> ([], p)
      | (Ready (Inr bs), p') \<Rightarrow>
          if bs = [] then ([], p)
          else (case pk_run lay ops p' of (out, p'') \<Rightarrow> (bs @ out, p'')))"

lemma pk_run_bytes:
  assumes "\<And>c. c \<noteq> [] \<Longrightarrow> 0 < lay c" "\<forall>room. PkRead room \<in> set ops \<longrightarrow> 0 < room"
  shows "pk_bytes p = fst (pk_run lay ops p) @ pk_bytes (snd (pk_run lay ops p))"
  using assms
proof (induction lay ops p rule: pk_run.induct)
  case (2 lay n ops p)
  show ?case
  proof (cases "\<exists>bs p'. peek_exact n p = Some (Inr bs, p')")
    case True
    then obtain bs p' where e: "peek_exact n p = Some (Inr bs, p')" by blast
    from 2 have ops: "\<forall>room. PkRead room \<in> set ops \<longrightarrow> 0 < room" by auto
    from "2.IH" [OF e refl refl "2.prems"(1) ops] peek_exact_bytes [OF e] e show ?thesis by simp
  qed (auto split: option.splits sum.splits prod.splits)
next
  case (3 lay room ops p)
  obtain r p' where r: "pk_poll_read lay room p = (r, p')" by fastforce
  from 3 have room: "0 < room" and ops: "\<forall>room. PkRead room \<in> set ops \<longrightarrow> 0 < room" by auto
  note b = pk_poll_read_bytes [OF r room "3.prems"(1)]
  show ?case
  proof (cases r)
    case Pending
    with 3(2) [OF r [symmetric] Pending "3.prems"(1) ops] b r show ?thesis by simp
  next
    case (Ready x)
    with 3(1) [OF r [symmetric] Ready _ _ "3.prems"(1) ops] b r show ?thesis
      by (cases x) (auto split: prod.splits if_splits)
  qed
qed simp

section \<open>Properties\<close>

text \<open>C29: The mixed server decides by the first byte the client sends (5 is SOCKS version 5,
  everything else is HTTP), however the bytes arrive, and the server it chooses loses nothing by
  it: whatever it peeks and reads of the stream it is given, what it has read and what it can
  still read is exactly what the client sends, the first byte included.\<close>

theorem mixed_dispatch_transparent:
  assumes "st_bytes st = b # bs"
    and "\<And>c. c \<noteq> [] \<Longrightarrow> 0 < lay c" and "\<forall>room. PkRead room \<in> set ops \<longrightarrow> 0 < room"
  shows "\<exists>p. mixed_dispatch st = Some (Some (if b = 5 then Socks5Handler else HttpHandler, p)) \<and>
    fst (pk_run lay ops p) @ pk_bytes (snd (pk_run lay ops p)) = b # bs"
proof -
  have n: "pk_bytes (peekable_new st) = b # bs" using assms(1) by (simp add: pk_bytes_def peekable_new_def)
  with peek_exact_total [of 1 "peekable_new st"] obtain p
    where p: "peek_exact 1 (peekable_new st) = Some (Inr [b], p)" by auto
  with peek_exact_bytes [OF p] n pk_run_bytes [where p = p, OF assms(2,3)] show ?thesis
    by (auto simp: mixed_dispatch_def)
qed

text \<open>A SOCKS5 greeting that arrives after a delay and byte by byte.\<close>

definition greeting :: stream where
  "greeting = \<lparr>rd_script = [APending, AOk [5], AOk [1, 0]], wr_script = [], fl_script = [],
     sh_script = [], consumed = [], eof = False, written = []\<rparr>"

theorem mixed_dispatch_transparent_witness:
  "\<exists>p. mixed_dispatch greeting = Some (Some (Socks5Handler, p)) \<and>
     fst (pk_run length [PkPeek 2, PkRead 1, PkRead 8] p) @
       pk_bytes (snd (pk_run length [PkPeek 2, PkRead 1, PkRead 8] p)) = [5, 1, 0]"
  using mixed_dispatch_transparent
    [of greeting 5 "[1, 0]" length "[PkPeek 2, PkRead 1, PkRead 8]"]
  by (simp add: greeting_def st_bytes_def)

text \<open>A client that closes before its first byte is given to neither server.\<close>

lemma mixed_dispatch_closed:
  assumes "st_bytes st = []"
  shows "mixed_dispatch st \<in> {None, Some None}"
proof (cases "peek_exact 1 (peekable_new st)")
  case (Some x)
  with peek_exact_bytes [of 1 "peekable_new st"] assms show ?thesis
    by (cases x; cases "fst x")
       (auto simp: mixed_dispatch_def pk_bytes_def peekable_new_def)
qed (simp add: mixed_dispatch_def)

end
