(* ===== verification/RD_Socks5.thy ===== *)
theory RD_Socks5
  imports RD_Net RD_CopyUdp
begin

text \<open>
  SOCKS5 of \<^verbatim>\<open>rd-std/src/socks5\<close>: the UDP encapsulation (\<^verbatim>\<open>common.rs\<close>), the two ends of a UDP
  association, the client net (\<^verbatim>\<open>client.rs\<close>) and a connection of the server (\<^verbatim>\<open>server.rs\<close>).

  The wire format of addresses and messages is that of the crate \<open>socks5_protocol\<close>: reading and
  writing an address are parameters (\<open>s5_codec\<close>), of which only that reading inverts writing is
  used. Datagram sockets answer from lists as in \<^verbatim>\<open>RD_CopyUdp\<close>, the TCP connection as in
  \<^verbatim>\<open>RD_CopyTcp\<close>. The client is a program over the calls of \<^verbatim>\<open>RD_Net\<close>; a connection of the server is
  a function of the answers it gets, and leaves a trace of what it did.
\<close>

section \<open>Addresses and the UDP header\<close>

datatype s5_addr = S5Domain string u16 | S5SocketAddr socket_addr

datatype s5_error = S5Io io_error | S5Other string

text \<open>\<open>Address::read_from\<close> on the bytes left, with the number it took; \<open>Address::write_to\<close>, the
  bytes it wrote and whether it failed after them.\<close>

record s5_codec =
  s5_read :: "u8 list \<Rightarrow> s5_error + s5_addr \<times> nat"
  s5_write :: "s5_addr \<Rightarrow> u8 list \<times> s5_error option"

fun s5_map_err :: "s5_error \<Rightarrow> error" where
  "s5_map_err (S5Io e) = IO e"
| "s5_map_err (S5Other s) = Other s"

fun sa2ra :: "s5_addr \<Rightarrow> address" where
  "sa2ra (S5Domain d p) = Domain d p"
| "sa2ra (S5SocketAddr s) = SocketAddr s"

fun ra2sa :: "address \<Rightarrow> s5_addr" where
  "ra2sa (Domain d p) = S5Domain d p"
| "ra2sa (SocketAddr s) = S5SocketAddr s"

definition wrong_header :: "u8 list \<Rightarrow> io_error" where
  "wrong_header h =
     IoCustom InvalidData
       (''server response wrong RSV '' @ show_radix 10 (unat (h ! 0)) @
        '' RSV '' @ show_radix 10 (unat (h ! 1)) @ '' FRAG '' @ show_radix 10 (unat (h ! 2)))"

text \<open>\<open>parse_udp\<close>: the address, and what the buffer holds after it. \<open>read_exact\<close> of a cursor fails
  when there are too few bytes.\<close>

definition parse_udp :: "s5_codec \<Rightarrow> u8 list \<Rightarrow> (io_error + address) \<times> u8 list" where
  "parse_udp cd filled =
     (if length filled < 3 then (Inl (IoCustom UnexpectedEof ''failed to fill whole buffer''), filled)
      else if take 3 filled = [0, 0, 0] then
        (case s5_read cd (drop 3 filled) of
           Inl e \<Rightarrow> (Inl (to_io_err (s5_map_err e)), filled)
         | Inr (a, n) \<Rightarrow> (Inr (sa2ra a), drop (3 + n) filled))
      else (Inl (wrong_header (take 3 filled)), filled))"

text \<open>\<open>pack_udp\<close>: the result and the contents of the vector, which is overwritten.\<close>

definition pack_udp :: "s5_codec \<Rightarrow> address \<Rightarrow> u8 list \<Rightarrow> (io_error + unit) \<times> u8 list" where
  "pack_udp cd addr bs =
     (case s5_write cd (ra2sa addr) of
        (w, Some e) \<Rightarrow> (Inl (to_io_err (s5_map_err e)), [0, 0, 0] @ w)
      | (w, None) \<Rightarrow> (Inr (), [0, 0, 0] @ w @ bs))"

section \<open>The server's end of a UDP association\<close>

record s5_server_udp =
  su_in :: "socket_addr dgram_source"
  su_out :: "address dgram_sink"
  su_tcp :: stream
  su_endpoint :: "socket_addr option"
  su_send_buf :: "u8 list"

definition poll_tcp_close :: "s5_server_udp \<Rightarrow> bool poll \<times> s5_server_udp" where
  "poll_tcp_close u =
     (case poll_read 1 (su_tcp u) of
        (Pending, t) \<Rightarrow> (Pending, u\<lparr>su_tcp := t\<rparr>)
      | (Ready r, t) \<Rightarrow> (Ready (\<not> is_ok r), u\<lparr>su_tcp := t\<rparr>))"




text \<open>Packing into an empty send buffer, which both ends share: \<open>Inl\<close> returns.\<close>

definition fill_send_buf :: "s5_codec \<Rightarrow> address \<Rightarrow> u8 list \<Rightarrow> u8 list \<Rightarrow> (io_error + unit) \<times> u8 list" where
  "fill_send_buf cd target bs send_buf =
     (if send_buf = [] then pack_udp cd target bs else (Inr (), send_buf))"


section \<open>The client's end\<close>

record s5_client_udp =
  cu_in :: "socket_addr dgram_source"
  cu_out :: "address dgram_sink"
  cu_server_addr :: socket_addr
  cu_send_buf :: "u8 list"

text \<open>The loop of \<open>poll_recv_from\<close>: datagrams that are not from the server are skipped.\<close>

function cu_recv_loop ::
  "nat \<Rightarrow> u8 list \<Rightarrow> socket_addr \<Rightarrow> socket_addr dgram_source \<Rightarrow>
   (io_error + unit) poll \<times> u8 list \<times> socket_addr dgram_source" where
  "cu_recv_loop room filled server_addr s =
     (case src_script s of
        [] \<Rightarrow> (Pending, filled, s)
      | _ \<Rightarrow>
          (case poll_fetch (room - length filled) s of
             (Pending, s') \<Rightarrow> (Pending, filled, s')
           | (Ready (Inl e), s') \<Rightarrow> (Ready (Inl e), filled, s')
           | (Ready (Inr (bs, addr)), s') \<Rightarrow>
               if addr = server_addr then (Ready (Inr ()), filled @ bs, s')
               else cu_recv_loop room (filled @ bs) server_addr s'))"
  by pat_completeness auto
termination
  by (relation "measure (\<lambda>(room, filled, a, s). length (src_script s))")
     (auto simp: poll_fetch_def split: list.splits answer.splits)

declare cu_recv_loop.simps [simp del]

definition cu_poll_recv_from ::
  "s5_codec \<Rightarrow> nat \<Rightarrow> u8 list \<Rightarrow> s5_client_udp \<Rightarrow>
   (io_error + socket_addr) poll \<times> u8 list \<times> s5_client_udp" where
  "cu_poll_recv_from cd room filled c =
     (case cu_recv_loop room filled (cu_server_addr c) (cu_in c) of
        (Pending, b, s) \<Rightarrow> (Pending, b, c\<lparr>cu_in := s\<rparr>)
      | (Ready (Inl e), b, s) \<Rightarrow> (Ready (Inl e), b, c\<lparr>cu_in := s\<rparr>)
      | (Ready (Inr _), b, s) \<Rightarrow>
          (case parse_udp cd b of (r, b') \<Rightarrow> (Ready (and_then r to_socket_addr), b', c\<lparr>cu_in := s\<rparr>)))"

definition cu_poll_send_to ::
  "s5_codec \<Rightarrow> u8 list \<Rightarrow> address \<Rightarrow> s5_client_udp \<Rightarrow> (io_error + nat) poll \<times> s5_client_udp" where
  "cu_poll_send_to cd bs target c =
     (case fill_send_buf cd target bs (cu_send_buf c) of
        (Inl e, v) \<Rightarrow> (Ready (Inl e), c\<lparr>cu_send_buf := v\<rparr>)
      | (Inr _, v) \<Rightarrow>
          (case poll_deliver v (SocketAddr (cu_server_addr c)) (cu_out c) of
             (Pending, k) \<Rightarrow> (Pending, c\<lparr>cu_out := k, cu_send_buf := v\<rparr>)
           | (Ready (Inl e), k) \<Rightarrow> (Ready (Inl e), c\<lparr>cu_out := k, cu_send_buf := v\<rparr>)
           | (Ready (Inr _), k) \<Rightarrow>
               (Ready (Inr (length bs)), c\<lparr>cu_out := k, cu_send_buf := []\<rparr>)))"

section \<open>Lemmas on the UDP association\<close>

lemma ra2sa_inverse [simp]: "sa2ra (ra2sa a) = a"
  by (cases a) simp_all

lemma sa2ra_inverse [simp]: "ra2sa (sa2ra a) = a"
  by (cases a) simp_all



lemma pack_nonempty: "pack_udp cd a bs = (r, d) \<Longrightarrow> d \<noteq> []"
  by (auto simp: pack_udp_def split: prod.splits option.splits)





section \<open>Properties of the UDP association\<close>


text \<open>Where the code falls short: a datagram from elsewhere is not removed from the buffer, so it is
  taken for the beginning of the next one; and what a failed send left in the send buffer is sent
  in place of the next packet.\<close>

lemma stray_datagram_prepended:
  assumes "src_script (cu_in c) = [AOk (stray, a), AOk (d, cu_server_addr c)]"
    "a \<noteq> cu_server_addr c" "length stray + length d \<le> room"
  shows "cu_poll_recv_from cd room [] c =
    (case parse_udp cd (stray @ d) of (r, b) \<Rightarrow>
       (Ready (and_then r to_socket_addr), b,
        c\<lparr>cu_in := (cu_in c)\<lparr>src_script := [],
           received := received (cu_in c) @ [(stray, a), (d, cu_server_addr c)]\<rparr>\<rparr>))"
  using assms
  by (simp add: cu_poll_recv_from_def cu_recv_loop.simps [of room] poll_fetch_def)

lemma failed_send_stays:
  assumes "snk_script (cu_out c) = AErr e # AOk () # rest" "cu_send_buf c = []"
    "pack_udp cd a1 bs1 = (Inr (), d1)"
  shows "\<exists>c1 c2. cu_poll_send_to cd bs1 a1 c = (Ready (Inl e), c1) \<and>
    cu_poll_send_to cd bs2 a2 c1 = (Ready (Inr (length bs2)), c2) \<and>
    delivered (cu_out c2) = delivered (cu_out c) @ [(d1, SocketAddr (cu_server_addr c))]"
  using assms pack_nonempty [OF assms(3)]
  by (simp add: cu_poll_send_to_def fill_send_buf_def poll_deliver_def)

text \<open>The end of the TCP connection that an association hangs on is not an error of a read, so it
  does not end the association.\<close>

lemma tcp_end_not_noticed:
  assumes "rd_script (su_tcp u) = AOk [] # rest"
  shows "fst (poll_tcp_close u) = Ready False"
  using assms by (simp add: poll_tcp_close_def poll_read_def)

section \<open>The client net\<close>

datatype s5_method = Noauth | OtherMethod nat

datatype s5_command = CmdConnect | CmdUdpAssociate | CmdOther nat

datatype s5_msg = MsgVersion | MsgAuthRequest "s5_method list" | MsgCommand s5_command s5_addr

text \<open>Messages on a connection: writing one into the buffered socket, flushing it, reading.\<close>

record ('h, 'x) s5_wire =
  wire_write :: "'h item \<Rightarrow> s5_msg \<Rightarrow> 'x \<Rightarrow> (s5_error + unit) \<times> 'x"
  wire_flush :: "'h item \<Rightarrow> 'x \<Rightarrow> (io_error + unit) \<times> 'x"
  wire_read_version :: "'h item \<Rightarrow> 'x \<Rightarrow> (s5_error + unit) \<times> 'x"
  wire_read_auth :: "'h item \<Rightarrow> 'x \<Rightarrow> (s5_error + s5_method) \<times> 'x"
  wire_read_response :: "'h item \<Rightarrow> 'x \<Rightarrow> (s5_error + s5_addr) \<times> 'x"

text \<open>An awaited step followed by the rest: the \<open>?\<close> of the source.\<close>

definition s5_try :: "('d \<Rightarrow> error) \<Rightarrow> ('d + 'a) \<times> 'x \<Rightarrow> ('a \<Rightarrow> 'x \<Rightarrow> (error + 'b) \<times> 'x) \<Rightarrow> (error + 'b) \<times> 'x" where
  "s5_try conv r k = (case r of (Inl e, x) \<Rightarrow> (Inl (conv e), x) | (Inr a, x) \<Rightarrow> k a x)"

definition send_command ::
  "('h, 'x) s5_wire \<Rightarrow> 'h item \<Rightarrow> s5_command \<Rightarrow> s5_addr \<Rightarrow> 'x \<Rightarrow> (error + s5_addr) \<times> 'x" where
  "send_command W h cmd a x0 =
     s5_try s5_map_err (wire_write W h MsgVersion x0) (\<lambda>_ x1.
     s5_try s5_map_err (wire_write W h (MsgAuthRequest [Noauth]) x1) (\<lambda>_ x2.
     s5_try IO (wire_flush W h x2) (\<lambda>_ x3.
     s5_try s5_map_err (wire_read_version W h x3) (\<lambda>_ x4.
     s5_try s5_map_err (wire_read_auth W h x4) (\<lambda>m x5.
     if m \<noteq> Noauth then (Inl (Other ''Auth failed''), x5)
     else
       s5_try s5_map_err (wire_write W h (MsgCommand cmd a) x5) (\<lambda>_ x6.
       s5_try IO (wire_flush W h x6) (\<lambda>_ x7.
       s5_try s5_map_err (wire_read_response W h x7) (\<lambda>resp x8. (Inr resp, x8)))))))))"

text \<open>The rest of what the client needs: the addresses of a lookup, the address of a response
  as a socket address, and its two wrappers.\<close>

record 'h s5_client_env =
  ce_addrs :: "'h item \<Rightarrow> socket_addr list"
  ce_to_socket_addr :: "s5_addr \<Rightarrow> s5_error + socket_addr"
  ce_tcp :: "'h item \<Rightarrow> 'h item"
  ce_udp :: "'h item \<Rightarrow> 'h item \<Rightarrow> socket_addr \<Rightarrow> 'h item"

definition s5_tcp_connect ::
  "'h s5_client_env \<Rightarrow> ('h, 'x) s5_wire \<Rightarrow> address \<Rightarrow> address \<Rightarrow> conn_context \<Rightarrow> 'x \<Rightarrow> ('h, 'x) prog" where
  "s5_tcp_connect V W server a ctx x =
     Call 0 TcpConnect server ctx x (\<lambda>(r, ctx1, x1).
       case r of
         Inl e \<Rightarrow> prog.Done (Inl e) ctx1 x1
       | Inr socket \<Rightarrow>
           (case send_command W socket CmdConnect (ra2sa a) x1 of
              (Inl e, x2) \<Rightarrow> prog.Done (Inl e) ctx1 x2
            | (Inr _, x2) \<Rightarrow> prog.Done (Inr (ce_tcp V socket)) ctx1 x2))"

definition s5_lookup_failed :: error where
  "s5_lookup_failed = IO (IoCustom AddrNotAvailable ''Failed to lookup domain'')"

definition s5_udp_bind ::
  "'h s5_client_env \<Rightarrow> ('h, 'x) s5_wire \<Rightarrow> address \<Rightarrow> address \<Rightarrow> conn_context \<Rightarrow> 'x \<Rightarrow> ('h, 'x) prog" where
  "s5_udp_bind V W server a ctx x =
     Call 0 LookupHost server ctx x (\<lambda>(r, _, x1).
       case r of
         Inl e \<Rightarrow> prog.Done (Inl e) ctx x1
       | Inr l \<Rightarrow>
           (case ce_addrs V l of
              [] \<Rightarrow> prog.Done (Inl s5_lookup_failed) ctx x1
            | server_addr # _ \<Rightarrow>
                Call 0 TcpConnect (SocketAddr server_addr) ctx x1 (\<lambda>(r2, ctx2, x2).
                  case r2 of
                    Inl e \<Rightarrow> prog.Done (Inl e) ctx2 x2
                  | Inr socket \<Rightarrow>
                      (case send_command W socket CmdUdpAssociate (ra2sa a) x2 of
                         (Inl e, x3) \<Rightarrow> prog.Done (Inl e) ctx2 x3
                       | (Inr resp, x3) \<Rightarrow>
                           Call 0 UdpBind (any_addr_port server_addr) ctx2 x3 (\<lambda>(r4, ctx4, x4).
                             case r4 of
                               Inl e \<Rightarrow> prog.Done (Inl e) ctx4 x4
                             | Inr client \<Rightarrow>
                                 (case ce_to_socket_addr V resp of
                                    Inl e \<Rightarrow> prog.Done (Inl (s5_map_err e)) ctx4 x4
                                  | Inr addr \<Rightarrow> prog.Done (Inr (ce_udp V client socket addr)) ctx4 x4))))))"

definition s5_client_prog ::
  "'h s5_client_env \<Rightarrow> ('h, 'x) s5_wire \<Rightarrow> address \<Rightarrow> net_op \<Rightarrow> address \<Rightarrow> conn_context \<Rightarrow> 'x \<Rightarrow>
   ('h, 'x) prog" where
  "s5_client_prog V W server op = (if op = TcpConnect then s5_tcp_connect V W server else s5_udp_bind V W server)"

definition s5_client_provides :: "net_op \<Rightarrow> bool" where
  "s5_client_provides op \<longleftrightarrow> op = TcpConnect \<or> op = UdpBind"

text \<open>The calls a program can make, whatever the answers.\<close>

inductive prog_calls :: "('h, 'x) prog \<Rightarrow> net_op \<Rightarrow> address \<Rightarrow> bool" where
  calls_now: "prog_calls (Call i op a ctx x k) op a"
| calls_later: "prog_calls (k res) op' a' \<Longrightarrow> prog_calls (Call i op a ctx x k) op' a'"

inductive_simps prog_calls_Done [simp]: "prog_calls (prog.Done r ctx x) op a"
inductive_simps prog_calls_Call [simp]: "prog_calls (Call i op a ctx x k) op' a'"

lemma prog_calls_cases:
  "prog_calls (case r of Inl e \<Rightarrow> prog.Done (f e) c x | Inr s \<Rightarrow> P s) op a \<longleftrightarrow>
     (\<exists>s. r = Inr s \<and> prog_calls (P s) op a)"
  "prog_calls (case q of (y, z) \<Rightarrow> Q y z) op a \<longleftrightarrow> prog_calls (Q (fst q) (snd q)) op a"
  "prog_calls (case ss of [] \<Rightarrow> prog.Done d c x | s # ts \<Rightarrow> R s ts) op a \<longleftrightarrow>
     (\<exists>s ts. ss = s # ts \<and> prog_calls (R s ts) op a)"
  by (auto split: sum.splits prod.splits list.splits)

text \<open>C36: A SOCKS5 client never contacts a target itself. Whatever the answers it gets, all it asks
  of the net it runs over is a connection to the configured server or, to bind a UDP socket, the
  addresses of the server, a connection to the first of them, and a local socket of its family.
  The target occurs in none of these calls.\<close>

theorem s5_client_contacts_server_only:
  assumes "prog_calls (s5_client_prog V W server op a ctx x) op' a'"
  shows "if op = TcpConnect then op' = TcpConnect \<and> a' = server
    else (op' = LookupHost \<and> a' = server) \<or>
      (\<exists>l sa ss. ce_addrs V l = sa # ss \<and>
         (op' = TcpConnect \<and> a' = SocketAddr sa \<or> op' = UdpBind \<and> a' = any_addr_port sa))"
  using assms
  by (auto simp: s5_client_prog_def s5_tcp_connect_def s5_udp_bind_def prog_calls_cases
      split: if_splits)

section \<open>Witnesses\<close>





definition demo_host :: "u8 \<Rightarrow> socket_addr" where
  "demo_host b = SV4 (Ipv4 10 0 0 b) 80"






definition demo_wire :: "(socket_addr list, unit) s5_wire" where
  "demo_wire =
     \<lparr>wire_write = (\<lambda>_ _ x. (Inr (), x)), wire_flush = (\<lambda>_ x. (Inr (), x)),
      wire_read_version = (\<lambda>_ x. (Inr (), x)), wire_read_auth = (\<lambda>_ x. (Inr Noauth, x)),
      wire_read_response = (\<lambda>_ x. (Inr (S5SocketAddr (demo_host 1)), x))\<rparr>"

definition demo_client_env :: "socket_addr list s5_client_env" where
  "demo_client_env =
     \<lparr>ce_addrs = (\<lambda>i. case i of Inner ss \<Rightarrow> ss | _ \<Rightarrow> []),
      ce_to_socket_addr = (\<lambda>a. case a of S5SocketAddr s \<Rightarrow> Inr s | _ \<Rightarrow> Inl (S5Other [])),
      ce_tcp = (\<lambda>i. i), ce_udp = (\<lambda>u s a. u)\<rparr>"

theorem s5_client_contacts_server_only_witness:
  "prog_calls (s5_client_prog demo_client_env demo_wire (Domain ''proxy'' 1080) TcpConnect
     (Domain ''x.cn'' 80) context_new ()) TcpConnect (Domain ''proxy'' 1080) \<and>
   \<not> prog_calls (s5_client_prog demo_client_env demo_wire (Domain ''proxy'' 1080) TcpConnect
     (Domain ''x.cn'' 80) context_new ()) TcpConnect (Domain ''x.cn'' 80)"
  using s5_client_contacts_server_only [of demo_client_env demo_wire "Domain ''proxy'' 1080" TcpConnect
      "Domain ''x.cn'' 80" context_new "()" TcpConnect "Domain ''x.cn'' 80"]
  by (auto simp: s5_client_prog_def s5_tcp_connect_def)

end
