(* ===== verification/RD_Socks5Server.thy ===== *)
theory RD_Socks5Server
  imports RD_Socks5
begin

text \<open>
  One connection of the SOCKS5 server, \<open>Socks5Server::serve_connection\<close> of
  \<^verbatim>\<open>rd-std/src/socks5/server.rs\<close>.

  Everything the connection waits for is an answer of \<open>s5_answers\<close> (the client's messages, the
  two nets, the writes to the client and the relays of \<^verbatim>\<open>RD_CopyTcp\<close> and \<^verbatim>\<open>RD_CopyUdp\<close>), so the
  connection is a function of the answers. It returns its result and the trace of what it did; a
  message to the client is in the trace when it was written and flushed. The errors of
  \<open>anyhow\<close> are errors of the program, with the same contexts.
\<close>

section \<open>Answers and trace\<close>

datatype s5_reply = ReplySuccess s5_addr | ReplyFailure error | ReplyAddressTypeNotSupported

datatype s5_event =
    EvAuth s5_method
  | EvTcpConnect address
  | EvUdpBind address
  | EvListenBind address
  | EvReply s5_reply
  | EvRelayTcp
  | EvRelayUdp

record ('h, 'u) s5_answers =
  an_local_ip :: "error + ip_addr"
  an_read_version :: "s5_error + unit"
  an_read_auth :: "s5_error + s5_method list"
  an_select :: "s5_method list \<Rightarrow> s5_method list \<Rightarrow> s5_method"
  an_write_version :: "s5_error + unit"
  an_write_auth :: "s5_error + unit"
  an_flush_auth :: "io_error + unit"
  an_read_command :: "s5_error + s5_command \<times> s5_addr"
  an_context :: "socket_addr \<Rightarrow> conn_context outcome"
  an_tcp_connect :: "conn_context \<Rightarrow> address \<Rightarrow> (error + 'h) \<times> conn_context"
  an_tcp_local :: "'h \<Rightarrow> error + socket_addr"
  an_udp_bind :: "conn_context \<Rightarrow> address \<Rightarrow> (error + 'u) \<times> conn_context"
  an_listen_bind :: "conn_context \<Rightarrow> address \<Rightarrow> error + 'u"
  an_udp_local :: "'u \<Rightarrow> error + socket_addr"
  an_write_reply :: "s5_reply \<Rightarrow> s5_error + unit"
  an_flush_reply :: "s5_reply \<Rightarrow> io_error + unit"
  an_relay_tcp :: "conn_context \<Rightarrow> 'h \<Rightarrow> error + unit"
  an_relay_udp :: "conn_context \<Rightarrow> 'u \<Rightarrow> 'u \<Rightarrow> error + unit"

type_synonym s5_result = "(error + unit) outcome \<times> s5_event list"

section \<open>The connection\<close>

definition handle_command_request ::
  "('h, 'u) s5_answers \<Rightarrow> (error + s5_command \<times> s5_addr) \<times> s5_event list" where
  "handle_command_request A =
     (case and_then (an_read_version A) (\<lambda>_. an_read_auth A) of
        Inl e \<Rightarrow> (Inl (s5_map_err e), [])
      | Inr methods \<Rightarrow>
          (let m = an_select A methods [Noauth]
           in case and_then (an_write_version A) (\<lambda>_. an_write_auth A) of
                Inl e \<Rightarrow> (Inl (s5_map_err e), [])
              | Inr _ \<Rightarrow>
                  (case an_flush_auth A of
                     Inl e \<Rightarrow> (Inl (IO e), [])
                   | Inr _ \<Rightarrow> (map_err s5_map_err (an_read_command A), [EvAuth m]))))"

text \<open>Writing a reply and flushing it; \<open>ctx\<close> is what the error of the flush is put in.\<close>

definition send_reply ::
  "('h, 'u) s5_answers \<Rightarrow> (error + unit \<Rightarrow> error + unit) \<Rightarrow> s5_reply \<Rightarrow> (error + unit) \<times> s5_event list" where
  "send_reply A flush_ctx rep =
     (case an_write_reply A rep of
        Inl e \<Rightarrow> (Inl (s5_map_err e), [])
      | Inr _ \<Rightarrow>
          (case flush_ctx (map_err IO (an_flush_reply A rep)) of
             Inl e \<Rightarrow> (Inl e, [])
           | Inr _ \<Rightarrow> (Inr (), [EvReply rep])))"

definition response_command_error :: "('h, 'u) s5_answers \<Rightarrow> error \<Rightarrow> (error + unit) \<times> s5_event list" where
  "response_command_error A e = send_reply A (\<lambda>r. r) (ReplyFailure e)"

text \<open>\<open>unwrap_or(default_addr)\<close>.\<close>

definition default_addr :: socket_addr where
  "default_addr = SV4 ipv4_unspecified 0"

definition serve_connect ::
  "('h, 'u) s5_answers \<Rightarrow> socket_addr \<Rightarrow> s5_addr \<Rightarrow> s5_result" where
  "serve_connect A peer address =
     (let dst = sa2ra address
      in case an_context A peer of
           Panic \<Rightarrow> (Panic, [])
         | Ret ctx0 \<Rightarrow>
             (case an_tcp_connect A ctx0 dst of
                (Inl e, _) \<Rightarrow>
                  (case response_command_error A e of (r, t) \<Rightarrow> (Ret r, EvTcpConnect dst # t))
              | (Inr out, ctx) \<Rightarrow>
                  (let addr = (case an_tcp_local A out of Inr a \<Rightarrow> a | Inl _ \<Rightarrow> default_addr)
                   in case send_reply A (err_context ''command response'')
                          (ReplySuccess (S5SocketAddr addr)) of
                        (Inl e, t) \<Rightarrow> (Ret (Inl e), EvTcpConnect dst # t)
                      | (Inr _, t) \<Rightarrow>
                          (Ret (err_context ''connect tcp'' (an_relay_tcp A ctx out)),
                           EvTcpConnect dst # t @ [EvRelayTcp]))))"

definition serve_udp_associate ::
  "('h, 'u) s5_answers \<Rightarrow> ip_addr \<Rightarrow> socket_addr \<Rightarrow> s5_addr \<Rightarrow> s5_result" where
  "serve_udp_associate A local_ip peer address =
     (case address of
        S5Domain _ _ \<Rightarrow>
          (case send_reply A (\<lambda>r. r) ReplyAddressTypeNotSupported of (r, t) \<Rightarrow> (Ret r, t))
      | S5SocketAddr s \<Rightarrow>
          (let dst = any_addr_port s; listen = any_addr_port peer
           in case an_context A peer of
                Panic \<Rightarrow> (Panic, [])
              | Ret ctx0 \<Rightarrow>
                  (case an_udp_bind A ctx0 dst of
                     (Inl e, _) \<Rightarrow>
                       (case response_command_error A e of (r, t) \<Rightarrow> (Ret r, EvUdpBind dst # t))
                   | (Inr out, ctx) \<Rightarrow>
                       (case an_context A peer of
                          Panic \<Rightarrow> (Panic, [EvUdpBind dst])
                        | Ret ctx1 \<Rightarrow>
                            (case an_listen_bind A ctx1 listen of
                               Inl e \<Rightarrow> (Ret (Inl e), [EvUdpBind dst, EvListenBind listen])
                             | Inr udp \<Rightarrow>
                                 (case an_udp_local A udp of
                                    Inl e \<Rightarrow>
                                      (case response_command_error A e of (r, t) \<Rightarrow>
                                         (Ret r, EvUdpBind dst # EvListenBind listen # t))
                                  | Inr a \<Rightarrow>
                                      (case send_reply A (err_context ''command response'')
                                             (ReplySuccess (S5SocketAddr (socket_addr_new local_ip (sa_port a)))) of
                                         (Inl e, t) \<Rightarrow>
                                           (Ret (Inl e), EvUdpBind dst # EvListenBind listen # t)
                                       | (Inr _, t) \<Rightarrow>
                                           (Ret (err_context ''connect udp'' (an_relay_udp A ctx udp out)),
                                            EvUdpBind dst # EvListenBind listen # t @ [EvRelayUdp]))))))))"

definition serve_connection :: "('h, 'u) s5_answers \<Rightarrow> socket_addr \<Rightarrow> s5_result" where
  "serve_connection A peer =
     (case an_local_ip A of
        Inl e \<Rightarrow> (Ret (Inl e), [])
      | Inr local_ip \<Rightarrow>
          (case handle_command_request A of
             (Inl e, t) \<Rightarrow> (Ret (Inl (WithContext ''handle command request'' e)), t)
           | (Inr (command, address), t) \<Rightarrow>
               (case (case command of
                        CmdConnect \<Rightarrow> serve_connect A peer address
                      | CmdUdpAssociate \<Rightarrow> serve_udp_associate A local_ip peer address
                      | CmdOther _ \<Rightarrow> (Ret (Inr ()), [])) of
                  (r, t') \<Rightarrow> (r, t @ t'))))"

section \<open>What a connection does\<close>

fun is_reply :: "s5_event \<Rightarrow> bool" where
  "is_reply (EvReply r) = True"
| "is_reply _ = False"

text \<open>The part of the trace after the request, in terms of the answers.\<close>

lemma send_reply_trace: "send_reply A f rep = (r, t) \<Longrightarrow> t = (if is_ok r then [EvReply rep] else [])"
  by (auto simp: send_reply_def split: sum.splits) (metis is_ok.simps)+

lemma send_reply_cases:
  obtains e where "send_reply A f rep = (Inl e, [])" | "send_reply A f rep = (Inr (), [EvReply rep])"
  using send_reply_trace [of A f rep] by (cases "send_reply A f rep"; cases "fst (send_reply A f rep)") auto

text \<open>The traces of a connect request: the net is asked for the address, then the client is told.\<close>

definition connect_traces :: "('h, 'u) s5_answers \<Rightarrow> address \<Rightarrow> s5_event list set" where
  "connect_traces A dst =
     {[], [EvTcpConnect dst]} \<union>
     {[EvTcpConnect dst, EvReply (ReplyFailure e)] |e ctx ctx'. an_tcp_connect A ctx dst = (Inl e, ctx')} \<union>
     {[EvTcpConnect dst, EvReply (ReplySuccess (S5SocketAddr a)), EvRelayTcp] |a ctx h ctx'.
        an_tcp_connect A ctx dst = (Inr h, ctx') \<and>
        a = (case an_tcp_local A h of Inr b \<Rightarrow> b | Inl _ \<Rightarrow> default_addr)}"

lemma serve_connect_trace:
  assumes "serve_connect A peer address = (r, t)"
  shows "t \<in> connect_traces A (sa2ra address)"
proof (cases "an_context A peer")
  case Panic
  with assms show ?thesis by (simp add: serve_connect_def connect_traces_def)
next
  case (Ret ctx0)
  let ?dst = "sa2ra address"
  obtain q ctx where q: "an_tcp_connect A ctx0 ?dst = (q, ctx)" by fastforce
  show ?thesis
  proof (cases q)
    case (Inl e)
    show ?thesis
      by (rule send_reply_cases [of A "\<lambda>r. r" "ReplyFailure e"])
         (use assms Ret q Inl in \<open>auto simp: serve_connect_def response_command_error_def connect_traces_def Let_def\<close>)
  next
    case (Inr out)
    let ?a = "case an_tcp_local A out of Inr a \<Rightarrow> a | Inl _ \<Rightarrow> default_addr"
    show ?thesis
      by (rule send_reply_cases [of A "err_context ''command response''" "ReplySuccess (S5SocketAddr ?a)"])
         (use assms Ret q Inr in \<open>auto simp: serve_connect_def connect_traces_def Let_def\<close>)
  qed
qed

text \<open>The traces of a UDP association.\<close>

definition associate_traces :: "('h, 'u) s5_answers \<Rightarrow> ip_addr \<Rightarrow> address \<Rightarrow> address \<Rightarrow> s5_event list set" where
  "associate_traces A local_ip dst listen =
     {[], [EvUdpBind dst], [EvUdpBind dst, EvListenBind listen]} \<union>
     {[EvUdpBind dst, EvReply (ReplyFailure e)] |e ctx ctx'. an_udp_bind A ctx dst = (Inl e, ctx')} \<union>
     {[EvUdpBind dst, EvListenBind listen, EvReply (ReplyFailure e)] |e u. an_udp_local A u = Inl e} \<union>
     {[EvUdpBind dst, EvListenBind listen,
       EvReply (ReplySuccess (S5SocketAddr (socket_addr_new local_ip (sa_port a)))), EvRelayUdp] |a ctx u ctx' v c.
        an_udp_bind A ctx dst = (Inr u, ctx') \<and> an_listen_bind A c listen = Inr v \<and> an_udp_local A v = Inr a}"

lemma serve_udp_associate_trace:
  assumes "serve_udp_associate A local_ip peer (S5SocketAddr s) = (r, t)"
  shows "t \<in> associate_traces A local_ip (any_addr_port s) (any_addr_port peer)"
proof (cases "an_context A peer")
  case Panic
  with assms show ?thesis by (simp add: serve_udp_associate_def associate_traces_def)
next
  case (Ret ctx0)
  let ?dst = "any_addr_port s" and ?listen = "any_addr_port peer"
  note d = serve_udp_associate_def associate_traces_def Let_def response_command_error_def
  obtain q ctx where q: "an_udp_bind A ctx0 ?dst = (q, ctx)" by fastforce
  show ?thesis
  proof (cases q)
    case (Inl e)
    show ?thesis
      by (rule send_reply_cases [of A "\<lambda>r. r" "ReplyFailure e"]) (use assms Ret q Inl in \<open>auto simp: d\<close>)
  next
    case out: (Inr out)
    show ?thesis
    proof (cases "an_listen_bind A ctx0 ?listen")
      case (Inl e)
      with assms Ret q out show ?thesis by (auto simp: d)
    next
      case udp: (Inr udp)
      show ?thesis
      proof (cases "an_udp_local A udp")
        case (Inl e)
        show ?thesis
          by (rule send_reply_cases [of A "\<lambda>r. r" "ReplyFailure e"])
             (use assms Ret q out udp Inl in \<open>auto simp: d\<close>)
      next
        case (Inr a)
        show ?thesis
          by (rule send_reply_cases [of A "err_context ''command response''"
                "ReplySuccess (S5SocketAddr (socket_addr_new local_ip (sa_port a)))"])
             (use assms Ret q out udp Inr in \<open>auto simp: d, blast\<close>)
      qed
    qed
  qed
qed

text \<open>All traces.\<close>

lemma serve_connection_trace:
  assumes "serve_connection A peer = (r, t)"
  obtains (early) "t = [] \<or> (\<exists>m. t = [EvAuth m])"
  | (connect) m a t' where "an_read_command A = Inr (CmdConnect, a)" "t = EvAuth m # t'"
      "t' \<in> connect_traces A (sa2ra a)"
  | (unsupported) m where "t = [EvAuth m, EvReply ReplyAddressTypeNotSupported]"
  | (associate) m s ip t' where "an_read_command A = Inr (CmdUdpAssociate, S5SocketAddr s)"
      "an_local_ip A = Inr ip" "t = EvAuth m # t'"
      "t' \<in> associate_traces A ip (any_addr_port s) (any_addr_port peer)"
proof (cases "an_local_ip A")
  case (Inl e)
  with assms show ?thesis by (intro early) (simp add: serve_connection_def)
next
  case ip: (Inr ip)
  obtain q u where q: "handle_command_request A = (q, u)" by fastforce
  have u: "u = [] \<or> (\<exists>m. u = [EvAuth m])" and c: "\<And>x. q = Inr x \<Longrightarrow> an_read_command A = Inr x \<and> u \<noteq> []"
    using q by (auto simp: handle_command_request_def Let_def split: sum.splits)
      (cases "an_read_command A"; simp)
  show ?thesis
  proof (cases q)
    case (Inl e)
    with assms ip q u show ?thesis by (intro early) (auto simp: serve_connection_def)
  next
    case (Inr x)
    obtain cmd a where x: "x = (cmd, a)" by fastforce
    from c [OF Inr] u x obtain m where m: "u = [EvAuth m]" and rc: "an_read_command A = Inr (cmd, a)" by auto
    note s = assms [unfolded serve_connection_def ip q Inr x m, simplified]
    show ?thesis
    proof (cases cmd)
      case CmdConnect
      then obtain t' where "serve_connect A peer a = (r, t')" "t = EvAuth m # t'"
        using s by (auto split: prod.splits)
      then show ?thesis using connect rc CmdConnect serve_connect_trace by blast
    next
      case CmdUdpAssociate
      then obtain t' where t': "serve_udp_associate A ip peer a = (r, t')" "t = EvAuth m # t'"
        using s by (auto split: prod.splits)
      show ?thesis
      proof (cases a)
        case (S5Domain d p)
        show ?thesis
          by (rule send_reply_cases [of A "\<lambda>r. r" ReplyAddressTypeNotSupported])
             (use t' S5Domain early unsupported in \<open>auto simp: serve_udp_associate_def\<close>)
      next
        case (S5SocketAddr sa)
        with t' rc CmdUdpAssociate ip serve_udp_associate_trace show ?thesis by (intro associate) auto
      qed
    qed (use s early in auto)
  qed
qed

section \<open>Properties\<close>

text \<open>C16: A connection tells the client the truth, and once. At most one reply is sent. Bytes are
  relayed only after a success reply, which was sent only after the net connected to the very
  address the client asked for (or, for a UDP association, both sockets were bound; the reply then
  holds the address the client reached the server at, with the port of the socket opened for it);
  and a success reply is always followed by the relay.\<close>

theorem socks5_reply_discipline:
  assumes "serve_connection A peer = (r, t)"
  shows "length (filter is_reply t) \<le> 1 \<and>
    (EvRelayTcp \<in> set t \<longrightarrow>
       (\<exists>m a b ctx h ctx'. an_read_command A = Inr (CmdConnect, a) \<and>
          an_tcp_connect A ctx (sa2ra a) = (Inr h, ctx') \<and>
          t = [EvAuth m, EvTcpConnect (sa2ra a), EvReply (ReplySuccess b), EvRelayTcp])) \<and>
    (EvRelayUdp \<in> set t \<longrightarrow>
       (\<exists>m s ip a ctx u ctx' c v. an_read_command A = Inr (CmdUdpAssociate, S5SocketAddr s) \<and>
          an_local_ip A = Inr ip \<and> an_udp_bind A ctx (any_addr_port s) = (Inr u, ctx') \<and>
          an_listen_bind A c (any_addr_port peer) = Inr v \<and> an_udp_local A v = Inr a \<and>
          t = [EvAuth m, EvUdpBind (any_addr_port s), EvListenBind (any_addr_port peer),
               EvReply (ReplySuccess (S5SocketAddr (socket_addr_new ip (sa_port a)))), EvRelayUdp])) \<and>
    (\<forall>b. EvReply (ReplySuccess b) \<in> set t \<longrightarrow> EvRelayTcp \<in> set t \<or> EvRelayUdp \<in> set t)"
  using assms
proof (cases rule: serve_connection_trace)
  case (connect m a t')
  from connect(3) show ?thesis unfolding connect(2) connect_traces_def
    by (elim UnE CollectE exE conjE) (use connect(1) in auto)
next
  case (associate m s ip t')
  from associate(4) show ?thesis unfolding associate(3) associate_traces_def
    by (elim UnE CollectE exE conjE) (use associate(1,2) in auto)
qed auto

text \<open>An error of the net is reported, and nothing is relayed.\<close>

lemma socks5_failure_reported:
  assumes "an_local_ip A = Inr ip" "handle_command_request A = (Inr (CmdConnect, a), t0)"
    and "an_context A peer = Ret ctx" "an_tcp_connect A ctx (sa2ra a) = (Inl e, ctx')"
    and "an_write_reply A (ReplyFailure e) = Inr ()" "an_flush_reply A (ReplyFailure e) = Inr ()"
  shows "serve_connection A peer =
    (Ret (Inr ()), t0 @ [EvTcpConnect (sa2ra a), EvReply (ReplyFailure e)])"
  using assms
  by (simp add: serve_connection_def serve_connect_def response_command_error_def send_reply_def)

text \<open>Two requests that end without a reply: a command that is not supported, and an association
  whose socket on the client's side cannot be opened.\<close>

lemma socks5_unsupported_command_silent:
  assumes "an_local_ip A = Inr ip" "handle_command_request A = (Inr (CmdOther n, a), t0)"
  shows "serve_connection A peer = (Ret (Inr ()), t0)"
  using assms by (simp add: serve_connection_def)

lemma socks5_listen_failure_silent:
  assumes "an_local_ip A = Inr ip" "handle_command_request A = (Inr (CmdUdpAssociate, S5SocketAddr s), t0)"
    and "an_context A peer = Ret ctx" "an_udp_bind A ctx (any_addr_port s) = (Inr u, ctx')"
    and "an_listen_bind A ctx (any_addr_port peer) = Inl e"
  shows "serve_connection A peer =
    (Ret (Inl e), t0 @ [EvUdpBind (any_addr_port s), EvListenBind (any_addr_port peer)])"
  using assms by (simp add: serve_connection_def serve_udp_associate_def Let_def)

section \<open>Witness\<close>

definition demo_answers :: "s5_command \<Rightarrow> (unit, unit) s5_answers" where
  "demo_answers cmd =
     \<lparr>an_local_ip = Inr (IpV4 (Ipv4 127 0 0 1)), an_read_version = Inr (), an_read_auth = Inr [Noauth],
      an_select = (\<lambda>_ _. Noauth), an_write_version = Inr (), an_write_auth = Inr (), an_flush_auth = Inr (),
      an_read_command = Inr (cmd, S5SocketAddr (demo_host 2)),
      an_context = (\<lambda>_. Ret context_new),
      an_tcp_connect = (\<lambda>ctx a. (Inr (), ctx)), an_tcp_local = (\<lambda>_. Inl NotImplemented),
      an_udp_bind = (\<lambda>ctx a. (Inr (), ctx)), an_listen_bind = (\<lambda>ctx a. Inr ()),
      an_udp_local = (\<lambda>_. Inr (SV4 ipv4_unspecified 5000)),
      an_write_reply = (\<lambda>_. Inr ()), an_flush_reply = (\<lambda>_. Inr ()),
      an_relay_tcp = (\<lambda>_ _. Inr ()), an_relay_udp = (\<lambda>_ _ _. Inr ())\<rparr>"

theorem socks5_reply_discipline_witness:
  "\<exists>m a b. snd (serve_connection (demo_answers CmdConnect) (demo_host 9)) =
     [EvAuth m, EvTcpConnect (sa2ra a), EvReply (ReplySuccess b), EvRelayTcp] \<and>
   length (filter is_reply (snd (serve_connection (demo_answers CmdUdpAssociate) (demo_host 9)))) \<le> 1"
proof -
  have 1: "serve_connection (demo_answers CmdConnect) (demo_host 9) =
      (Ret (Inr ()), [EvAuth Noauth, EvTcpConnect (SocketAddr (demo_host 2)),
         EvReply (ReplySuccess (S5SocketAddr default_addr)), EvRelayTcp])"
    by (simp add: serve_connection_def serve_connect_def handle_command_request_def send_reply_def
        demo_answers_def Let_def)
  obtain r t where 2: "serve_connection (demo_answers CmdUdpAssociate) (demo_host 9) = (r, t)" by fastforce
  from socks5_reply_discipline [OF 1] socks5_reply_discipline [OF 2] 1 2 show ?thesis by auto
qed

end
