(* ===== verification/RD_Local.thy ===== *)
theory RD_Local
  imports Complex_Main RD_CopyUdp "HOL-Library.Multiset"
begin

text \<open>
  The local net of \<^verbatim>\<open>rd-std/src/builtin/local.rs\<close>, on Linux: preparing sockets, connecting with
  a race over the addresses of a domain ("happy eyeballs"), binding, and the UDP socket that
  resolves the target of each packet.

  The operating system is the parameter \<open>os_ops\<close>. Time is counted in milliseconds; what a race
  returns depends on the order in which its attempts complete, which is any order by time (\<open>completes\<close>),
  with attempts that complete at the same time in either order. A pending lookup is the number
  of polls it takes and its result, and polling it again after it returned is a panic, as for
  every \<open>async\<close> block.
\<close>

section \<open>Sockets\<close>

text \<open>\<open>LocalNetConfig\<close>. A keepalive time is a number of a JSON value, so it is finite.\<close>

record local_config =
  lc_ttl :: "u32 option"
  lc_nodelay :: "bool option"
  lc_mark :: "u32 option"
  lc_bind_device :: "string option"
  lc_bind_addr :: "ip_addr option"
  lc_connect_timeout :: "u64 option"
  lc_tcp_keepalive :: "rat option"
  lc_recv_buffer_size :: "nat option"
  lc_send_buffer_size :: "nat option"

datatype sock_op =
    SetNonblocking bool
  | SetRecvBufferSize nat
  | SetSendBufferSize nat
  | BindSocket socket_addr
  | SetTtl u32
  | SetNodelay bool
  | SetTcpKeepalive rat
  | SetMark u32
  | BindDevice string

definition opt_op :: "('a \<Rightarrow> sock_op) \<Rightarrow> 'a option \<Rightarrow> sock_op list" where
  "opt_op f x = (case x of None \<Rightarrow> [] | Some v \<Rightarrow> [f v])"

definition keepalive_op :: "rat option \<Rightarrow> sock_op list" where
  "keepalive_op k =
     (let d = (case k of None \<Rightarrow> 600 | Some d \<Rightarrow> d) in if 0 < d then [SetTcpKeepalive d] else [])"

definition socket_ops :: "local_config \<Rightarrow> bool \<Rightarrow> sock_op list" where
  "socket_ops cfg is_tcp =
     SetNonblocking True #
     opt_op SetRecvBufferSize (lc_recv_buffer_size cfg) @
     opt_op SetSendBufferSize (lc_send_buffer_size cfg) @
     opt_op (\<lambda>a. BindSocket (socket_addr_new a 0)) (lc_bind_addr cfg) @
     opt_op SetTtl (lc_ttl cfg) @
     (if is_tcp
      then SetNodelay (case lc_nodelay cfg of None \<Rightarrow> True | Some b \<Rightarrow> b) #
           keepalive_op (lc_tcp_keepalive cfg)
      else []) @
     opt_op SetMark (lc_mark cfg) @
     opt_op BindDevice (lc_bind_device cfg)"

text \<open>What the system answers: creating a socket, an operation on it, connecting (how long it takes
  and the result), listening, wrapping a socket for the runtime, and accepting.\<close>

record ('h, 'l, 'u) os_ops =
  os_socket :: "socket_addr \<Rightarrow> bool \<Rightarrow> io_error + unit"
  os_set :: "socket_addr \<Rightarrow> bool \<Rightarrow> sock_op \<Rightarrow> io_error + unit"
  os_connect :: "socket_addr \<Rightarrow> nat \<times> (io_error + 'h)"
  os_listen :: "socket_addr \<Rightarrow> io_error + 'l"
  os_from_std :: "socket_addr \<Rightarrow> io_error + 'u"
  os_accept :: "'l \<Rightarrow> io_error + 'h \<times> socket_addr"
  os_set_stream :: "'h \<Rightarrow> sock_op \<Rightarrow> io_error + unit"

text \<open>\<open>set_socket\<close>: the operations in order, up to the first that fails.
  \<open>Duration::from_secs_f64\<close> panics on a time that is not below \<open>2\<^sup>6\<^sup>4\<close> seconds.\<close>

definition op_panics :: "sock_op \<Rightarrow> bool" where
  "op_panics p \<longleftrightarrow> (case p of SetTcpKeepalive d \<Rightarrow> 2 ^ 64 \<le> d | _ \<Rightarrow> False)"

fun run_ops :: "(sock_op \<Rightarrow> io_error + unit) \<Rightarrow> sock_op list \<Rightarrow> (io_error + unit) outcome" where
  "run_ops f [] = Ret (Inr ())"
| "run_ops f (p # ps) =
     (if op_panics p then Panic
      else case f p of Inl e \<Rightarrow> Ret (Inl e) | Inr _ \<Rightarrow> run_ops f ps)"

definition set_socket ::
  "('h, 'l, 'u) os_ops \<Rightarrow> local_config \<Rightarrow> socket_addr \<Rightarrow> bool \<Rightarrow> (io_error + unit) outcome" where
  "set_socket os cfg addr is_tcp = run_ops (os_set os addr is_tcp) (socket_ops cfg is_tcp)"

section \<open>Connecting\<close>

text \<open>How long an attempt takes, and its result. The timeout lets an answer in time through.\<close>

definition tcp_connect_single ::
  "('h, 'l, 'u) os_ops \<Rightarrow> local_config \<Rightarrow> socket_addr \<Rightarrow> nat \<times> (error + 'h) outcome" where
  "tcp_connect_single os cfg addr =
     (case os_socket os addr True of
        Inl e \<Rightarrow> (0, Ret (Inl (IO e)))
      | Inr _ \<Rightarrow>
          (case set_socket os cfg addr True of
             Panic \<Rightarrow> (0, Panic)
           | Ret (Inl e) \<Rightarrow> (0, Ret (Inl (IO e)))
           | Ret (Inr _) \<Rightarrow>
               (case os_connect os addr of (t, r) \<Rightarrow>
                  (case lc_connect_timeout cfg of
                     None \<Rightarrow> (t, Ret (map_err IO r))
                   | Some secs \<Rightarrow>
                       if t \<le> unat secs * 1000 then (t, Ret (map_err IO r))
                       else (unat secs * 1000, Ret (Inl Timeout))))))"

text \<open>\<open>interleave\<close> of \<open>itertools\<close>: alternately from both, then what is left.\<close>

function interleave :: "'a list \<Rightarrow> 'a list \<Rightarrow> 'a list" where
  "interleave [] ys = ys"
| "interleave (x # xs) ys = x # interleave ys xs"
  by pat_completeness auto

termination
  by (relation "measure (\<lambda>(xs, ys). length xs + length ys)") auto

definition race_order :: "socket_addr list \<Rightarrow> socket_addr list" where
  "race_order addrs = interleave (filter is_ipv6 addrs) (filter is_ipv4 addrs)"

text \<open>The attempts of a race: when each completes, and its result. Attempt \<open>i\<close> starts after a
  quarter of a second times \<open>i\<close>.\<close>

definition race_attempts ::
  "('h, 'l, 'u) os_ops \<Rightarrow> local_config \<Rightarrow> socket_addr list \<Rightarrow> (nat \<times> (error + 'h) outcome) list" where
  "race_attempts os cfg addrs =
     map (\<lambda>(i, a). case tcp_connect_single os cfg a of (t, r) \<Rightarrow> (i * 250 + t, r))
       (enumerate 0 (race_order addrs))"

definition completes :: "(nat \<times> 'r) list \<Rightarrow> (nat \<times> 'r) list \<Rightarrow> bool" where
  "completes attempts fin \<longleftrightarrow> mset fin = mset attempts \<and> sorted (map fst fin)"

definition no_address :: error where
  "no_address = IO (IoCustom InvalidInput ''could not resolve to any address'')"

text \<open>The loops over results: of the race in the order of completion, and of the addresses to
  bind to. The first success is the result, or the last error.\<close>

fun first_ok :: "error option \<Rightarrow> (error + 'h) outcome list \<Rightarrow> (error + 'h) outcome" where
  "first_ok last_err [] = Ret (Inl (case last_err of Some e \<Rightarrow> e | None \<Rightarrow> no_address))"
| "first_ok last_err (Panic # rs) = Panic"
| "first_ok last_err (Ret (Inr h) # rs) = Ret (Inr h)"
| "first_ok last_err (Ret (Inl e) # rs) = first_ok (Some e) rs"

definition race_result :: "(nat \<times> (error + 'h) outcome) list \<Rightarrow> (error + 'h) outcome" where
  "race_result fin = first_ok None (map snd fin)"

text \<open>\<open>Resolver::lookup_host\<close> with the configured net or the system's resolver.\<close>

definition local_lookup ::
  "(string \<Rightarrow> u16 \<Rightarrow> error + socket_addr list) option \<Rightarrow> (string \<Rightarrow> u16 \<Rightarrow> io_error + socket_addr list) \<Rightarrow>
   string \<Rightarrow> u16 \<Rightarrow> io_error + socket_addr list" where
  "local_lookup net system domain port =
     (case net of
        Some lookup_host \<Rightarrow> map_err to_io_err (lookup_host domain port)
      | None \<Rightarrow> system domain port)"

definition local_resolve ::
  "(string \<Rightarrow> u16 \<Rightarrow> io_error + socket_addr list) \<Rightarrow> address \<Rightarrow> io_error + socket_addr list" where
  "local_resolve lookup a = fst (resolve (\<lambda>d p w. (lookup d p, w)) a ())"

text \<open>\<open>tcp_connect_happy_eyeballs\<close>; \<open>order\<close> is the order in which the attempts complete.\<close>

definition local_tcp_connect ::
  "((nat \<times> (error + 'h) outcome) list \<Rightarrow> (nat \<times> (error + 'h) outcome) list) \<Rightarrow>
   ('h, 'l, 'u) os_ops \<Rightarrow> local_config \<Rightarrow> (string \<Rightarrow> u16 \<Rightarrow> io_error + socket_addr list) \<Rightarrow>
   address \<Rightarrow> (error + 'h) outcome" where
  "local_tcp_connect order os cfg lookup a =
     (case local_resolve lookup a of
        Inl e \<Rightarrow> Ret (Inl (IO e))
      | Inr addrs \<Rightarrow> race_result (order (race_attempts os cfg addrs)))"

section \<open>Binding and accepting\<close>

definition tcp_bind_single :: "('h, 'l, 'u) os_ops \<Rightarrow> socket_addr \<Rightarrow> (error + 'l) outcome" where
  "tcp_bind_single os addr = Ret (map_err IO (os_listen os addr))"

definition local_tcp_bind ::
  "('h, 'l, 'u) os_ops \<Rightarrow> (string \<Rightarrow> u16 \<Rightarrow> io_error + socket_addr list) \<Rightarrow> address \<Rightarrow>
   (error + 'l) outcome" where
  "local_tcp_bind os lookup a =
     (case local_resolve lookup a of
        Inl e \<Rightarrow> Ret (Inl (IO e))
      | Inr addrs \<Rightarrow> first_ok None (map (tcp_bind_single os) addrs))"

definition udp_bind_single ::
  "('h, 'l, 'u) os_ops \<Rightarrow> local_config \<Rightarrow> socket_addr \<Rightarrow> (error + 'u) outcome" where
  "udp_bind_single os cfg addr =
     (case os_socket os addr False of
        Inl e \<Rightarrow> Ret (Inl (IO e))
      | Inr _ \<Rightarrow>
          (case set_socket os cfg addr False of
             Panic \<Rightarrow> Panic
           | Ret (Inl e) \<Rightarrow> Ret (Inl (IO e))
           | Ret (Inr _) \<Rightarrow>
               Ret (map_err IO
                 (and_then
                   (if lc_bind_addr cfg = None then os_set os addr False (BindSocket addr) else Inr ())
                   (\<lambda>_. os_from_std os addr)))))"

definition local_udp_bind ::
  "('h, 'l, 'u) os_ops \<Rightarrow> local_config \<Rightarrow> (string \<Rightarrow> u16 \<Rightarrow> io_error + socket_addr list) \<Rightarrow>
   address \<Rightarrow> (error + 'u) outcome" where
  "local_udp_bind os cfg lookup a =
     (case local_resolve lookup a of
        Inl e \<Rightarrow> Ret (Inl (IO e))
      | Inr addrs \<Rightarrow> first_ok None (map (udp_bind_single os cfg) addrs))"

text \<open>\<open>Listener::accept\<close>.\<close>

definition listener_accept ::
  "('h, 'l, 'u) os_ops \<Rightarrow> local_config \<Rightarrow> 'l \<Rightarrow> error + 'h \<times> socket_addr" where
  "listener_accept os cfg l =
     map_err IO
       (and_then (os_accept os l) (\<lambda>(h, addr).
        and_then (case lc_ttl cfg of None \<Rightarrow> Inr () | Some ttl \<Rightarrow> os_set_stream os h (SetTtl ttl)) (\<lambda>_.
        and_then (os_set_stream os h (SetNodelay (case lc_nodelay cfg of None \<Rightarrow> True | Some b \<Rightarrow> b))) (\<lambda>_.
        Inr (h, addr)))))"

definition local_lookup_host ::
  "(string \<Rightarrow> u16 \<Rightarrow> io_error + socket_addr list) \<Rightarrow> address \<Rightarrow> error + socket_addr list" where
  "local_lookup_host lookup a = map_err IO (local_resolve lookup a)"

section \<open>The UDP socket\<close>

text \<open>A lookup under way: the polls it still takes and its result; \<open>None\<close> after it returned.\<close>

type_synonym lookup_fut = "(nat \<times> (io_error + socket_addr list)) option"

datatype udp_state = UIdle | ULookup lookup_fut | USending socket_addr

record local_udp =
  lu_out :: "socket_addr dgram_sink"
  lu_state :: udp_state

fun poll_lookup :: "lookup_fut \<Rightarrow> ((io_error + socket_addr list) poll \<times> lookup_fut) outcome" where
  "poll_lookup None = Panic"
| "poll_lookup (Some (Suc n, r)) = Ret (Pending, Some (n, r))"
| "poll_lookup (Some (0, r)) = Ret (Ready r, None)"

text \<open>\<open>poll_send_to_ready\<close>: each pass of the loop moves to the next state or returns, so it is
  unrolled: sending, which the lookup leads to.\<close>

definition lu_sending ::
  "u8 list \<Rightarrow> socket_addr \<Rightarrow> local_udp \<Rightarrow> ((io_error + unit) poll \<times> local_udp) outcome" where
  "lu_sending bs addr u =
     (case poll_deliver bs addr (lu_out u) of
        (Pending, k) \<Rightarrow> Ret (Pending, u\<lparr>lu_out := k\<rparr>)
      | (Ready (Inl e), k) \<Rightarrow> Ret (Ready (Inl e), u\<lparr>lu_out := k\<rparr>)
      | (Ready (Inr _), k) \<Rightarrow> Ret (Ready (Inr ()), u\<lparr>lu_out := k, lu_state := UIdle\<rparr>))"

definition poll_send_to_ready ::
  "u8 list \<Rightarrow> local_udp \<Rightarrow> ((io_error + unit) poll \<times> local_udp) outcome" where
  "poll_send_to_ready bs u =
     (case lu_state u of
        UIdle \<Rightarrow> Ret (Ready (Inr ()), u)
      | ULookup fut \<Rightarrow>
          (case poll_lookup fut of
             Panic \<Rightarrow> Panic
           | Ret (Pending, fut') \<Rightarrow> Ret (Pending, u\<lparr>lu_state := ULookup fut'\<rparr>)
           | Ret (Ready (Inl e), fut') \<Rightarrow> Ret (Ready (Inl e), u\<lparr>lu_state := ULookup fut'\<rparr>)
           | Ret (Ready (Inr []), fut') \<Rightarrow>
               Ret (Ready (Inl (IoSimple AddrNotAvailable)), u\<lparr>lu_state := ULookup fut'\<rparr>)
           | Ret (Ready (Inr (addr # _)), fut') \<Rightarrow> lu_sending bs addr (u\<lparr>lu_state := USending addr\<rparr>))
      | USending addr \<Rightarrow> lu_sending bs addr u)"

text \<open>\<open>poll_send_to\<close>; \<open>start\<close> is the lookup of a domain as it is when it starts.\<close>

definition lu_poll_send_to ::
  "(string \<Rightarrow> u16 \<Rightarrow> nat \<times> (io_error + socket_addr list)) \<Rightarrow> u8 list \<Rightarrow> address \<Rightarrow> local_udp \<Rightarrow>
   ((io_error + nat) poll \<times> local_udp) outcome" where
  "lu_poll_send_to start bs target u0 =
     (let u = (case lu_state u0 of
                 UIdle \<Rightarrow>
                   (case target of
                      SocketAddr s \<Rightarrow> u0\<lparr>lu_state := USending s\<rparr>
                    | Domain d p \<Rightarrow> u0\<lparr>lu_state := ULookup (Some (start d p))\<rparr>)
               | _ \<Rightarrow> u0)
      in case poll_send_to_ready bs u of
           Panic \<Rightarrow> Panic
         | Ret (Pending, u') \<Rightarrow> Ret (Pending, u')
         | Ret (Ready (Inl e), u') \<Rightarrow> Ret (Ready (Inl e), u')
         | Ret (Ready (Inr _), u') \<Rightarrow> Ret (Ready (Inr (length bs)), u'))"

text \<open>A caller that polls a send until it returns, at most \<open>n\<close> times.\<close>

fun lu_send ::
  "nat \<Rightarrow> (string \<Rightarrow> u16 \<Rightarrow> nat \<times> (io_error + socket_addr list)) \<Rightarrow> u8 list \<Rightarrow> address \<Rightarrow> local_udp \<Rightarrow>
   ((io_error + nat) poll \<times> local_udp) outcome" where
  "lu_send 0 start bs target u = Ret (Pending, u)"
| "lu_send (Suc n) start bs target u =
     (case lu_poll_send_to start bs target u of
        Ret (Pending, u') \<Rightarrow> lu_send n start bs target u'
      | r \<Rightarrow> r)"

section \<open>The race\<close>

definition is_err :: "(error + 'h) outcome \<Rightarrow> bool" where
  "is_err r \<longleftrightarrow> (case r of Ret (Inl _) \<Rightarrow> True | _ \<Rightarrow> False)"

lemma mset_interleave: "mset (interleave xs ys) = mset xs + mset ys"
  by (induction xs ys rule: interleave.induct) simp_all

lemma interleave_nth:
  "i < length xs \<Longrightarrow> i < length ys \<Longrightarrow>
   interleave xs ys ! (2 * i) = xs ! i \<and> interleave xs ys ! (2 * i + 1) = ys ! i"
proof (induction i arbitrary: xs ys)
  case 0
  then show ?case by (cases xs; cases ys) simp_all
next
  case (Suc i)
  then show ?case by (cases xs; cases ys) simp_all
qed

lemma not_ipv4_ipv6: "is_ipv6 a \<longleftrightarrow> \<not> is_ipv4 a"
  by (cases a) simp_all

lemma mset_race_order: "mset (race_order addrs) = mset addrs"
proof -
  have "mset (filter (\<lambda>a. \<not> is_ipv4 a) addrs) + mset (filter is_ipv4 addrs) = mset addrs"
    by (induction addrs) simp_all
  then show ?thesis by (simp add: race_order_def mset_interleave not_ipv4_ipv6 [abs_def])
qed

lemma race_attempts_empty: "race_attempts os cfg addrs = [] \<longleftrightarrow> addrs = []"
proof -
  have "length (race_attempts os cfg addrs) = length addrs"
    using mset_eq_length [OF mset_race_order [of addrs]] by (simp add: race_attempts_def)
  then show ?thesis by (metis length_0_conv)
qed

text \<open>The loop returns the first result that is no error, or the last error.\<close>

lemma first_ok_errors:
  "\<forall>r\<in>set rs. is_err r \<Longrightarrow> first_ok le rs = (if rs = [] then first_ok le [] else last rs)"
  by (induction le rs rule: first_ok.induct) (auto simp: is_err_def)

lemma first_ok_success:
  "\<forall>q\<in>set pre. is_err q \<Longrightarrow> \<not> is_err r \<Longrightarrow> first_ok le (pre @ r # post) = r"
proof (induction pre arbitrary: le)
  case Nil
  then show ?case by (auto simp: is_err_def split: outcome.splits sum.splits)
next
  case (Cons q pre)
  then show ?case by (auto simp: is_err_def split: outcome.splits sum.splits)
qed

text \<open>Over a list sorted by time, that is the earliest success or the latest error.\<close>

lemma first_ok_earliest:
  assumes "sorted (map fst fin)"
  shows "if \<forall>(t, r)\<in>set fin. is_err r
         then (if fin = [] then race_result fin = Ret (Inl no_address)
               else \<exists>t. (t, race_result fin) \<in> set fin \<and> (\<forall>(t', r')\<in>set fin. t' \<le> t))
         else \<exists>t. (t, race_result fin) \<in> set fin \<and> \<not> is_err (race_result fin) \<and>
                (\<forall>(t', r')\<in>set fin. t' < t \<longrightarrow> is_err r')"
proof (cases "\<forall>(t, r)\<in>set fin. is_err r")
  case True
  then have errs: "\<forall>r\<in>set (map snd fin). is_err r" by auto
  show ?thesis
  proof (cases "fin = []")
    case nonempty: False
    obtain pre t r where f: "fin = pre @ [(t, r)]" using nonempty by (metis surj_pair rev_exhaust)
    then have "race_result fin = r" "\<forall>(t', r')\<in>set fin. t' \<le> t"
      using assms first_ok_errors [OF errs, of None] by (auto simp: race_result_def sorted_append)
    with f True nonempty show ?thesis by (metis (no_types, lifting) in_set_conv_decomp)
  qed (simp add: race_result_def)
next
  case False
  then have "\<exists>x\<in>set fin. \<not> is_err (snd x)" by force
  then obtain pre t r post where f: "fin = pre @ (t, r) # post" and r: "\<not> is_err r"
    and errs: "\<forall>x\<in>set pre. is_err (snd x)"
    by (auto dest!: split_list_first_prop)
  then have "race_result fin = r"
    using first_ok_success [of "map snd pre" r None] by (simp add: race_result_def)
  moreover have "\<forall>(t', r')\<in>set fin. t' < t \<longrightarrow> is_err r'"
    using assms errs by (auto simp: f sorted_append)
  ultimately show ?thesis using f r False by auto
qed

text \<open>C15: connecting through the local net. The addresses a target resolves to are all tried, once
  each, alternating between IPv6 and IPv4 with IPv6 first, attempt \<open>i\<close> starting a quarter of a second times \<open>i\<close>
  after the first. In whatever order attempts complete, the connection returned is an attempt's that
  succeeded, and every attempt that completed strictly earlier failed; an error is returned
  only when every attempt failed, and it is the error of the last one to complete; with no
  address at all it says so.\<close>

theorem happy_eyeballs:
  assumes "local_resolve lookup a = Inr addrs"
    and "completes (race_attempts os cfg addrs) (order (race_attempts os cfg addrs))"
  shows "let attempts = race_attempts os cfg addrs; res = local_tcp_connect order os cfg lookup a;
             v6 = filter is_ipv6 addrs; v4 = filter is_ipv4 addrs
         in mset (race_order addrs) = mset addrs \<and>
            (\<forall>i < min (length v6) (length v4).
               race_order addrs ! (2 * i) = v6 ! i \<and> race_order addrs ! (2 * i + 1) = v4 ! i) \<and>
            (if \<forall>(t, r)\<in>set attempts. is_err r
             then (if addrs = [] then res = Ret (Inl no_address)
                   else \<exists>t. (t, res) \<in> set attempts \<and> (\<forall>(t', r')\<in>set attempts. t' \<le> t))
             else \<exists>t. (t, res) \<in> set attempts \<and> \<not> is_err res \<and>
                    (\<forall>(t', r')\<in>set attempts. t' < t \<longrightarrow> is_err r'))"
proof -
  define fin where "fin = order (race_attempts os cfg addrs)"
  have fin: "set fin = set (race_attempts os cfg addrs)" "sorted (map fst fin)"
    using assms(2) by (auto simp: completes_def fin_def dest: mset_eq_setD)
  have empty_iff: "fin = [] \<longleftrightarrow> addrs = []"
    using fin(1) race_attempts_empty [of os cfg addrs] by (metis set_empty)
  have res: "local_tcp_connect order os cfg lookup a = race_result fin"
    by (simp add: local_tcp_connect_def assms(1) fin_def)
  have alternate: "\<forall>i < min (length (filter is_ipv6 addrs)) (length (filter is_ipv4 addrs)).
      race_order addrs ! (2 * i) = filter is_ipv6 addrs ! i \<and>
      race_order addrs ! (2 * i + 1) = filter is_ipv4 addrs ! i"
    using interleave_nth by (auto simp: race_order_def)
  show ?thesis
    unfolding Let_def res using first_ok_earliest [OF fin(2)] mset_race_order alternate
    by (simp only: fin(1) empty_iff)
qed

lemma completes_sort: "completes xs (sort_key fst xs)"
  by (simp add: completes_def)

definition demo_v4 :: socket_addr where
  "demo_v4 = SV4 (Ipv4 192 0 2 1) 80"

definition demo_v6 :: socket_addr where
  "demo_v6 = SV6 \<lparr>v6_ip = Ipv6 0x2001 0xdb8 0 0 0 0 0 1, v6_port = 80, v6_flowinfo = 0, v6_scope_id = 0\<rparr>"

definition demo_os :: "(string, unit, unit) os_ops" where
  "demo_os =
     \<lparr>os_socket = (\<lambda>_ _. Inr ()), os_set = (\<lambda>_ _ _. Inr ()),
      os_connect = (\<lambda>a. if is_ipv4 a then (30, Inr ''v4'') else (2000, Inr ''v6'')),
      os_listen = (\<lambda>_. Inr ()), os_from_std = (\<lambda>_. Inr ()),
      os_accept = (\<lambda>_. Inr (''peer'', demo_v4)), os_set_stream = (\<lambda>_ _. Inr ())\<rparr>"

definition demo_cfg :: local_config where
  "demo_cfg =
     \<lparr>lc_ttl = None, lc_nodelay = None, lc_mark = Some 1, lc_bind_device = None, lc_bind_addr = None,
      lc_connect_timeout = Some 5, lc_tcp_keepalive = None, lc_recv_buffer_size = None,
      lc_send_buffer_size = None\<rparr>"

lemma demo_resolve:
  "local_resolve (\<lambda>_ _. Inr [demo_v4, demo_v6]) (Domain ''www.example.com'' 80) = Inr [demo_v4, demo_v6]"
proof -
  have "strip_brackets ''www.example.com'' = ''www.example.com''"
    by (intro strip_brackets_plain) simp
  moreover have "parse_ip ''www.example.com'' = None"
    by (rule parse_ip_no_digit) (simp_all add: stops_def to_digit_def)
  ultimately show ?thesis by (simp add: local_resolve_def resolve_def)
qed

lemma demo_attempts:
  "race_attempts demo_os demo_cfg [demo_v4, demo_v6] =
     [(2000, Ret (Inr ''v6'')), (280, Ret (Inr ''v4''))]"
proof -
  have "set_socket demo_os demo_cfg a True = Ret (Inr ())" for a
    by (simp add: set_socket_def socket_ops_def demo_cfg_def opt_op_def keepalive_op_def demo_os_def
        op_panics_def)
  then have "tcp_connect_single demo_os demo_cfg demo_v6 = (2000, Ret (Inr ''v6''))"
    "tcp_connect_single demo_os demo_cfg demo_v4 = (30, Ret (Inr ''v4''))"
    by (simp_all add: tcp_connect_single_def demo_os_def demo_cfg_def demo_v4_def demo_v6_def)
  moreover have "race_order [demo_v4, demo_v6] = [demo_v6, demo_v4]"
    by (simp add: race_order_def demo_v4_def demo_v6_def)
  ultimately show ?thesis by (simp add: race_attempts_def)
qed

theorem happy_eyeballs_witness:
  "local_tcp_connect (sort_key fst) demo_os demo_cfg (\<lambda>_ _. Inr [demo_v4, demo_v6])
     (Domain ''www.example.com'' 80) = Ret (Inr ''v4'')"
  using happy_eyeballs [where order = "sort_key fst" and os = demo_os and cfg = demo_cfg,
      OF demo_resolve completes_sort]
  by (auto simp: demo_attempts is_err_def Let_def)

section \<open>Sending\<close>

text \<open>The address a target stands for: itself, or the first its lookup gives.\<close>

definition sends_to ::
  "(string \<Rightarrow> u16 \<Rightarrow> nat \<times> (io_error + socket_addr list)) \<Rightarrow> address \<Rightarrow> socket_addr \<Rightarrow> bool" where
  "sends_to start target s \<longleftrightarrow>
     (case target of
        SocketAddr s' \<Rightarrow> s = s'
      | Domain d p \<Rightarrow> (case snd (start d p) of Inr (s' # _) \<Rightarrow> s = s' | _ \<Rightarrow> False))"

text \<open>A send under way for the target.\<close>

definition under_way ::
  "(string \<Rightarrow> u16 \<Rightarrow> nat \<times> (io_error + socket_addr list)) \<Rightarrow> address \<Rightarrow> udp_state \<Rightarrow> bool" where
  "under_way start target st \<longleftrightarrow>
     (case st of
        UIdle \<Rightarrow> True
      | ULookup f \<Rightarrow>
          (case (target, f) of (Domain d p, Some (k, r)) \<Rightarrow> r = snd (start d p) | _ \<Rightarrow> False)
      | USending s \<Rightarrow> sends_to start target s)"

definition stuck_on ::
  "(string \<Rightarrow> u16 \<Rightarrow> nat \<times> (io_error + socket_addr list)) \<Rightarrow> address \<Rightarrow> udp_state \<Rightarrow> bool" where
  "stuck_on start target st \<longleftrightarrow>
     st = ULookup None \<or> (\<exists>s. st = USending s \<and> sends_to start target s)"

text \<open>What a send of \<open>bs\<close> from \<open>u\<close> to \<open>target\<close> may have come to.\<close>

definition sent_ok ::
  "(string \<Rightarrow> u16 \<Rightarrow> nat \<times> (io_error + socket_addr list)) \<Rightarrow> u8 list \<Rightarrow> address \<Rightarrow> local_udp \<Rightarrow>
   ((io_error + nat) poll \<times> local_udp) outcome \<Rightarrow> bool" where
  "sent_ok start bs target u res \<longleftrightarrow>
     (case res of
        Panic \<Rightarrow> False
      | Ret (Pending, u') \<Rightarrow>
          delivered (lu_out u') = delivered (lu_out u) \<and> under_way start target (lu_state u')
      | Ret (Ready (Inl e), u') \<Rightarrow>
          delivered (lu_out u') = delivered (lu_out u) \<and> stuck_on start target (lu_state u')
      | Ret (Ready (Inr m), u') \<Rightarrow>
          m = length bs \<and> lu_state u' = UIdle \<and>
          (\<exists>s. sends_to start target s \<and> delivered (lu_out u') = delivered (lu_out u) @ [(bs, s)]))"

lemma sent_ok_cong:
  "delivered (lu_out u) = delivered (lu_out w) \<Longrightarrow>
   sent_ok start bs target u r \<longleftrightarrow> sent_ok start bs target w r"
  by (simp add: sent_ok_def split: outcome.splits prod.splits poll.splits sum.splits)

lemma lu_sending_ok:
  assumes "sends_to start target s" "lu_state u = USending s"
  shows "sent_ok start bs target u
    (case lu_sending bs s u of
       Panic \<Rightarrow> Panic
     | Ret (Pending, u') \<Rightarrow> Ret (Pending, u')
     | Ret (Ready (Inl e), u') \<Rightarrow> Ret (Ready (Inl e), u')
     | Ret (Ready (Inr _), u') \<Rightarrow> Ret (Ready (Inr (length bs)), u'))"
  using assms
  by (auto simp: lu_sending_def sent_ok_def poll_deliver_def under_way_def stuck_on_def
      split: list.splits answer.splits)

lemma lu_poll_ok:
  assumes "under_way start target (lu_state u)"
  shows "sent_ok start bs target u (lu_poll_send_to start bs target u)"
proof -
  define v where "v = (case lu_state u of
      UIdle \<Rightarrow> (case target of SocketAddr s \<Rightarrow> u\<lparr>lu_state := USending s\<rparr>
                | Domain d p \<Rightarrow> u\<lparr>lu_state := ULookup (Some (start d p))\<rparr>)
    | _ \<Rightarrow> u)"
  have out: "lu_out v = lu_out u" by (simp add: v_def split: udp_state.splits address.splits)
  have way: "under_way start target (lu_state v)" "lu_state v \<noteq> UIdle"
    using assms
    by (auto simp: v_def under_way_def sends_to_def split: udp_state.splits address.splits prod.splits)
  have poll: "lu_poll_send_to start bs target u =
      (case poll_send_to_ready bs v of
         Panic \<Rightarrow> Panic
       | Ret (Pending, u') \<Rightarrow> Ret (Pending, u')
       | Ret (Ready (Inl e), u') \<Rightarrow> Ret (Ready (Inl e), u')
       | Ret (Ready (Inr _), u') \<Rightarrow> Ret (Ready (Inr (length bs)), u'))"
    by (simp add: lu_poll_send_to_def v_def Let_def)
  consider s where "lu_state v = USending s" "sends_to start target s"
    | d p k where "lu_state v = ULookup (Some (k, snd (start d p)))" "target = Domain d p"
    using way by (auto simp: under_way_def split: udp_state.splits address.splits option.splits prod.splits)
  then show ?thesis
  proof cases
    case (1 s)
    then show ?thesis
      using lu_sending_ok [of start target s v bs] by (simp add: poll poll_send_to_ready_def sent_ok_cong [of u v] out)
  next
    case (2 d p k)
    show ?thesis
    proof (cases k)
      case (Suc j)
      with 2 out show ?thesis
        unfolding poll by (simp add: poll_send_to_ready_def sent_ok_def under_way_def)
    next
      case 0
      show ?thesis
      proof (cases "\<exists>s rest. snd (start d p) = Inr (s # rest)")
        case True
        then obtain s rest where s: "snd (start d p) = Inr (s # rest)" by blast
        let ?w = "v\<lparr>lu_state := USending s\<rparr>"
        have "sends_to start target s" using s 2 by (simp add: sends_to_def)
        from lu_sending_ok [OF this, of ?w bs] show ?thesis
          unfolding poll using 2 0 s out by (simp add: poll_send_to_ready_def sent_ok_cong [of u ?w])
      next
        case False
        with 2 0 out show ?thesis
          unfolding poll by (auto simp: poll_send_to_ready_def sent_ok_def stuck_on_def
              split: sum.splits list.splits)
      qed
    qed
  qed
qed

lemma lu_send_ok:
  "under_way start target (lu_state u) \<Longrightarrow> sent_ok start bs target u (lu_send n start bs target u)"
proof (induction n arbitrary: u)
  case 0
  then show ?case by (simp add: sent_ok_def)
next
  case (Suc n)
  note p = lu_poll_ok [OF Suc.prems, of bs]
  show ?case
  proof (cases "\<exists>u'. lu_poll_send_to start bs target u = Ret (Pending, u')")
    case True
    then obtain u' where u': "lu_poll_send_to start bs target u = Ret (Pending, u')" by blast
    then have "delivered (lu_out u') = delivered (lu_out u)" "under_way start target (lu_state u')"
      using p by (simp_all add: sent_ok_def)
    with Suc.IH [of u'] u' show ?thesis by (simp add: sent_ok_cong [of u u'])
  next
    case False
    then have "lu_send (Suc n) start bs target u = lu_poll_send_to start bs target u"
      by (auto split: outcome.splits poll.splits)
    with p show ?thesis by simp
  qed
qed

text \<open>A send returns once its lookup and the socket are ready: after the polls both take, and
  one more.\<close>

lemma lu_send_sending_returns:
  "lu_state u = USending s \<Longrightarrow> snk_script (lu_out u) = replicate j APending @ AOk () # as \<Longrightarrow>
   \<exists>u'. lu_send (Suc j) start bs target u = Ret (Ready (Inr (length bs)), u')"
proof (induction j arbitrary: u)
  case 0
  then show ?case
    by (simp add: lu_poll_send_to_def poll_send_to_ready_def lu_sending_def poll_deliver_def)
next
  case (Suc j)
  let ?v = "u\<lparr>lu_out := lu_out u\<lparr>snk_script := replicate j APending @ AOk () # as\<rparr>\<rparr>"
  have "lu_poll_send_to start bs target u = Ret (Pending, ?v)"
    using Suc.prems
    by (simp add: lu_poll_send_to_def poll_send_to_ready_def lu_sending_def poll_deliver_def)
  moreover have "\<exists>u'. lu_send (Suc j) start bs target ?v = Ret (Ready (Inr (length bs)), u')"
    using Suc.prems by (intro Suc.IH) simp_all
  ultimately show ?case by (subst lu_send.simps(2)) (simp del: lu_send.simps)
qed

lemma lu_send_lookup_returns:
  "lu_state u = ULookup (Some (k, Inr (s # rest))) \<Longrightarrow>
   snk_script (lu_out u) = replicate j APending @ AOk () # as \<Longrightarrow>
   \<exists>u'. lu_send (Suc (k + j)) start bs target u = Ret (Ready (Inr (length bs)), u')"
proof (induction k arbitrary: u)
  case 0
  have "lu_send (Suc j) start bs target u =
      lu_send (Suc j) start bs target (u\<lparr>lu_state := USending s\<rparr>)"
    using 0 by (simp add: lu_poll_send_to_def poll_send_to_ready_def)
  with lu_send_sending_returns [of "u\<lparr>lu_state := USending s\<rparr>"] 0 show ?case by simp
next
  case (Suc k)
  let ?v = "u\<lparr>lu_state := ULookup (Some (k, Inr (s # rest)))\<rparr>"
  have "lu_poll_send_to start bs target u = Ret (Pending, ?v)"
    using Suc.prems by (simp add: lu_poll_send_to_def poll_send_to_ready_def)
  moreover have "\<exists>u'. lu_send (Suc (k + j)) start bs target ?v = Ret (Ready (Inr (length bs)), u')"
    using Suc.prems by (intro Suc.IH) simp_all
  ultimately show ?case by (subst lu_send.simps(2)) (simp del: lu_send.simps)
qed


text \<open>Once ready, a send returns: from an idle socket, to a target that stands for an address,
  with a lookup that takes \<open>k\<close> polls and a socket that is not ready for \<open>j\<close>, it is done after
  \<open>k + j + 1\<close> polls.\<close>

lemma local_udp_send_returns:
  assumes "lu_state u = UIdle" "sends_to start target s"
    and "snk_script (lu_out u) = replicate j APending @ AOk () # as"
  shows "\<exists>u'. lu_send (Suc ((case target of SocketAddr _ \<Rightarrow> 0 | Domain d p \<Rightarrow> fst (start d p)) + j))
           start bs target u = Ret (Ready (Inr (length bs)), u')"
proof (cases target)
  case (SocketAddr s')
  have "lu_send (Suc j) start bs target u =
      lu_send (Suc j) start bs target (u\<lparr>lu_state := USending s'\<rparr>)"
    using assms SocketAddr by (simp add: lu_poll_send_to_def)
  with lu_send_sending_returns [of "u\<lparr>lu_state := USending s'\<rparr>"] assms SocketAddr show ?thesis by simp
next
  case (Domain d p)
  let ?v = "u\<lparr>lu_state := ULookup (Some (start d p))\<rparr>"
  obtain k s' rest where st: "start d p = (k, Inr (s' # rest))"
    using assms(2) Domain by (cases "start d p") (auto simp: sends_to_def split: sum.splits list.splits)
  have "lu_send (Suc (k + j)) start bs target u = lu_send (Suc (k + j)) start bs target ?v"
    using assms Domain by (simp add: lu_poll_send_to_def)
  with lu_send_lookup_returns [of ?v] assms st Domain show ?thesis by simp
qed

text \<open>A socket does not recover from a failed send. After a failed or empty lookup the next send
  polls the finished lookup and panics; after a failure of the socket the next datagram goes to the
  old address, whatever its target.\<close>

lemma failed_send_sticks:
  assumes "lu_state u = UIdle" "lu_send n start bs target u = Ret (Ready (Inl e), u')"
  shows "(\<forall>bs' target'. lu_poll_send_to start bs' target' u' = Panic) \<or>
    (\<exists>s. sends_to start target s \<and>
       (\<forall>bs' target'. lu_poll_send_to start bs' target' u' =
          lu_poll_send_to start bs' (SocketAddr s) (u'\<lparr>lu_state := UIdle\<rparr>)))"
proof -
  have "stuck_on start target (lu_state u')"
    using lu_send_ok [of start target u bs n] assms by (simp add: sent_ok_def under_way_def)
  then consider "lu_state u' = ULookup None"
    | s where "lu_state u' = USending s" "sends_to start target s"
    by (auto simp: stuck_on_def)
  then show ?thesis
  proof cases
    case 1
    then show ?thesis by (simp add: lu_poll_send_to_def poll_send_to_ready_def)
  next
    case (2 s)
    then have "lu_poll_send_to start bs' target' u' =
        lu_poll_send_to start bs' (SocketAddr s) (u'\<lparr>lu_state := UIdle\<rparr>)" for bs' target'
      by (cases u') (simp add: lu_poll_send_to_def)
    with 2 show ?thesis by blast
  qed
qed

lemma failed_send_example:
  "\<exists>u'. lu_send 1 (\<lambda>_ _. (0, Inr [])) [1] (Domain ''x'' 53)
      \<lparr>lu_out = \<lparr>snk_script = [AOk ()], delivered = []\<rparr>, lu_state = UIdle\<rparr> =
        Ret (Ready (Inl (IoSimple AddrNotAvailable)), u') \<and>
      lu_poll_send_to (\<lambda>_ _. (0, Inr [])) [1] (SocketAddr demo_v4) u' = Panic"
  by (simp add: lu_poll_send_to_def poll_send_to_ready_def)


end
