(* ===== verification/RD_Servers.thy ===== *)
theory RD_Servers
  imports RD_Net RD_Peek RD_Socks5Server RD_Local
begin

text \<open>
  The servers of \<^verbatim>\<open>rd-std\<close> that accept connections and hand them to a net: the loops that accept
  (\<^verbatim>\<open>socks5/server.rs\<close>, \<^verbatim>\<open>mixed.rs\<close>, \<^verbatim>\<open>builtin/echo.rs\<close>, \<^verbatim>\<open>builtin/forward.rs\<close>,
  \<^verbatim>\<open>transparent/redir.rs\<close>, \<^verbatim>\<open>transparent/tproxy.rs\<close>) and the tasks they spawn.

  A listener is the list of what its calls of \<open>accept\<close> have returned so far. Starting a server gives the
  tasks it has spawned, each a function of the world it runs in, and its result; \<open>None\<close> for a
  result: it is still running. Calls of nets are those of \<^verbatim>\<open>RD_Net\<close>; relaying between two
  streams (\<open>connect_tcp\<close>, \<^verbatim>\<open>RD_CopyTcp\<close>) is the argument \<open>relay\<close>, what it returns and the
  world after it. \<open>None\<close> for a task: it does not return.
\<close>

section \<open>Accepting\<close>

fun accept_loop :: "(error + 's) list \<Rightarrow> 's list \<times> (error + unit) option" where
  "accept_loop [] = ([], None)"
| "accept_loop (Inl e # as) = ([], Some (Inl e))"
| "accept_loop (Inr s # as) = (case accept_loop as of (ss, r) \<Rightarrow> (s # ss, r))"

text \<open>\<open>start\<close> of the servers that bind through a net; \<open>accepts\<close> are the answers of a listener.\<close>

definition listener_start ::
  "nat \<Rightarrow> ('p, 'h, 'x) ext_ops \<Rightarrow> 'p net_heap \<Rightarrow> 'p net \<Rightarrow> address \<Rightarrow>
   ('h item \<Rightarrow> (error + 's \<times> socket_addr) list) \<Rightarrow> ('s \<Rightarrow> socket_addr \<Rightarrow> 't) \<Rightarrow> 'x world \<Rightarrow>
   ('t list \<times> (error + unit) option \<times> 'x world) option" where
  "listener_start k E H listen_net bind accepts task w =
     (case net_call k E H listen_net TcpBind bind context_new w of
        None \<Rightarrow> None
      | Some (Inl e, _, w') \<Rightarrow> Some ([], Some (Inl e), w')
      | Some (Inr l, _, w') \<Rightarrow>
          (case accept_loop (accepts l) of (cs, r) \<Rightarrow> Some (map (\<lambda>(s, addr). task s addr) cs, r, w')))"

type_synonym 'x task_result = "((error + unit) outcome \<times> 'x world) option"
type_synonym ('h, 's, 'x) relay = "conn_context \<Rightarrow> 's \<Rightarrow> 'h item \<Rightarrow> 'x world \<Rightarrow> (error + unit) \<times> 'x world"

text \<open>Connecting for a client and relaying: what the servers without a protocol of their own do.\<close>

definition connect_and_relay ::
  "nat \<Rightarrow> ('p, 'h, 'x) ext_ops \<Rightarrow> 'p net_heap \<Rightarrow> 'p net \<Rightarrow> ('h, 's, 'x) relay \<Rightarrow>
   address \<Rightarrow> 's \<Rightarrow> socket_addr \<Rightarrow> 'x world \<Rightarrow> 'x task_result" where
  "connect_and_relay k E H n relay target socket addr w =
     (case from_socketaddr (addr_ser E) (addr_de E) addr of
        Panic \<Rightarrow> Some (Panic, w)
      | Ret ctx \<Rightarrow>
          (case net_call k E H n TcpConnect target ctx w of
             None \<Rightarrow> None
           | Some (Inl e, _, w') \<Rightarrow> Some (Ret (Inl e), w')
           | Some (Inr out, ctx', w') \<Rightarrow>
               (case relay ctx' socket out w' of (r, w'') \<Rightarrow> Some (Ret r, w''))))"

section \<open>Echo, SOCKS5 and mixed\<close>

text \<open>\<open>EchoServer\<close>; \<open>copy\<close> is \<open>tokio::io::copy\<close> between the halves of a socket.\<close>

definition echo_serve_connection :: "('s \<Rightarrow> io_error + nat) \<Rightarrow> 's \<Rightarrow> error + unit" where
  "echo_serve_connection copy socket = (case copy socket of Inl e \<Rightarrow> Inl (IO e) | Inr _ \<Rightarrow> Inr ())"

definition echo_start where
  "echo_start copy k E H listen bind accepts w =
     listener_start k E H listen bind accepts (\<lambda>s _. echo_serve_connection copy s) w"

text \<open>\<open>Socks5::start\<close>; the answers of a connection are those of its socket.\<close>

definition socks5_start where
  "socks5_start answers k E H listen_net bind accepts w =
     listener_start k E H listen_net bind accepts (\<lambda>s addr. serve_connection (answers s) addr) w"

text \<open>\<open>HttpSocks5Server::serve_connection\<close> over the two servers, given the stream with the peeked
  byte; a stream that never sends its first byte keeps the task waiting.\<close>

definition mixed_serve_connection ::
  "(peekable \<Rightarrow> socket_addr \<Rightarrow> (error + unit) outcome) \<Rightarrow> (peekable \<Rightarrow> socket_addr \<Rightarrow> (error + unit) outcome) \<Rightarrow>
   stream \<Rightarrow> socket_addr \<Rightarrow> (error + unit) outcome option" where
  "mixed_serve_connection socks5 http socket addr =
     (case mixed_dispatch socket of
        None \<Rightarrow> None
      | Some None \<Rightarrow> Some (Ret (Inr ()))
      | Some (Some (Socks5Handler, p)) \<Rightarrow>
          Some (case socks5 p addr of Panic \<Rightarrow> Panic | Ret r \<Rightarrow> Ret (err_context ''socks5 server'' r))
      | Some (Some (HttpHandler, p)) \<Rightarrow>
          Some (case http p addr of Panic \<Rightarrow> Panic | Ret r \<Rightarrow> Ret (err_context ''http server'' r)))"

definition mixed_start where
  "mixed_start socks5 http k E H listen_net bind accepts w =
     listener_start k E H listen_net bind accepts (mixed_serve_connection socks5 http) w"

section \<open>Transparent servers\<close>

text \<open>\<open>RedirServer\<close> and the TCP side of \<open>TProxyServer\<close>. The first asks for the original destination
  of a connection, the second for its local address, which under TPROXY is that destination;
  both are answers of the socket. The listeners are the system's; binding one is \<open>io_error + \<dots>\<close>.\<close>

definition transparent_serve_connection ::
  "('s \<Rightarrow> io_error + socket_addr) \<Rightarrow> nat \<Rightarrow> ('p, 'h, 'x) ext_ops \<Rightarrow> 'p net_heap \<Rightarrow> 'p net \<Rightarrow>
   ('h, 's, 'x) relay \<Rightarrow> 's \<Rightarrow> socket_addr \<Rightarrow> 'x world \<Rightarrow> 'x task_result" where
  "transparent_serve_connection dest k E H n relay socket addr w =
     (case dest socket of
        Inl e \<Rightarrow> Some (Ret (Inl (IO e)), w)
      | Inr target \<Rightarrow> connect_and_relay k E H n relay (SocketAddr target) socket addr w)"

definition io_serve_listener ::
  "('s \<Rightarrow> socket_addr \<Rightarrow> 't) \<Rightarrow> (io_error + 's \<times> socket_addr) list \<Rightarrow> 't list \<times> (error + unit) option" where
  "io_serve_listener task accepts =
     (case accept_loop (map (map_err IO) accepts) of (cs, r) \<Rightarrow> (map (\<lambda>(s, addr). task s addr) cs, r))"

text \<open>\<open>RedirServer::start\<close>; the system's \<open>bind\<close> is given the text of the address.\<close>

definition redir_start ::
  "(string \<Rightarrow> io_error + (io_error + 's \<times> socket_addr) list) \<Rightarrow> ('s \<Rightarrow> io_error + socket_addr) \<Rightarrow>
   nat \<Rightarrow> ('p, 'h, 'x) ext_ops \<Rightarrow> 'p net_heap \<Rightarrow> 'p net \<Rightarrow> ('h, 's, 'x) relay \<Rightarrow> address \<Rightarrow>
   ('x world \<Rightarrow> 'x task_result) list \<times> (error + unit) option" where
  "redir_start sys_bind origin_addr k E H n relay bind =
     (case sys_bind (show_address bind) of
        Inl e \<Rightarrow> ([], Some (Inl (IO e)))
      | Inr accepts \<Rightarrow> io_serve_listener (transparent_serve_connection origin_addr k E H n relay) accepts)"

text \<open>\<open>select!\<close> of two tasks: the result of one that completes; when both do, \<open>first\<close> tells which
  one was seen first.\<close>

definition select2 :: "bool \<Rightarrow> 'r option \<Rightarrow> 'r option \<Rightarrow> 'r option" where
  "select2 first a b =
     (case (a, b) of
        (None, r) \<Rightarrow> r
      | (Some r, None) \<Rightarrow> Some r
      | (Some r, Some r') \<Rightarrow> Some (if first then r else r'))"

text \<open>\<open>TProxyServer::start\<close>: both listeners are made before either is served; \<open>serve_udp\<close> is the
  result of forwarding the datagrams of the UDP listener (\<^verbatim>\<open>RD_ForwardUdp\<close>).\<close>

definition tproxy_start ::
  "bool \<Rightarrow> (socket_addr \<Rightarrow> io_error + (io_error + 's \<times> socket_addr) list) \<Rightarrow> (socket_addr \<Rightarrow> io_error + 'u) \<Rightarrow>
   ('u \<Rightarrow> (io_error + unit) option) \<Rightarrow> ('s \<Rightarrow> io_error + socket_addr) \<Rightarrow>
   nat \<Rightarrow> ('p, 'h, 'x) ext_ops \<Rightarrow> 'p net_heap \<Rightarrow> 'p net \<Rightarrow> ('h, 's, 'x) relay \<Rightarrow> address \<Rightarrow>
   ('x world \<Rightarrow> 'x task_result) list \<times> (error + unit) option" where
  "tproxy_start first create_tcp_listener listen_udp forward_udp local_addr k E H n relay bind =
     (case and_then (to_socket_addr bind) (\<lambda>s.
            and_then (create_tcp_listener s) (\<lambda>l. map_ok (Pair l) (listen_udp s))) of
        Inl e \<Rightarrow> ([], Some (Inl (IO e)))
      | Inr (accepts, udp) \<Rightarrow>
          (case io_serve_listener (transparent_serve_connection local_addr k E H n relay) accepts of
             (ts, r) \<Rightarrow>
               (ts, select2 first r
                      (map_option (\<lambda>u. err_context ''forward udp'' (map_err IO u)) (forward_udp udp)))))"

section \<open>The forward server\<close>

text \<open>\<open>ListenUdpChannel\<close>: the socket clients send to, the client that sent last, and the target. An
  error of the socket is logged and the call made again.\<close>

record listen_channel =
  lch_src :: "socket_addr dgram_source"
  lch_snk :: "address dgram_sink"
  lch_client :: "socket_addr option"
  lch_target :: address

definition listen_channel_new ::
  "socket_addr dgram_source \<Rightarrow> address dgram_sink \<Rightarrow> address \<Rightarrow> listen_channel" where
  "listen_channel_new s k a = \<lparr>lch_src = s, lch_snk = k, lch_client = None, lch_target = a\<rparr>"

function fetch_retry ::
  "nat \<Rightarrow> socket_addr dgram_source \<Rightarrow> (u8 list \<times> socket_addr) poll \<times> socket_addr dgram_source" where
  "fetch_retry room s =
     (case src_script s of
        [] \<Rightarrow> (Pending, s)
      | _ \<Rightarrow>
          (case poll_fetch room s of
             (Pending, s') \<Rightarrow> (Pending, s')
           | (Ready (Inl e), s') \<Rightarrow> fetch_retry room s'
           | (Ready (Inr x), s') \<Rightarrow> (Ready x, s')))"
  by pat_completeness auto
termination
  by (relation "measure (\<lambda>(room, s). length (src_script s))")
     (auto simp: poll_fetch_def split: list.splits answer.splits)

function deliver_retry :: "u8 list \<Rightarrow> address \<Rightarrow> address dgram_sink \<Rightarrow> unit poll \<times> address dgram_sink" where
  "deliver_retry bs a k =
     (case snk_script k of
        [] \<Rightarrow> (Pending, k)
      | _ \<Rightarrow>
          (case poll_deliver bs a k of
             (Pending, k') \<Rightarrow> (Pending, k')
           | (Ready (Inl e), k') \<Rightarrow> deliver_retry bs a k'
           | (Ready (Inr _), k') \<Rightarrow> (Ready (), k')))"
  by pat_completeness auto
termination
  by (relation "measure (\<lambda>(bs, a, k). length (snk_script k))")
     (auto simp: poll_deliver_def split: list.splits answer.splits)

declare fetch_retry.simps [simp del] deliver_retry.simps [simp del]

definition lch_poll_send_to ::
  "nat \<Rightarrow> listen_channel \<Rightarrow> (io_error + u8 list \<times> address) poll \<times> listen_channel" where
  "lch_poll_send_to room c =
     (case fetch_retry room (lch_src c) of
        (Pending, s) \<Rightarrow> (Pending, c\<lparr>lch_src := s\<rparr>)
      | (Ready (d, a), s) \<Rightarrow>
          (Ready (Inr (d, lch_target c)), c\<lparr>lch_src := s, lch_client := Some a\<rparr>))"

definition lch_poll_recv_from ::
  "u8 list \<Rightarrow> socket_addr \<Rightarrow> listen_channel \<Rightarrow> (io_error + nat) poll \<times> listen_channel" where
  "lch_poll_recv_from bs source c =
     (case lch_client c of
        Some client \<Rightarrow>
          (case deliver_retry bs (SocketAddr client) (lch_snk c) of
             (Pending, k) \<Rightarrow> (Pending, c\<lparr>lch_snk := k\<rparr>)
           | (Ready _, k) \<Rightarrow> (Ready (Inr (length bs)), c\<lparr>lch_snk := k\<rparr>))
      | None \<Rightarrow> (Ready (Inr 0), c))"

text \<open>\<open>ForwardServer\<close>. A task that is not enabled waits forever; \<open>relay_udp\<close> is \<open>connect_udp\<close>
  (\<^verbatim>\<open>RD_CopyUdp\<close>) between the channel and a socket.\<close>

record 'p forward_server =
  fs_listen_net :: "'p net"
  fs_net :: "'p net"
  fs_bind :: address
  fs_target :: address
  fs_tcp :: bool
  fs_udp :: bool

definition forward_new ::
  "'p net \<Rightarrow> 'p net \<Rightarrow> address \<Rightarrow> address \<Rightarrow> bool option \<Rightarrow> bool \<Rightarrow> 'p forward_server" where
  "forward_new listen n bind a tcp udp =
     \<lparr>fs_listen_net = listen, fs_net = n, fs_bind = bind, fs_target = a,
      fs_tcp = (case tcp of None \<Rightarrow> True | Some b \<Rightarrow> b), fs_udp = udp\<rparr>"

definition forward_serve_listener ::
  "nat \<Rightarrow> ('p, 'h, 'x) ext_ops \<Rightarrow> 'p net_heap \<Rightarrow> ('h, 's, 'x) relay \<Rightarrow>
   ('h item \<Rightarrow> (error + 's \<times> socket_addr) list) \<Rightarrow> 'p forward_server \<Rightarrow> 'x world \<Rightarrow>
   (('x world \<Rightarrow> 'x task_result) list \<times> (error + unit) option \<times> 'x world) option" where
  "forward_serve_listener k E H relay accepts fs w =
     (if \<not> fs_tcp fs then Some ([], None, w)
      else listener_start k E H (fs_listen_net fs) (fs_bind fs) accepts
             (connect_and_relay k E H (fs_net fs) relay (fs_target fs)) w)"

definition forward_serve_udp ::
  "nat \<Rightarrow> ('p, 'h, 'x) ext_ops \<Rightarrow> 'p net_heap \<Rightarrow>
   (conn_context \<Rightarrow> 'h item \<Rightarrow> address \<Rightarrow> 'h item \<Rightarrow> 'x world \<Rightarrow> (error + unit) option \<times> 'x world) \<Rightarrow>
   'p forward_server \<Rightarrow> 'x world \<Rightarrow> ((error + unit) option \<times> 'x world) option" where
  "forward_serve_udp k E H relay_udp fs w =
     (if \<not> fs_udp fs then Some (None, w)
      else
        (case net_call k E H (fs_listen_net fs) UdpBind (fs_bind fs) context_new w of
           None \<Rightarrow> None
         | Some (Inl e, _, w') \<Rightarrow> Some (Some (Inl e), w')
         | Some (Inr udp_listener, _, w') \<Rightarrow>
             (case to_any_addr_port (fs_target fs) of
                Inl e \<Rightarrow> Some (Some (Inl (IO e)), w')
              | Inr a \<Rightarrow>
                  (case net_call k E H (fs_net fs) UdpBind a context_new w' of
                     None \<Rightarrow> None
                   | Some (Inl e, _, w'') \<Rightarrow> Some (Some (Inl e), w'')
                   | Some (Inr udp, ctx, w'') \<Rightarrow>
                       Some (relay_udp ctx udp_listener (fs_target fs) udp w'')))))"

definition forward_start :: "bool \<Rightarrow> (error + unit) option \<Rightarrow> (error + unit) option \<Rightarrow> (error + unit) option" where
  "forward_start first tcp_task udp_task =
     map_option (\<lambda>r. and_then r (\<lambda>_. Inr ())) (select2 first tcp_task udp_task)"

section \<open>Lemmas on accepting\<close>

text \<open>The tasks are those of the connections accepted before the first failure, which ends the
  server; without one it keeps running.\<close>

lemma accept_loop_takeWhile:
  "accept_loop as = (map projr (takeWhile is_ok as),
     case dropWhile is_ok as of [] \<Rightarrow> None | r # _ \<Rightarrow> Some (Inl (projl r)))"
  by (induction as rule: accept_loop.induct) (simp_all split: prod.splits)

lemma accept_loop_running: "accept_loop (map Inr cs) = (cs, None)"
  by (induction cs) simp_all

lemma accept_loop_stops: "accept_loop (map Inr cs @ Inl e # as) = (cs, Some (Inl e))"
  by (induction cs) simp_all

text \<open>Through the listener of the local net: an option that cannot be set on one accepted
  socket fails that call of \<open>accept\<close>, so it ends the server.\<close>

lemma accept_option_failure_stops:
  assumes "os_accept os l = Inr (h, addr)" "lc_ttl cfg = None"
    and "os_set_stream os h (SetNodelay (case lc_nodelay cfg of None \<Rightarrow> True | Some b \<Rightarrow> b)) = Inl e"
  shows "accept_loop (map Inr cs @ listener_accept os cfg l # as) = (cs, Some (Inl (IO e)))"
  using assms accept_loop_stops [of cs "IO e" as] by (simp add: listener_accept_def)

section \<open>Replies of the forward server\<close>

datatype lch_op = LchSend nat | LchRecv "u8 list" socket_addr

fun lch_step :: "lch_op \<Rightarrow> listen_channel \<Rightarrow> listen_channel" where
  "lch_step (LchSend room) c = snd (lch_poll_send_to room c)"
| "lch_step (LchRecv bs source) c = snd (lch_poll_recv_from bs source c)"

text \<open>The client is the sender of the last datagram received.\<close>

definition last_sender :: "socket_addr dgram_source \<Rightarrow> socket_addr option" where
  "last_sender s = (if received s = [] then None else Some (snd (last (received s))))"

lemma fetch_retry_received:
  "fetch_retry room s = (r, s') \<Longrightarrow>
   received s' = received s @ (case r of Ready x \<Rightarrow> [x] | Pending \<Rightarrow> [])"
proof (induction room s rule: fetch_retry.induct)
  case (1 room s)
  show ?case
  proof (cases "src_script s")
    case Nil
    with 1(2) show ?thesis by (auto simp: fetch_retry.simps)
  next
    case (Cons x xs)
    show ?thesis
    proof (cases x)
      case (AErr e)
      with Cons have p: "poll_fetch room s = (Ready (Inl e), s\<lparr>src_script := xs\<rparr>)"
        by (simp add: poll_fetch_def)
      have "fetch_retry room (s\<lparr>src_script := xs\<rparr>) = (r, s')"
        using 1(2) Cons p by (simp add: fetch_retry.simps [of room s])
      from 1(1) [OF Cons p [symmetric] refl refl this] show ?thesis by simp
    qed (use 1(2) Cons in \<open>auto simp: fetch_retry.simps [of room s] poll_fetch_def\<close>)
  qed
qed

lemma deliver_retry_delivered:
  "deliver_retry bs a k = (r, k') \<Longrightarrow>
   delivered k' = delivered k @ (case r of Ready _ \<Rightarrow> [(bs, a)] | Pending \<Rightarrow> [])"
proof (induction bs a k rule: deliver_retry.induct)
  case (1 bs a k)
  show ?case
  proof (cases "snk_script k")
    case Nil
    with 1(2) show ?thesis by (auto simp: deliver_retry.simps)
  next
    case (Cons x xs)
    show ?thesis
    proof (cases x)
      case (AErr e)
      with Cons have p: "poll_deliver bs a k = (Ready (Inl e), k\<lparr>snk_script := xs\<rparr>)"
        by (simp add: poll_deliver_def)
      have "deliver_retry bs a (k\<lparr>snk_script := xs\<rparr>) = (r, k')"
        using 1(2) Cons p by (simp add: deliver_retry.simps [of bs a k])
      from 1(1) [OF Cons p [symmetric] refl refl this] show ?thesis by simp
    qed (use 1(2) Cons in \<open>auto simp: deliver_retry.simps [of bs a k] poll_deliver_def\<close>)
  qed
qed

lemma lch_step_client:
  assumes "lch_client c = last_sender (lch_src c)"
  shows "lch_client (lch_step p c) = last_sender (lch_src (lch_step p c)) \<and>
    lch_target (lch_step p c) = lch_target c"
proof (cases p)
  case (LchSend room)
  obtain r s where "fetch_retry room (lch_src c) = (r, s)" by fastforce
  with fetch_retry_received [OF this] assms LchSend show ?thesis
    by (auto simp: lch_poll_send_to_def last_sender_def split: poll.splits)
next
  case (LchRecv bs source)
  with assms show ?thesis
    by (auto simp: lch_poll_recv_from_def split: option.splits poll.splits prod.splits)
qed

lemma lch_run_client:
  "lch_client c = last_sender (lch_src c) \<Longrightarrow>
   lch_client (fold lch_step ps c) = last_sender (lch_src (fold lch_step ps c)) \<and>
   lch_target (fold lch_step ps c) = lch_target c"
  by (induction ps arbitrary: c) (use lch_step_client in auto)

text \<open>C31: the UDP side of the forward server, in every state its calls lead to. A datagram from any
  client is handed to the relay once, addressed to the configured target; a reply is sent once, to the client
  that sent the last datagram, and dropped when there is none; while a call is pending nothing
  moves, and no error of the socket reaches the relay.\<close>

theorem forward_channel:
  assumes "received s = []"
  shows "let c = fold lch_step ps (listen_channel_new s k a) in
    (case lch_poll_send_to room c of
       (Ready (Inr (d, target)), c') \<Rightarrow>
         target = a \<and> (\<exists>client. received (lch_src c') = received (lch_src c) @ [(d, client)])
     | (Ready (Inl e), c') \<Rightarrow> False
     | (Pending, c') \<Rightarrow> received (lch_src c') = received (lch_src c)) \<and>
    (case lch_poll_recv_from bs source c of
       (Ready (Inr n), c') \<Rightarrow>
         (case last_sender (lch_src c) of
            Some client \<Rightarrow> n = length bs \<and>
              delivered (lch_snk c') = delivered (lch_snk c) @ [(bs, SocketAddr client)]
          | None \<Rightarrow> n = 0 \<and> delivered (lch_snk c') = delivered (lch_snk c))
     | (Ready (Inl e), c') \<Rightarrow> False
     | (Pending, c') \<Rightarrow> delivered (lch_snk c') = delivered (lch_snk c))"
proof -
  define c where "c = fold lch_step ps (listen_channel_new s k a)"
  have c: "lch_client c = last_sender (lch_src c)" "lch_target c = a"
    using lch_run_client [of "listen_channel_new s k a" ps] assms
    by (auto simp: c_def listen_channel_new_def last_sender_def)
  obtain r s' where f: "fetch_retry room (lch_src c) = (r, s')" by fastforce
  have "case lch_poll_send_to room c of
       (Ready (Inr (d, target)), c') \<Rightarrow>
         target = a \<and> (\<exists>client. received (lch_src c') = received (lch_src c) @ [(d, client)])
     | (Ready (Inl e), c') \<Rightarrow> False
     | (Pending, c') \<Rightarrow> received (lch_src c') = received (lch_src c)"
    using fetch_retry_received [OF f] c(2) f by (auto simp: lch_poll_send_to_def split: poll.splits)
  moreover have "case lch_poll_recv_from bs source c of
       (Ready (Inr n), c') \<Rightarrow>
         (case last_sender (lch_src c) of
            Some client \<Rightarrow> n = length bs \<and>
              delivered (lch_snk c') = delivered (lch_snk c) @ [(bs, SocketAddr client)]
          | None \<Rightarrow> n = 0 \<and> delivered (lch_snk c') = delivered (lch_snk c))
     | (Ready (Inl e), c') \<Rightarrow> False
     | (Pending, c') \<Rightarrow> delivered (lch_snk c') = delivered (lch_snk c)"
    using c(1) deliver_retry_delivered [of bs _ "lch_snk c"]
    by (auto simp: lch_poll_recv_from_def split: option.splits poll.splits prod.splits)
  ultimately show ?thesis unfolding Let_def c_def [symmetric] by blast
qed

text \<open>Two clients: the reply to the first, when it comes after a datagram of the second, goes to the
  second.\<close>

theorem forward_channel_witness:
  "lch_poll_recv_from [9] demo_v4
     (fold lch_step [LchSend 10, LchSend 10]
       (listen_channel_new
         \<lparr>src_script = [AOk ([1], demo_v4), AErr (IoSimple WouldBlock), AOk ([2], demo_v6)], received = []\<rparr>
         \<lparr>snk_script = [AOk ()], delivered = []\<rparr> (Domain ''x'' 53))) =
   (Ready (Inr 1),
    \<lparr>lch_src = \<lparr>src_script = [], received = [([1], demo_v4), ([2], demo_v6)]\<rparr>,
     lch_snk = \<lparr>snk_script = [], delivered = [([9], SocketAddr demo_v6)]\<rparr>,
     lch_client = Some demo_v6, lch_target = Domain ''x'' 53\<rparr>)"
  using forward_channel [of "\<lparr>src_script = [AOk ([1], demo_v4), AErr (IoSimple WouldBlock), AOk ([2], demo_v6)],
       received = []\<rparr>" "[LchSend 10, LchSend 10]" "\<lparr>snk_script = [AOk ()], delivered = []\<rparr>"
       "Domain ''x'' 53" 10 "[9]" demo_v4]
  by (simp add: listen_channel_new_def lch_poll_send_to_def lch_poll_recv_from_def fetch_retry.simps
      deliver_retry.simps poll_fetch_def poll_deliver_def)

text \<open>A domain as target has no address to bind to, so with \<open>udp\<close> the server fails as soon as its
  listener is bound, and its TCP side with it.\<close>

lemma forward_domain_udp_stops:
  assumes "fs_udp fs" "fs_target fs = Domain d p" "parse_ip (strip_brackets d) = None"
    and "net_call k E H (fs_listen_net fs) UdpBind (fs_bind fs) context_new w = Some (Inr l, ctx, w')"
  shows "forward_serve_udp k E H relay_udp fs w = Some (Some (Inl (IO no_addr)), w') \<and>
    forward_start first None (Some (Inl (IO no_addr))) = Some (Inl (IO no_addr))"
  using assms
  by (simp add: forward_serve_udp_def forward_start_def select2_def to_any_addr_port_def)

end
