(* ===== verification/RD_Http.thy ===== *)
theory RD_Http
  imports RD_Servers
begin

text \<open>
  The HTTP proxy server and client of \<^verbatim>\<open>rd-std/src/http\<close>, and the TLS net of \<^verbatim>\<open>rd-std/src/tls.rs\<close>
  with the stream of its rustls backend.

  The HTTP protocol is hyper's: a request is whether its method is CONNECT, the authority of
  its URI and the rest; \<open>hyper_ops\<close> is what hyper answers when the server talks to an upstream and when
  the client talks to a proxy. The TLS handshake is the connector's. A panic of a net's program is
  a call that does not return, as in \<^verbatim>\<open>RD_RuleNet\<close>.
\<close>

section \<open>The server\<close>

record 'b http_request =
  rq_connect :: bool
  rq_authority :: "string option"
  rq_rest :: 'b

datatype 'r http_response = EmptyOk | BadRequest string | Upstream 'r

record ('h, 's, 'b, 'r) hyper_ops =
  hy_handshake :: "'h item \<Rightarrow> string + unit"
  hy_send_request :: "'h item \<Rightarrow> 'b http_request \<Rightarrow> string + 'r"
  hy_upgrade :: "'b http_request \<Rightarrow> string + 's"

definition host_addr :: "'b http_request \<Rightarrow> string option" where
  "host_addr req = rq_authority req"

definition http_dst :: "string \<Rightarrow> io_error + address" where
  "http_dst dst = into_address (if CHR '':'' \<in> set dst then dst else dst @ '':80'')"

text \<open>The task a CONNECT request spawns. What it returns is not looked at.\<close>

definition http_tunnel ::
  "nat \<Rightarrow> ('p, 'h, 'x) ext_ops \<Rightarrow> 'p net_heap \<Rightarrow> 'p net \<Rightarrow> ('h, 's, 'b, 'r) hyper_ops \<Rightarrow>
   ('h, 's, 'x) relay \<Rightarrow> 'b http_request \<Rightarrow> socket_addr \<Rightarrow> address \<Rightarrow> 'x world \<Rightarrow> 'x task_result" where
  "http_tunnel k E H n hy relay req addr dst w =
     (case hy_upgrade hy req of
        Inl e \<Rightarrow> Some (Ret (Inr ()), w)
      | Inr upgraded \<Rightarrow>
          (case from_socketaddr (addr_ser E) (addr_de E) addr of
             Panic \<Rightarrow> Some (Panic, w)
           | Ret ctx \<Rightarrow>
               (case net_call k E H n TcpConnect dst ctx w of
                  None \<Rightarrow> None
                | Some (Inl e, _, w') \<Rightarrow> Some (Ret (Inl e), w')
                | Some (Inr stream, ctx', w') \<Rightarrow>
                    (case relay ctx' upgraded stream w' of (_, w'') \<Rightarrow> Some (Ret (Inr ()), w'')))))"

text \<open>\<open>proxy\<close>: the answer to the client, the task spawned, and the world after.\<close>

definition http_proxy ::
  "nat \<Rightarrow> ('p, 'h, 'x) ext_ops \<Rightarrow> 'p net_heap \<Rightarrow> 'p net \<Rightarrow> ('h, 's, 'b, 'r) hyper_ops \<Rightarrow>
   ('h, 's, 'x) relay \<Rightarrow> 'b http_request \<Rightarrow> socket_addr \<Rightarrow> 'x world \<Rightarrow>
   ((error + 'r http_response) outcome \<times> ('x world \<Rightarrow> 'x task_result) option \<times> 'x world) option" where
  "http_proxy k E H n hy relay req addr w =
     (case host_addr req of
        None \<Rightarrow> Some (Ret (Inr (BadRequest ''CONNECT must be to a socket address'')), None, w)
      | Some h \<Rightarrow>
          (case http_dst h of
             Inl e \<Rightarrow> Some (Ret (Inl (IO e)), None, w)
           | Inr dst \<Rightarrow>
               if rq_connect req
               then Some (Ret (Inr EmptyOk), Some (http_tunnel k E H n hy relay req addr dst), w)
               else
                 (case from_socketaddr (addr_ser E) (addr_de E) addr of
                    Panic \<Rightarrow> Some (Panic, None, w)
                  | Ret ctx \<Rightarrow>
                      (case net_call k E H n TcpConnect dst ctx w of
                         None \<Rightarrow> None
                       | Some (Inl e, _, w') \<Rightarrow> Some (Ret (Inl e), None, w')
                       | Some (Inr stream, _, w') \<Rightarrow>
                           Some (Ret (map_ok Upstream (map_err Other
                                   (and_then (hy_handshake hy stream) (\<lambda>_. hy_send_request hy stream req)))),
                                 None, w')))))"

text \<open>\<open>HttpServer::serve_connection\<close> gives a connection to hyper (\<open>serve\<close>) with the service, and
  \<open>Http::start\<close> accepts.\<close>

definition http_start where
  "http_start serve k E H n hy relay listen_net bind accepts w =
     listener_start k E H listen_net bind accepts
       (\<lambda>s addr. serve s (\<lambda>req. http_proxy k E H n hy relay req addr)) w"

section \<open>The client\<close>

record ('h, 'r) http_client_ops =
  hc_handshake :: "'h item \<Rightarrow> string + unit"
  hc_valid_uri :: "string \<Rightarrow> bool"
  hc_connection :: "'h item \<Rightarrow> unit http_request \<Rightarrow> string + 'h item"
  hc_response :: "'h item \<Rightarrow> unit http_request \<Rightarrow> string + 'r"

definition http_connect_request :: "address \<Rightarrow> unit http_request" where
  "http_connect_request a = \<lparr>rq_connect = True, rq_authority = Some (show_address a), rq_rest = ()\<rparr>"

definition http_client_prog ::
  "('h, 'r) http_client_ops \<Rightarrow> address \<Rightarrow> net_op \<Rightarrow> address \<Rightarrow> conn_context \<Rightarrow> 'x \<Rightarrow> ('h, 'x) prog" where
  "http_client_prog hc server op a ctx x =
     Call 0 TcpConnect server ctx x (\<lambda>(r, c, y).
       case r of
         Inl e \<Rightarrow> prog.Done (Inl e) c y
       | Inr socket \<Rightarrow>
           (case hc_handshake hc socket of
              Inl e \<Rightarrow> prog.Done (Inl (Other e)) c y
            | Inr _ \<Rightarrow>
                if \<not> hc_valid_uri hc (show_address a)
                then Call 1 op a c y (\<lambda>(q, c, y). prog.Done q c y)
                else
                  (case hc_connection hc socket (http_connect_request a) of
                     Inl e \<Rightarrow> prog.Done (Inl (Other e)) c y
                   | Inr io \<Rightarrow>
                       (case hc_response hc socket (http_connect_request a) of
                          Inl e \<Rightarrow> prog.Done (Inl (Other e)) c y
                        | Inr _ \<Rightarrow> prog.Done (Inr io) c y))))"

definition http_client_provides :: "net_op \<Rightarrow> bool" where
  "http_client_provides op \<longleftrightarrow> op = TcpConnect"

section \<open>TLS\<close>

text \<open>\<open>TlsNet\<close>: the name given to the TLS connector is the configured one or the host asked for.\<close>

definition tls_prog ::
  "(string \<Rightarrow> 'h item \<Rightarrow> error + 'h item) \<Rightarrow> string option \<Rightarrow> net_op \<Rightarrow> address \<Rightarrow> conn_context \<Rightarrow> 'x \<Rightarrow>
   ('h, 'x) prog" where
  "tls_prog connect sni op a ctx x =
     Call 0 TcpConnect a ctx x (\<lambda>(r, c, y).
       case r of
         Inl e \<Rightarrow> prog.Done (Inl e) c y
       | Inr stream \<Rightarrow>
           prog.Done (connect (case sni of Some d \<Rightarrow> d | None \<Rightarrow> addr_host a) stream) c y)"

definition tls_provides :: "net_op \<Rightarrow> bool" where
  "tls_provides op \<longleftrightarrow> op = TcpConnect"

text \<open>\<open>PushingStream\<close> of \<^verbatim>\<open>tls/rustls.rs\<close>: a write returns when what it wrote is flushed. The loop is
  unrolled: a write leads to a flush, and a flush ends it.\<close>

datatype push_state = PushWrite | PushFlush nat

record pushing_stream =
  ps_inner :: stream
  ps_state :: push_state

definition pushing_new :: "stream \<Rightarrow> pushing_stream" where
  "pushing_new st = \<lparr>ps_inner = st, ps_state = PushWrite\<rparr>"

definition push_flush :: "nat \<Rightarrow> pushing_stream \<Rightarrow> (io_error + nat) poll \<times> pushing_stream" where
  "push_flush wrote p =
     (case poll_flush (ps_inner p) of
        (Pending, st) \<Rightarrow> (Pending, p\<lparr>ps_inner := st\<rparr>)
      | (Ready (Inl e), st) \<Rightarrow> (Ready (Inl e), p\<lparr>ps_inner := st\<rparr>)
      | (Ready (Inr _), st) \<Rightarrow> (Ready (Inr wrote), p\<lparr>ps_inner := st, ps_state := PushWrite\<rparr>))"

definition push_poll_write :: "u8 list \<Rightarrow> pushing_stream \<Rightarrow> (io_error + nat) poll \<times> pushing_stream" where
  "push_poll_write bs p =
     (case ps_state p of
        PushFlush wrote \<Rightarrow> push_flush wrote p
      | PushWrite \<Rightarrow>
          (case poll_write bs (ps_inner p) of
             (Pending, st) \<Rightarrow> (Pending, p\<lparr>ps_inner := st\<rparr>)
           | (Ready (Inl e), st) \<Rightarrow> (Ready (Inl e), p\<lparr>ps_inner := st\<rparr>)
           | (Ready (Inr wrote), st) \<Rightarrow> push_flush wrote (p\<lparr>ps_inner := st, ps_state := PushFlush wrote\<rparr>)))"

text \<open>A caller that polls a write with the same bytes until it returns, at most \<open>n\<close> times.\<close>

fun push_write :: "nat \<Rightarrow> u8 list \<Rightarrow> pushing_stream \<Rightarrow> (io_error + nat) poll \<times> pushing_stream" where
  "push_write 0 bs p = (Pending, p)"
| "push_write (Suc n) bs p =
     (case push_poll_write bs p of (Pending, p') \<Rightarrow> push_write n bs p' | r \<Rightarrow> r)"

section \<open>Destinations\<close>







text \<open>The client does not look at the status of the answer to its request.\<close>

lemma http_client_ignores_status:
  "http_client_prog (hc\<lparr>hc_response := \<lambda>_ _. Inr r\<rparr>) = http_client_prog (hc\<lparr>hc_response := \<lambda>_ _. Inr r'\<rparr>)"
  by (auto simp: http_client_prog_def fun_eq_iff split: sum.splits)

text \<open>A literal IPv6 host without a port is refused, although it is a host without a port.\<close>

lemma read_digits_all:
  "read_digits r acc k s = (v, n, []) \<Longrightarrow> c \<in> set s \<Longrightarrow> to_digit r c \<noteq> None"
  by (induction s arbitrary: acc k) (auto split: option.splits)

lemma parse_u16_no_bracket: "CHR '']'' \<in> set s \<Longrightarrow> parse_u16 s = None"
proof (rule ccontr)
  assume s: "CHR '']'' \<in> set s" "parse_u16 s \<noteq> None"
  define t where "t = (case s of c # s' \<Rightarrow> if c = CHR ''+'' then s' else s | [] \<Rightarrow> [])"
  have t: "CHR '']'' \<in> set t" using s(1) by (cases s) (simp_all add: t_def, auto)
  obtain v n where "read_digits 10 0 0 t = (v, n, [])"
    using s(2) unfolding parse_u16_def parse_unsigned_def Let_def t_def [symmetric]
    by (cases "read_digits 10 0 0 t") (simp split: if_splits)
  from read_digits_all [OF this t] show False by (simp add: to_digit_def)
qed

lemma http_dst_ipv6_literal:
  assumes "CHR '':'' \<in> set h"
  shows "http_dst (''['' @ h @ '']'') = Inl no_addr"
proof -
  let ?s = "''['' @ h @ '']''"
  have "split_host_port ?s \<noteq> Inr (g, p)" for g p
  proof
    assume "split_host_port ?s = Inr (g, p)"
    then obtain t where t: "?s = g @ CHR '':'' # t" "parse_u16 t = Some p"
      using split_host_port_Inr by blast
    have "last ?s = CHR '']''" by simp
    then have "last (CHR '':'' # t) = CHR '']''" unfolding t(1) by simp
    then have "CHR '']'' \<in> set t" by (cases "t = []") (simp_all, metis last_in_set)
    with t(2) show False by (simp add: parse_u16_no_bracket)
  qed
  then obtain e where "split_host_port ?s = Inl e" by (cases "split_host_port ?s") auto
  with split_host_port_Inl [OF this] assms show ?thesis by (simp add: http_dst_def into_address_def)
qed

lemma http_dst_literal_example: "http_dst ''[::1]'' = Inl no_addr"
  using http_dst_ipv6_literal [of "''::1''"] by simp

text \<open>The name for the handshake with an IPv6 address is the address in brackets.\<close>

lemma tls_name_ipv6:
  "tls_prog connect None TcpConnect (SocketAddr (SV6 s)) ctx x =
     Call 0 TcpConnect (SocketAddr (SV6 s)) ctx x (\<lambda>(r, c, y).
       case r of Inl e \<Rightarrow> prog.Done (Inl e) c y
       | Inr stream \<Rightarrow> prog.Done (connect (''['' @ show_ipv6 (v6_ip s) @ '']'') stream) c y)"
  by (simp add: tls_prog_def fun_eq_iff split: sum.splits)

section \<open>Pushing\<close>

text \<open>Where a write of \<open>bs\<close> that started with \<open>w\<close> written and the flushes \<open>fs\<close> to come may be.\<close>

definition push_ok ::
  "u8 list \<Rightarrow> u8 list \<Rightarrow> unit answer list \<Rightarrow> pushing_stream \<Rightarrow> bool" where
  "push_ok bs w fs p \<longleftrightarrow>
     (\<exists>pre. fs = pre @ fl_script (ps_inner p)) \<and>
     (case ps_state p of
        PushWrite \<Rightarrow> written (ps_inner p) = w
      | PushFlush m \<Rightarrow> m \<le> length bs \<and> written (ps_inner p) = w @ take m bs)"

definition pushed ::
  "u8 list \<Rightarrow> u8 list \<Rightarrow> unit answer list \<Rightarrow> (io_error + nat) poll \<times> pushing_stream \<Rightarrow> bool" where
  "pushed bs w fs res \<longleftrightarrow>
     (case res of
        (Ready (Inr m), p) \<Rightarrow>
          m \<le> length bs \<and> written (ps_inner p) = w @ take m bs \<and> ps_state p = PushWrite \<and>
          (\<exists>pre. fs = pre @ AOk () # fl_script (ps_inner p))
      | (_, p) \<Rightarrow> push_ok bs w fs p)"

lemma push_flush_ok:
  assumes "push_ok bs w fs p" "ps_state p = PushFlush m"
  shows "pushed bs w fs (push_flush m p)"
proof -
  obtain pre where pre: "fs = pre @ fl_script (ps_inner p)" using assms(1) by (auto simp: push_ok_def)
  show ?thesis
  proof (cases "fl_script (ps_inner p)")
    case Nil
    with assms show ?thesis by (simp add: push_flush_def poll_flush_def pushed_def push_ok_def)
  next
    case (Cons y ys)
    have "\<exists>q. fs = q @ ys" using pre Cons by (intro exI [of _ "pre @ [y]"]) simp
    with assms pre Cons show ?thesis
      by (cases y) (auto simp: push_flush_def poll_flush_def pushed_def push_ok_def)
  qed
qed

lemma push_poll_write_ok:
  assumes "push_ok bs w fs p"
  shows "pushed bs w fs (push_poll_write bs p)"
proof (cases "ps_state p")
  case (PushFlush m)
  with push_flush_ok [OF assms PushFlush] show ?thesis by (simp add: push_poll_write_def)
next
  case PushWrite
  show ?thesis
  proof (cases "wr_script (ps_inner p)")
    case Nil
    with PushWrite assms show ?thesis by (simp add: push_poll_write_def poll_write_def pushed_def push_ok_def)
  next
    case (Cons y ys)
    show ?thesis
    proof (cases y)
      case (AOk m)
      let ?q = "p\<lparr>ps_inner := ps_inner p\<lparr>wr_script := ys, written := written (ps_inner p) @ take m bs\<rparr>,
          ps_state := PushFlush (min m (length bs))\<rparr>"
      have "push_ok bs w fs ?q" using assms PushWrite by (simp add: push_ok_def min_def)
      from push_flush_ok [OF this, of "min m (length bs)"] show ?thesis
        using PushWrite Cons AOk by (simp add: push_poll_write_def poll_write_def)
    qed (use PushWrite Cons assms in
        \<open>simp_all add: push_poll_write_def poll_write_def pushed_def push_ok_def\<close>)
  qed
qed

text \<open>A write, polled with the same bytes until it returns, that reports \<open>m\<close> bytes has put exactly the
  first \<open>m\<close> on the stream and flushed them; until then nothing else is written.\<close>

lemma push_write_flushed:
  assumes "ps_state p = PushWrite"
  shows "pushed bs (written (ps_inner p)) (fl_script (ps_inner p)) (push_write n bs p)"
proof -
  have "pushed bs w fs (push_write n bs p)" if "push_ok bs w fs p" for p w fs
    using that
  proof (induction n arbitrary: p)
    case 0
    then show ?case by (simp add: pushed_def)
  next
    case (Suc n)
    obtain r p' where r: "push_poll_write bs p = (r, p')" by fastforce
    with push_poll_write_ok [OF Suc.prems] Suc.IH [of p'] show ?case
      by (cases r) (auto simp: pushed_def)
  qed
  from this [of "written (ps_inner p)" "fl_script (ps_inner p)" p] assms show ?thesis
    by (simp add: push_ok_def)
qed

text \<open>A flush that fails leaves the count of its write behind: the next write flushes, writes none of
  its own bytes and reports the old count.\<close>

lemma push_after_flush_error:
  assumes "ps_state p = PushFlush m" "poll_flush (ps_inner p) = (Ready (Inr ()), st)"
  shows "fst (push_poll_write bs p) = Ready (Inr m) \<and>
    written (ps_inner (snd (push_poll_write bs p))) = written (ps_inner p)"
  using assms
  by (auto simp: push_poll_write_def push_flush_def poll_flush_def split: list.splits answer.splits)

lemma push_after_flush_error_example:
  "let p = snd (push_poll_write [1, 2, 3] (pushing_new
      \<lparr>rd_script = [], wr_script = [AOk 3], fl_script = [AErr (IoSimple WouldBlock), AOk ()], sh_script = [],
       consumed = [], eof = False, written = []\<rparr>))
   in fst (push_poll_write [9] p) = Ready (Inr 3) \<and> written (ps_inner (snd (push_poll_write [9] p))) = [1, 2, 3]"
  by (simp add: pushing_new_def push_poll_write_def push_flush_def poll_write_def poll_flush_def)

section \<open>Witness\<close>




end
