(* ===== verification/RD_ForwardUdp.thy ===== *)
theory RD_ForwardUdp
  imports RD_CopyUdp
begin

text \<open>
  Forwarding of datagrams, \<^verbatim>\<open>rd-std/src/util/forward_udp.rs\<close> with its parts \<^verbatim>\<open>connection.rs\<close> and
  \<^verbatim>\<open>send_back.rs\<close>: datagrams from one raw source are given, by sender, to connections that each
  relay in a task of their own, and what the tasks receive is sent back through the source.

  The queues between the future and the tasks are the bounded channels of tokio: a list with a
  capacity, to which \<open>try_send\<close> appends when there is room. The cache of connections is a map; at
  every access any entries may have expired or been evicted, which \<open>expired\<close> decides from the
  number of accesses before. A task is what it does to its channels: it takes the next packet,
  gives back a packet, or ends. The fields \<open>fu_taken\<close> and \<open>fu_accepted\<close> record what the tasks took
  and gave, and are read by no operation.
\<close>

section \<open>Data\<close>

record udp_endpoint =
  ep_from :: socket_addr
  ep_to :: socket_addr

record udp_packet =
  pk_from :: socket_addr
  pk_to :: socket_addr
  pk_data :: "u8 list"

definition udp_packet_new :: "u8 list \<Rightarrow> socket_addr \<Rightarrow> socket_addr \<Rightarrow> udp_packet" where
  "udp_packet_new d f t = \<lparr>pk_from = f, pk_to = t, pk_data = d\<rparr>"

text \<open>A \<open>RawUdpSource\<close>: its answers, and what went through it.\<close>

record raw_source =
  raw_recv :: "(u8 list \<times> udp_endpoint) answer list"
  raw_send :: "unit answer list"
  raw_received :: "(u8 list \<times> udp_endpoint) list"
  raw_sent :: "udp_packet list"

definition raw_poll_recv :: "nat \<Rightarrow> raw_source \<Rightarrow> (io_error + u8 list \<times> udp_endpoint) poll \<times> raw_source" where
  "raw_poll_recv room s =
     (case raw_recv s of
        [] \<Rightarrow> (Pending, s)
      | APending # as \<Rightarrow> (Pending, s\<lparr>raw_recv := as\<rparr>)
      | AErr e # as \<Rightarrow> (Ready (Inl e), s\<lparr>raw_recv := as\<rparr>)
      | AOk (d, e) # as \<Rightarrow>
          (Ready (Inr (take room d, e)),
           s\<lparr>raw_recv := as, raw_received := raw_received s @ [(take room d, e)]\<rparr>))"

definition raw_poll_send :: "udp_packet \<Rightarrow> raw_source \<Rightarrow> (io_error + unit) poll \<times> raw_source" where
  "raw_poll_send p s =
     (case raw_send s of
        [] \<Rightarrow> (Pending, s)
      | APending # as \<Rightarrow> (Pending, s\<lparr>raw_send := as\<rparr>)
      | AErr e # as \<Rightarrow> (Ready (Inl e), s\<lparr>raw_send := as\<rparr>)
      | AOk _ # as \<Rightarrow> (Ready (Inr ()), s\<lparr>raw_send := as, raw_sent := raw_sent s @ [p]\<rparr>))"

text \<open>\<open>UdpConnection\<close>: the channel to its task, and whether the task still holds the other end.\<close>

type_synonym conn_item = "u8 list \<times> socket_addr"

record udp_connection =
  uc_queue :: "conn_item list"
  uc_open :: bool

record forward_udp =
  fu_s :: raw_source
  fu_conn :: "socket_addr \<Rightarrow> udp_connection option"
  fu_accesses :: nat
  fu_back :: "udp_packet list"
  fu_channel_size :: nat
  fu_send_buf :: "udp_packet option"
  fu_taken :: "socket_addr \<Rightarrow> conn_item list"
  fu_accepted :: "udp_packet list"

definition forward_udp_new :: "raw_source \<Rightarrow> nat option \<Rightarrow> forward_udp" where
  "forward_udp_new s channel_size =
     \<lparr>fu_s = s, fu_conn = Map.empty, fu_accesses = 0, fu_back = [],
      fu_channel_size = (case channel_size of Some n \<Rightarrow> n | None \<Rightarrow> 128), fu_send_buf = None,
      fu_taken = (\<lambda>_. []), fu_accepted = []\<rparr>"

section \<open>Operations of the future\<close>

type_synonym expiry = "nat \<Rightarrow> socket_addr \<Rightarrow> bool"

definition udp_connection_new :: udp_connection where
  "udp_connection_new = \<lparr>uc_queue = [], uc_open = True\<rparr>"

definition fu_expire :: "expiry \<Rightarrow> forward_udp \<Rightarrow> forward_udp" where
  "fu_expire expired f =
     f\<lparr>fu_conn := (\<lambda>k. if expired (fu_accesses f) k then None else fu_conn f k),
       fu_accesses := fu_accesses f + 1\<rparr>"

text \<open>\<open>get\<close>: the connection of a sender, made when there is none.\<close>

definition fu_get :: "expiry \<Rightarrow> socket_addr \<Rightarrow> forward_udp \<Rightarrow> udp_connection \<times> forward_udp" where
  "fu_get expired bind_from f0 =
     (let f = fu_expire expired f0
      in case fu_conn f bind_from of
           Some c \<Rightarrow> (c, f)
         | None \<Rightarrow> (udp_connection_new, f\<lparr>fu_conn := (fu_conn f)(bind_from \<mapsto> udp_connection_new)\<rparr>))"

text \<open>\<open>UdpConnection::send\<close>: \<open>try_send\<close> fails when the channel is full or closed;
  the text of the error, which is dropped, is the channel's.\<close>

definition uc_send :: "nat \<Rightarrow> conn_item \<Rightarrow> udp_connection \<Rightarrow> (error + unit) \<times> udp_connection" where
  "uc_send channel_size packet c =
     (if uc_open c \<and> length (uc_queue c) < channel_size
      then (Inr (), c\<lparr>uc_queue := uc_queue c @ [packet]\<rparr>)
      else (Inl (IO (IoCustom KindOther [])), c))"

text \<open>The body of the loop of \<open>poll_recv_packet\<close> for one datagram; a failed send is only logged.\<close>

definition fu_dispatch :: "expiry \<Rightarrow> u8 list \<times> udp_endpoint \<Rightarrow> forward_udp \<Rightarrow> forward_udp" where
  "fu_dispatch expired item f0 =
     (case item of (bs, e) \<Rightarrow>
        (case fu_get expired (ep_from e) f0 of (udp, f) \<Rightarrow>
           f\<lparr>fu_conn := (fu_conn f)(ep_from e \<mapsto> snd (uc_send (fu_channel_size f) (bs, ep_to e) udp))\<rparr>))"

lemma fu_dispatch_s [simp]: "fu_s (fu_dispatch expired item f) = fu_s f"
  by (auto simp: fu_dispatch_def fu_get_def fu_expire_def Let_def split: prod.splits option.splits)

function poll_recv_packet :: "expiry \<Rightarrow> forward_udp \<Rightarrow> io_error option \<times> forward_udp" where
  "poll_recv_packet expired f =
     (case raw_recv (fu_s f) of
        [] \<Rightarrow> (None, f)
      | _ \<Rightarrow>
          (case raw_poll_recv UDP_BUFFER_SIZE (fu_s f) of
             (Pending, s) \<Rightarrow> (None, f\<lparr>fu_s := s\<rparr>)
           | (Ready (Inl e), s) \<Rightarrow> (Some e, f\<lparr>fu_s := s\<rparr>)
           | (Ready (Inr item), s) \<Rightarrow>
               poll_recv_packet expired (fu_dispatch expired item (f\<lparr>fu_s := s\<rparr>))))"
  by pat_completeness auto
termination
  by (relation "measure (\<lambda>(x, f). length (raw_recv (fu_s f)))")
     (auto simp: raw_poll_recv_def split: list.splits answer.splits)

text \<open>\<open>poll_send_back\<close>; the future keeps a sender of the channel, so it is never closed.\<close>

function poll_send_back :: "forward_udp \<Rightarrow> io_error option \<times> forward_udp" where
  "poll_send_back f =
     (case fu_send_buf f of
        Some p \<Rightarrow>
          (case raw_poll_send p (fu_s f) of
             (Pending, s) \<Rightarrow> (None, f\<lparr>fu_s := s\<rparr>)
           | (Ready (Inl e), s) \<Rightarrow> (Some e, f\<lparr>fu_s := s\<rparr>)
           | (Ready (Inr _), s) \<Rightarrow> poll_send_back (f\<lparr>fu_s := s, fu_send_buf := None\<rparr>))
      | None \<Rightarrow>
          (case fu_back f of
             [] \<Rightarrow> (None, f)
           | p # ps \<Rightarrow> poll_send_back (f\<lparr>fu_back := ps, fu_send_buf := Some p\<rparr>)))"
  by pat_completeness auto
termination
  by (relation "measure (\<lambda>f. 2 * length (fu_back f) + (if fu_send_buf f = None then 0 else 1))") auto

declare poll_recv_packet.simps [simp del] poll_send_back.simps [simp del]

text \<open>\<open>poll\<close> of the future: an error of either direction is its result, otherwise it is pending.\<close>

definition forward_udp_poll :: "expiry \<Rightarrow> forward_udp \<Rightarrow> (io_error + unit) poll \<times> forward_udp" where
  "forward_udp_poll expired f0 =
     (case poll_recv_packet expired f0 of
        (Some e, f) \<Rightarrow> (Ready (Inl e), f)
      | (None, f) \<Rightarrow>
          (case poll_send_back f of
             (Some e, f) \<Rightarrow> (Ready (Inl e), f)
           | (None, f) \<Rightarrow> (Pending, fu_expire expired f)))"

section \<open>BackChannel\<close>

text \<open>The channel end of the task of the connection \<open>to\<close>. \<open>poll_send_to\<close> hands out the next
  packet, cut to the buffer; when the sender is gone the channel is closed.\<close>

definition back_poll_send_to ::
  "nat \<Rightarrow> bool \<Rightarrow> conn_item list \<Rightarrow> (io_error + u8 list \<times> address) poll \<times> conn_item list" where
  "back_poll_send_to room closed q =
     (case q of
        [] \<Rightarrow> (if closed then Ready (Inl (IoCustom KindOther ''channel closed'')) else Pending, [])
      | (d, a) # q' \<Rightarrow> (Ready (Inr (take room d, SocketAddr a)), q'))"

text \<open>\<open>poll_recv_from\<close>: wait for room in the channel back, send, flush (which has nothing to wait
  for).\<close>

definition back_poll_recv_from ::
  "nat \<Rightarrow> socket_addr \<Rightarrow> u8 list \<Rightarrow> socket_addr \<Rightarrow> udp_packet list \<Rightarrow> (io_error + nat) poll \<times> udp_packet list" where
  "back_poll_recv_from channel_size to_addr bs target chan =
     (if channel_size \<le> length chan then (Pending, chan)
      else (Ready (Inr (length bs)), chan @ [udp_packet_new bs target to_addr]))"

section \<open>The system\<close>

datatype fu_event =
    FuPoll
  | FuTake socket_addr
  | FuGive socket_addr "u8 list" socket_addr
  | FuEnd socket_addr

text \<open>A step of the future or of the task of a connection. A task whose connection left the cache
  was aborted by its \<open>Drop\<close> and does nothing.\<close>

fun fu_step :: "expiry \<Rightarrow> fu_event \<Rightarrow> forward_udp \<Rightarrow> forward_udp" where
  "fu_step expired FuPoll f = snd (forward_udp_poll expired f)"
| "fu_step expired (FuTake k) f =
     (case fu_conn f k of
        Some c \<Rightarrow>
          if uc_open c then
            (case (uc_queue c, back_poll_send_to UDP_BUFFER_SIZE False (uc_queue c)) of
               (item # _, (Ready (Inr _), q)) \<Rightarrow>
                 f\<lparr>fu_conn := (fu_conn f)(k \<mapsto> c\<lparr>uc_queue := q\<rparr>),
                   fu_taken := (fu_taken f)(k := fu_taken f k @ [item])\<rparr>
             | _ \<Rightarrow> f)
          else f
      | None \<Rightarrow> f)"
| "fu_step expired (FuGive k bs target) f =
     (case fu_conn f k of
        Some c \<Rightarrow>
          if uc_open c then
            (case back_poll_recv_from (fu_channel_size f) k bs target (fu_back f) of
               (Ready _, chan) \<Rightarrow>
                 f\<lparr>fu_back := chan, fu_accepted := fu_accepted f @ [udp_packet_new bs target k]\<rparr>
             | (Pending, _) \<Rightarrow> f)
          else f
      | None \<Rightarrow> f)"
| "fu_step expired (FuEnd k) f =
     (case fu_conn f k of
        Some c \<Rightarrow> f\<lparr>fu_conn := (fu_conn f)(k \<mapsto> c\<lparr>uc_open := False, uc_queue := []\<rparr>)\<rparr>
      | None \<Rightarrow> f)"

section \<open>Invariant\<close>

definition of_sender :: "socket_addr \<Rightarrow> (u8 list \<times> udp_endpoint) list \<Rightarrow> conn_item list" where
  "of_sender k xs = [(d, ep_to e). (d, e) \<leftarrow> xs, ep_from e = k]"

lemma of_sender_simps [simp]:
  "of_sender k [] = []"
  "of_sender k (xs @ ys) = of_sender k xs @ of_sender k ys"
  "of_sender k ((d, e) # xs) = (if ep_from e = k then (d, ep_to e) # of_sender k xs else of_sender k xs)"
  by (simp_all add: of_sender_def)

definition queued :: "(socket_addr \<Rightarrow> udp_connection option) \<Rightarrow> socket_addr \<Rightarrow> conn_item list" where
  "queued m k = (case m k of Some c \<Rightarrow> uc_queue c | None \<Rightarrow> [])"

text \<open>What was taken from a connection and waits there is, in order, part of what its sender sent;
  no channel is overfull.\<close>

definition fwd_ok ::
  "nat \<Rightarrow> (socket_addr \<Rightarrow> conn_item list) \<Rightarrow> (socket_addr \<Rightarrow> udp_connection option) \<Rightarrow>
   (u8 list \<times> udp_endpoint) list \<Rightarrow> bool" where
  "fwd_ok n taken m rs \<longleftrightarrow>
     (\<forall>k. subseq (taken k @ queued m k) (of_sender k rs) \<and> length (queued m k) \<le> n)"

text \<open>What the tasks gave back was sent, is about to be sent, or waits, in order and once.\<close>

definition back_ok :: "forward_udp \<Rightarrow> bool" where
  "back_ok f \<longleftrightarrow>
     raw_sent (fu_s f) @ (case fu_send_buf f of Some p \<Rightarrow> [p] | None \<Rightarrow> []) @ fu_back f = fu_accepted f \<and>
     length (fu_back f) \<le> fu_channel_size f"

definition fu_inv :: "forward_udp \<Rightarrow> bool" where
  "fu_inv f \<longleftrightarrow>
     fwd_ok (fu_channel_size f) (fu_taken f) (fu_conn f) (raw_received (fu_s f)) \<and> back_ok f"

lemma subseq_drop_tail: "subseq (xs @ ys) zs \<Longrightarrow> subseq xs zs"
  by (meson prefixI prefix_imp_subseq subseq_order.order_trans)

lemma fwd_ok_expire:
  "fwd_ok n taken m rs \<Longrightarrow> fwd_ok n taken (\<lambda>k. if P k then None else m k) rs"
  by (auto simp: fwd_ok_def queued_def intro: subseq_drop_tail)

lemma fwd_ok_new:
  "fwd_ok n taken m rs \<Longrightarrow> m k = None \<Longrightarrow> fwd_ok n taken (m(k \<mapsto> udp_connection_new)) rs"
  by (auto simp: fwd_ok_def queued_def udp_connection_new_def intro: subseq_drop_tail)

lemma fwd_ok_send:
  assumes "fwd_ok n taken m rs" "m (ep_from e) = Some c"
  shows "fwd_ok n taken (m(ep_from e \<mapsto> snd (uc_send n (d, ep_to e) c))) (rs @ [(d, e)])"
  unfolding fwd_ok_def
proof (intro allI conjI)
  fix k
  let ?m = "m(ep_from e \<mapsto> snd (uc_send n (d, ep_to e) c))"
  have s: "subseq (taken k @ queued m k) (of_sender k rs)" "length (queued m k) \<le> n"
    using assms(1) by (auto simp: fwd_ok_def)
  have w: "subseq (taken k @ queued m k) (of_sender k (rs @ [(d, e)]))"
    using s(1) by (auto intro: subseq_rev_drop_many)
  have x: "subseq ((taken k @ queued m k) @ [y]) (of_sender k rs @ [y])" for y
    using s(1) by (simp only: subseq_append)
  show "subseq (taken k @ queued ?m k) (of_sender k (rs @ [(d, e)]))"
    using w x [of "(d, ep_to e)"] assms(2) by (auto simp: queued_def uc_send_def)
  show "length (queued ?m k) \<le> n"
    using s(2) assms(2) by (auto simp: queued_def uc_send_def)
qed

text \<open>Dispatching a datagram that was just received.\<close>

lemma fu_dispatch_fields:
  "fu_channel_size (fu_dispatch x i f) = fu_channel_size f \<and> fu_taken (fu_dispatch x i f) = fu_taken f \<and>
   fu_back (fu_dispatch x i f) = fu_back f \<and> fu_send_buf (fu_dispatch x i f) = fu_send_buf f \<and>
   fu_accepted (fu_dispatch x i f) = fu_accepted f"
  by (auto simp: fu_dispatch_def fu_get_def fu_expire_def Let_def split: prod.splits option.splits)

lemma fu_dispatch_ok:
  assumes "fwd_ok (fu_channel_size f) (fu_taken f) (fu_conn f) rs"
  shows "fwd_ok (fu_channel_size f) (fu_taken f) (fu_conn (fu_dispatch x (d, e) f)) (rs @ [(d, e)])"
proof -
  let ?m = "\<lambda>k. if x (fu_accesses f) k then None else fu_conn f k"
  have m: "fwd_ok (fu_channel_size f) (fu_taken f) ?m rs" using assms by (rule fwd_ok_expire)
  show ?thesis
  proof (cases "?m (ep_from e)")
    case None
    from fwd_ok_send [OF fwd_ok_new [OF m None], of e udp_connection_new d] None show ?thesis
      by (simp add: fu_dispatch_def fu_get_def fu_expire_def Let_def)
  next
    case (Some c)
    from fwd_ok_send [OF m Some, of d] Some show ?thesis
      by (simp add: fu_dispatch_def fu_get_def fu_expire_def Let_def del: if_split split: if_splits)
  qed
qed

lemma poll_recv_packet_inv: "fu_inv f \<Longrightarrow> fu_inv (snd (poll_recv_packet x f))"
proof (induction x f rule: poll_recv_packet.induct)
  case (1 x f)
  show ?case
  proof (cases "raw_recv (fu_s f)")
    case Nil
    then show ?thesis using "1.prems" by (simp add: poll_recv_packet.simps)
  next
    case (Cons a as)
    show ?thesis
    proof (cases a)
      case (AOk i)
      obtain d e where i: "i = (d, e)" by (cases i)
      let ?d = "take UDP_BUFFER_SIZE d"
      let ?s = "(fu_s f)\<lparr>raw_recv := as, raw_received := raw_received (fu_s f) @ [(?d, e)]\<rparr>"
      let ?f = "fu_dispatch x (?d, e) (f\<lparr>fu_s := ?s\<rparr>)"
      have r: "raw_poll_recv UDP_BUFFER_SIZE (fu_s f) = (Ready (Inr (?d, e)), ?s)"
        using Cons AOk i by (simp add: raw_poll_recv_def)
      have "fu_inv ?f"
        using "1.prems" fu_dispatch_ok [of "f\<lparr>fu_s := ?s\<rparr>" "raw_received (fu_s f)" x ?d e]
        by (simp add: fu_inv_def back_ok_def fu_dispatch_fields)
      with "1.IH" [OF Cons r [symmetric]] show ?thesis
        using Cons r by (simp add: poll_recv_packet.simps [of x f])
    qed (use "1.prems" Cons in \<open>simp_all add: poll_recv_packet.simps [of x f] raw_poll_recv_def
        fu_inv_def back_ok_def\<close>)
  qed
qed

lemma poll_send_back_inv: "fu_inv f \<Longrightarrow> fu_inv (snd (poll_send_back f))"
proof (induction f rule: poll_send_back.induct)
  case (1 f)
  show ?case
  proof (cases "fu_send_buf f")
    case None
    show ?thesis
    proof (cases "fu_back f")
      case (Cons p ps)
      with 1 None show ?thesis
        by (simp add: poll_send_back.simps [of f] fu_inv_def back_ok_def)
    qed (use 1 None in \<open>simp add: poll_send_back.simps [of f]\<close>)
  next
    case (Some p)
    obtain r s where r: "raw_poll_send p (fu_s f) = (r, s)" by fastforce
    then have s: "raw_received s = raw_received (fu_s f)"
      "raw_sent s = raw_sent (fu_s f) @ (if r = Ready (Inr ()) then [p] else [])"
      by (auto simp: raw_poll_send_def split: list.splits answer.splits)
    consider "r = Pending" | e where "r = Ready (Inl e)" | "r = Ready (Inr ())"
      by (cases r) (metis sum.exhaust unit.exhaust)+
    then show ?thesis
      by cases (use 1 Some r s in \<open>simp_all add: poll_send_back.simps [of f] fu_inv_def back_ok_def\<close>)
  qed
qed

lemma fu_step_inv:
  assumes "fu_inv f"
  shows "fu_inv (fu_step x ev f)"
proof (cases ev)
  case FuPoll
  obtain o1 f1 where 1: "poll_recv_packet x f = (o1, f1)" by fastforce
  obtain o2 f2 where 2: "poll_send_back f1 = (o2, f2)" by fastforce
  from assms 1 have "fu_inv f1" using poll_recv_packet_inv [of f x] by simp
  moreover from this 2 have "fu_inv f2" using poll_send_back_inv [of f1] by simp
  moreover from this have "fu_inv (fu_expire x f2)"
    by (auto simp: fu_inv_def fu_expire_def back_ok_def intro: fwd_ok_expire)
  ultimately show ?thesis using FuPoll 1 2
    by (cases o1; cases o2) (simp_all add: forward_udp_poll_def)
next
  case (FuTake k)
  show ?thesis
  proof (cases "fu_conn f k")
    case (Some c)
    show ?thesis
    proof (cases "uc_queue c")
      case (Cons i q)
      have "fwd_ok (fu_channel_size f) ((fu_taken f)(k := fu_taken f k @ [i]))
          ((fu_conn f)(k \<mapsto> c\<lparr>uc_queue := q\<rparr>)) (raw_received (fu_s f))"
        using assms Some Cons by (auto simp: fu_inv_def fwd_ok_def queued_def)
          (metis option.simps(5) Cons append_Cons append_Nil append_assoc length_Cons Suc_leD)+
      with assms FuTake Some Cons show ?thesis
        by (cases i) (auto simp: back_poll_send_to_def fu_inv_def back_ok_def)
    qed (use assms FuTake Some in simp)
  qed (use assms FuTake in simp)
next
  case (FuGive k bs t)
  with assms show ?thesis
    by (auto simp: back_poll_recv_from_def fu_inv_def back_ok_def split: option.splits)
next
  case (FuEnd k)
  have "fwd_ok n taken m rs \<Longrightarrow> m k = Some c \<Longrightarrow> fwd_ok n taken (m(k \<mapsto> c\<lparr>uc_open := False, uc_queue := []\<rparr>)) rs"
    for n taken m rs c by (auto simp: fwd_ok_def queued_def intro: subseq_drop_tail)
  with assms FuEnd show ?thesis
    by (auto simp: fu_inv_def back_ok_def split: option.splits)
qed

lemma fu_run_inv: "fu_inv f \<Longrightarrow> fu_inv (fold (fu_step x) evs f)"
  by (induction evs arbitrary: f) (simp_all add: fu_step_inv)

lemma poll_recv_packet_channel_size:
  "fu_channel_size (snd (poll_recv_packet x f)) = fu_channel_size f"
proof (induction x f rule: poll_recv_packet.induct)
  case (1 x f)
  then show ?case
    by (subst poll_recv_packet.simps)
       (auto simp: fu_dispatch_fields split: list.splits prod.splits poll.splits sum.splits)
qed

lemma poll_send_back_channel_size: "fu_channel_size (snd (poll_send_back f)) = fu_channel_size f"
proof (induction f rule: poll_send_back.induct)
  case (1 f)
  then show ?case
    by (subst poll_send_back.simps)
       (auto split: option.splits list.splits prod.splits poll.splits sum.splits)
qed

lemma fu_step_channel_size: "fu_channel_size (fu_step x ev f) = fu_channel_size f"
  using poll_recv_packet_channel_size [of x f] poll_send_back_channel_size [of "snd (poll_recv_packet x f)"]
  by (cases ev) (auto simp: forward_udp_poll_def fu_expire_def back_poll_send_to_def
      back_poll_recv_from_def split: option.splits prod.splits list.splits)

lemma fu_run_channel_size: "fu_channel_size (fold (fu_step x) evs f) = fu_channel_size f"
  by (induction evs arbitrary: f) (simp_all add: fu_step_channel_size)

lemma fu_inv_new: "raw_received s = [] \<Longrightarrow> raw_sent s = [] \<Longrightarrow> fu_inv (forward_udp_new s n)"
  by (simp add: forward_udp_new_def fu_inv_def fwd_ok_def back_ok_def queued_def)

text \<open>A connection whose task ended stays in the cache, and its sender's datagrams are dropped
  until the entry expires.\<close>

lemma ended_connection_drops:
  assumes "fu_conn f (ep_from e) = Some c" "\<not> uc_open c" "\<not> x (fu_accesses f) (ep_from e)"
  shows "fu_conn (fu_dispatch x (d, e) f) (ep_from e) = Some c"
  using assms by (simp add: fu_dispatch_def fu_get_def fu_expire_def uc_send_def Let_def)

section \<open>Properties\<close>

text \<open>C19: Forwarding mixes nothing up. After any interleaving of polls of the future and steps of the
  tasks, whatever connections expired in between: the packets a connection's task has taken
  are, in order, packets of that connection's sender, each with its own target (some may be
  missing, none is repeated, changed or from elsewhere); the packets sent back through the
  source are the first of those the tasks gave back, in order, none lost or repeated; and no
  channel ever holds more than its capacity.\<close>

theorem forward_udp_in_order:
  assumes "raw_received s = []" "raw_sent s = []"
    and "f = fold (fu_step expired) evs (forward_udp_new s (Some n))"
  shows "(\<forall>k. subseq (fu_taken f k) (of_sender k (raw_received (fu_s f)))) \<and>
    prefix (raw_sent (fu_s f)) (fu_accepted f) \<and>
    length (fu_back f) \<le> n \<and> (\<forall>k c. fu_conn f k = Some c \<longrightarrow> length (uc_queue c) \<le> n)"
proof -
  have "fu_inv f" using assms fu_run_inv fu_inv_new by blast
  then have i: "fwd_ok (fu_channel_size f) (fu_taken f) (fu_conn f) (raw_received (fu_s f))" "back_ok f"
    by (auto simp: fu_inv_def)
  have n: "fu_channel_size f = n"
    using assms(3) fu_run_channel_size [of expired evs] by (simp add: forward_udp_new_def)
  have "subseq (fu_taken f k) (of_sender k (raw_received (fu_s f)))" for k
    using i(1) unfolding fwd_ok_def by (blast intro: subseq_drop_tail)
  moreover have "length (uc_queue c) \<le> n" if "fu_conn f k = Some c" for k c
    using i(1) that n unfolding fwd_ok_def queued_def by (metis option.simps(5))
  moreover have "prefix (raw_sent (fu_s f)) (fu_accepted f)"
    using i(2) unfolding back_ok_def by (metis prefixI)
  ultimately show ?thesis using i(2) n unfolding back_ok_def by auto
qed

section \<open>Witness\<close>

text \<open>Two senders; the first one's packet is answered.\<close>

definition demo_addr :: "u16 \<Rightarrow> socket_addr" where
  "demo_addr p = SV4 (Ipv4 10 0 0 1) p"

definition demo_source :: raw_source where
  "demo_source =
     \<lparr>raw_recv = [AOk ([1], \<lparr>ep_from = demo_addr 1, ep_to = demo_addr 9\<rparr>), APending,
        AOk ([2], \<lparr>ep_from = demo_addr 2, ep_to = demo_addr 9\<rparr>)],
      raw_send = [AOk ()], raw_received = [], raw_sent = []\<rparr>"

definition demo_events :: "fu_event list" where
  "demo_events = [FuPoll, FuTake (demo_addr 1), FuGive (demo_addr 1) [3] (demo_addr 9), FuPoll]"

definition demo_run :: forward_udp where
  "demo_run = fold (fu_step (\<lambda>_ _. False)) demo_events (forward_udp_new demo_source (Some 4))"

theorem forward_udp_in_order_witness:
  "fu_taken demo_run (demo_addr 1) = [([1], demo_addr 9)] \<and>
   raw_sent (fu_s demo_run) = [udp_packet_new [3] (demo_addr 9) (demo_addr 1)] \<and>
   prefix (raw_sent (fu_s demo_run)) (fu_accepted demo_run)"
proof -
  have b: "(UDP_BUFFER_SIZE :: nat) = Suc (Suc 2046)" by (simp add: UDP_BUFFER_SIZE_def)
  have "fu_taken demo_run (demo_addr 1) = [([1], demo_addr 9)] \<and>
     raw_sent (fu_s demo_run) = [udp_packet_new [3] (demo_addr 9) (demo_addr 1)]"
    by (simp add: demo_run_def demo_events_def forward_udp_new_def demo_source_def forward_udp_poll_def
        poll_recv_packet.simps poll_send_back.simps raw_poll_recv_def raw_poll_send_def b
        fu_dispatch_def fu_get_def fu_expire_def udp_connection_new_def uc_send_def demo_addr_def
        back_poll_send_to_def back_poll_recv_from_def Let_def)
  moreover have "raw_received demo_source = []" "raw_sent demo_source = []" by (simp_all add: demo_source_def)
  ultimately show ?thesis
    using forward_udp_in_order [of demo_source demo_run "\<lambda>_ _. False" demo_events 4]
    by (simp add: demo_run_def)
qed

end
