(* ===== verification/RD_TProxy.thy ===== *)
theory RD_TProxy
  imports RD_ForwardUdp RD_Rule RD_Servers
begin

text \<open>
  Transparent sockets, \<^verbatim>\<open>rd-std/src/transparent/socket.rs\<close> and \<^verbatim>\<open>origin_addr.rs\<close>, and the UDP source of
  the TPROXY server, \<open>UdpSource\<close> of \<^verbatim>\<open>rd-std/src/transparent/tproxy.rs\<close>.

  System calls are answers: an option that is set, a bind, a message that is received. A
  control message is whether it holds the original destination for IPv4 or IPv6, with the socket
  address its bytes stand for (\<open>None\<close> when they stand for none). As in \<^verbatim>\<open>RD_ForwardUdp\<close> the cache of
  sockets is a map of which any entries may have expired or been evicted at each access.
\<close>

section \<open>Sockets\<close>

datatype tsock_op =
    TSocket bool
  | TTransparent bool
  | TRecvOrigDst bool
  | TNonblocking
  | TReuseAddr
  | TReusePort
  | TMark u32
  | TBind socket_addr
  | TListen nat
  | TAsyncFd

text \<open>The calls made for a socket, in order; the first failure ends them. The flag tells IPv4
  from IPv6.\<close>

definition tcp_listener_ops :: "socket_addr \<Rightarrow> tsock_op list" where
  "tcp_listener_ops addr =
     [TSocket (is_ipv4 addr), TTransparent (is_ipv4 addr), TReuseAddr, TBind addr, TListen 128]"

definition set_socket_before_bind :: "socket_addr \<Rightarrow> tsock_op list" where
  "set_socket_before_bind addr = [TTransparent (is_ipv4 addr), TRecvOrigDst (is_ipv4 addr)]"

definition udp_socket_ops :: "socket_addr \<Rightarrow> bool \<Rightarrow> u32 option \<Rightarrow> tsock_op list" where
  "udp_socket_ops addr reuse_port mark =
     TSocket (is_ipv4 addr) # set_socket_before_bind addr @ [TNonblocking, TReuseAddr] @
     (if reuse_port then [TReusePort] else []) @
     (case mark of Some m \<Rightarrow> [TMark m] | None \<Rightarrow> []) @ [TBind addr, TAsyncFd]"

fun try_all :: "('o \<Rightarrow> io_error + unit) \<Rightarrow> 'o list \<Rightarrow> io_error + unit" where
  "try_all sys [] = Inr ()"
| "try_all sys (p # ps) = and_then (sys p) (\<lambda>_. try_all sys ps)"

definition create_tcp_listener :: "(tsock_op \<Rightarrow> io_error + unit) \<Rightarrow> socket_addr \<Rightarrow> io_error + unit" where
  "create_tcp_listener sys addr = try_all sys (tcp_listener_ops addr)"

definition create_udp_socket ::
  "(tsock_op \<Rightarrow> io_error + unit) \<Rightarrow> socket_addr \<Rightarrow> bool \<Rightarrow> u32 option \<Rightarrow> io_error + unit" where
  "create_udp_socket sys addr reuse_port mark = try_all sys (udp_socket_ops addr reuse_port mark)"

definition tudp_listen :: "(tsock_op \<Rightarrow> io_error + unit) \<Rightarrow> socket_addr \<Rightarrow> io_error + unit" where
  "tudp_listen sys addr = create_udp_socket sys addr False None"

definition tudp_bind_any :: "(tsock_op \<Rightarrow> io_error + unit) \<Rightarrow> socket_addr \<Rightarrow> u32 option \<Rightarrow> io_error + unit" where
  "tudp_bind_any sys addr mark = create_udp_socket sys addr True mark"

section \<open>Receiving\<close>

datatype cmsg =
    CmsgOrigDst4 "socket_addr option"
  | CmsgOrigDst6 "socket_addr option"
  | CmsgOther

definition missing_destination :: io_error where
  "missing_destination = IoCustom InvalidData ''missing destination address in msghdr''"

fun get_destination_addr :: "cmsg list \<Rightarrow> (io_error + socket_addr) outcome" where
  "get_destination_addr [] = Ret (Inl missing_destination)"
| "get_destination_addr (CmsgOrigDst4 a # ms) = (case a of Some s \<Rightarrow> Ret (Inr s) | None \<Rightarrow> Panic)"
| "get_destination_addr (CmsgOrigDst6 a # ms) = (case a of Some s \<Rightarrow> Ret (Inr s) | None \<Rightarrow> Panic)"
| "get_destination_addr (CmsgOther # ms) = get_destination_addr ms"

text \<open>\<open>recv_dest_from\<close>: a message is its bytes, cut to the buffer, the sender and the control
  messages.\<close>

type_synonym raw_msg = "u8 list \<times> socket_addr option \<times> cmsg list"

definition recv_dest_from :: "nat \<Rightarrow> io_error + raw_msg \<Rightarrow> (io_error + u8 list \<times> socket_addr \<times> socket_addr) outcome" where
  "recv_dest_from room msg =
     (case msg of
        Inl e \<Rightarrow> Ret (Inl e)
      | Inr (bs, src, ms) \<Rightarrow>
          (case src of
             None \<Rightarrow> Panic
           | Some from_addr \<Rightarrow>
               (case get_destination_addr ms of
                  Panic \<Rightarrow> Panic
                | Ret (Inl e) \<Rightarrow> Ret (Inl e)
                | Ret (Inr to_addr) \<Rightarrow> Ret (Inr (take room bs, from_addr, to_addr)))))"

text \<open>The loops of \<open>poll_recv\<close> and \<open>poll_send_to\<close>: the answers of the descriptor are that it is not
  ready, that waiting for it failed, that it was ready and the call would block after all (then
  the loop goes on), or the result of the call.\<close>

datatype 'r fd_answer = FdPending | FdErr io_error | FdWouldBlock | FdResult 'r

fun tudp_poll :: "(io_error \<Rightarrow> 'r) \<Rightarrow> 'r fd_answer list \<Rightarrow> 'r poll \<times> 'r fd_answer list" where
  "tudp_poll fail [] = (Pending, [])"
| "tudp_poll fail (FdPending # as) = (Pending, as)"
| "tudp_poll fail (FdErr e # as) = (Ready (fail e), as)"
| "tudp_poll fail (FdWouldBlock # as) = tudp_poll fail as"
| "tudp_poll fail (FdResult r # as) = (Ready r, as)"

section \<open>The original destination\<close>

text \<open>\<open>origin_addr\<close>: the option of IPv4, or when that fails the option of IPv6.\<close>

definition origin_addr ::
  "(bool \<Rightarrow> io_error + socket_addr option) \<Rightarrow> (io_error + socket_addr) outcome" where
  "origin_addr getsockopt =
     (case (case getsockopt True of Inr a \<Rightarrow> Inr a | Inl _ \<Rightarrow> getsockopt False) of
        Inl e \<Rightarrow> Ret (Inl e)
      | Inr (Some a) \<Rightarrow> Ret (Inr a)
      | Inr None \<Rightarrow> Panic)"

section \<open>UdpSource\<close>

text \<open>A cached socket is the address it was bound to and the answers of its descriptor to sends; the
  source records what was sent, from which socket. \<open>bind_any\<close> tells, from the number of sockets made before,
  whether a bind succeeds, and what its descriptor will answer.\<close>

record tsocket =
  ts_bound :: socket_addr
  ts_answers :: "(io_error + unit) fd_answer list"

record udp_source =
  us_listener :: "(io_error + raw_msg) fd_answer list"
  us_cache :: "socket_addr \<Rightarrow> tsocket option"
  us_accesses :: nat
  us_binds :: nat
  us_sent :: "(socket_addr \<times> u8 list \<times> socket_addr) list"

definition us_expire :: "expiry \<Rightarrow> udp_source \<Rightarrow> udp_source" where
  "us_expire expired u =
     u\<lparr>us_cache := (\<lambda>k. if expired (us_accesses u) k then None else us_cache u k),
       us_accesses := us_accesses u + 1\<rparr>"

definition us_poll_recv ::
  "expiry \<Rightarrow> nat \<Rightarrow> udp_source \<Rightarrow> (io_error + u8 list \<times> udp_endpoint) poll outcome \<times> udp_source" where
  "us_poll_recv expired room u0 =
     (let u = us_expire expired u0
      in case tudp_poll Inl (us_listener u) of
           (Pending, as) \<Rightarrow> (Ret Pending, u\<lparr>us_listener := as\<rparr>)
         | (Ready msg, as) \<Rightarrow>
             ((case recv_dest_from room msg of
                 Panic \<Rightarrow> Panic
               | Ret (Inl e) \<Rightarrow> Ret (Ready (Inl e))
               | Ret (Inr (bs, from_addr, to_addr)) \<Rightarrow>
                   Ret (Ready (Inr (bs, \<lparr>ep_from = from_addr, ep_to = to_addr\<rparr>)))),
              u\<lparr>us_listener := as\<rparr>))"

text \<open>Sending through a socket that is in the cache. A failed send is logged.\<close>

definition us_send_via ::
  "reserved_env \<Rightarrow> u8 list \<Rightarrow> udp_endpoint \<Rightarrow> tsocket \<Rightarrow> udp_source \<Rightarrow>
   (io_error + unit) poll \<times> udp_source" where
  "us_send_via R bs ep s u =
     (let from_addr = ep_from ep;
          done_with = (\<lambda>u. if is_reserved R (sa_ip from_addr) then u\<lparr>us_cache := (us_cache u)(from_addr := None)\<rparr> else u)
      in case tudp_poll Inl (ts_answers s) of
           (Pending, as) \<Rightarrow>
             (Pending, u\<lparr>us_cache := (us_cache u)(from_addr \<mapsto> s\<lparr>ts_answers := as\<rparr>)\<rparr>)
         | (Ready (Inl e), as) \<Rightarrow>
             (Ready (Inr ()), done_with (u\<lparr>us_cache := (us_cache u)(from_addr \<mapsto> s\<lparr>ts_answers := as\<rparr>)\<rparr>))
         | (Ready (Inr _), as) \<Rightarrow>
             (Ready (Inr ()),
              done_with (u\<lparr>us_cache := (us_cache u)(from_addr \<mapsto> s\<lparr>ts_answers := as\<rparr>),
                           us_sent := us_sent u @ [(ts_bound s, bs, ep_to ep)]\<rparr>)))"

definition us_poll_send ::
  "reserved_env \<Rightarrow> expiry \<Rightarrow> (nat \<Rightarrow> socket_addr \<Rightarrow> io_error + (io_error + unit) fd_answer list) \<Rightarrow> u8 list \<Rightarrow>
   udp_endpoint \<Rightarrow> udp_source \<Rightarrow> (io_error + unit) poll \<times> udp_source" where
  "us_poll_send R expired bind_any bs ep u0 =
     (let u = us_expire expired u0
      in case us_cache u (ep_from ep) of
           Some s \<Rightarrow> us_send_via R bs ep s u
         | None \<Rightarrow>
             (case bind_any (us_binds u) (ep_from ep) of
                Inl e \<Rightarrow> (Ready (Inr ()), u\<lparr>us_binds := us_binds u + 1\<rparr>)
              | Inr as \<Rightarrow>
                  (let s = \<lparr>ts_bound = ep_from ep, ts_answers = as\<rparr>
                   in us_send_via R bs ep s
                        (u\<lparr>us_cache := (us_cache u)(ep_from ep \<mapsto> s), us_binds := us_binds u + 1\<rparr>))))"

section \<open>Sockets that are made\<close>

lemma try_all_ok: "try_all sys ps = Inr () \<longleftrightarrow> (\<forall>p\<in>set ps. sys p = Inr ())"
  by (induction ps) (auto simp: and_then_Inr_iff)

text \<open>A transparent socket is bound only with its options set: what \<open>bind\<close> follows in the list has
  been done when it is reached.\<close>

lemma udp_socket_options:
  "\<exists>ps. udp_socket_ops addr reuse_port mark = ps @ [TBind addr, TAsyncFd] \<and>
     {TTransparent (is_ipv4 addr), TRecvOrigDst (is_ipv4 addr), TNonblocking, TReuseAddr} \<subseteq> set ps \<and>
     (TReusePort \<in> set ps \<longleftrightarrow> reuse_port) \<and> (\<forall>m. TMark m \<in> set ps \<longleftrightarrow> mark = Some m)"
  by (intro exI [of _ "TSocket (is_ipv4 addr) # set_socket_before_bind addr @ [TNonblocking, TReuseAddr] @
        (if reuse_port then [TReusePort] else []) @ (case mark of Some m \<Rightarrow> [TMark m] | None \<Rightarrow> [])"])
     (auto simp: udp_socket_ops_def set_socket_before_bind_def split: option.splits)

lemma tudp_poll_would_block:
  "tudp_poll fail (replicate j FdWouldBlock @ as) = tudp_poll fail as"
  by (induction j) simp_all

lemma get_destination_first:
  "get_destination_addr (replicate j CmsgOther @ CmsgOrigDst4 (Some a) # ms) = Ret (Inr a)"
  "get_destination_addr (replicate j CmsgOther @ CmsgOrigDst6 (Some a) # ms) = Ret (Inr a)"
  "get_destination_addr (replicate j CmsgOther) = Ret (Inl missing_destination)"
  by (induction j) simp_all

section \<open>Replies\<close>

text \<open>Every cached socket is bound to the address it is cached under.\<close>

definition us_inv :: "udp_source \<Rightarrow> bool" where
  "us_inv u \<longleftrightarrow> (\<forall>k s. us_cache u k = Some s \<longrightarrow> ts_bound s = k)"

definition udp_source_new :: "(io_error + raw_msg) fd_answer list \<Rightarrow> udp_source" where
  "udp_source_new l = \<lparr>us_listener = l, us_cache = Map.empty, us_accesses = 0, us_binds = 0, us_sent = []\<rparr>"

lemma us_inv_expire: "us_inv u \<Longrightarrow> us_inv (us_expire expired u)"
  by (auto simp: us_inv_def us_expire_def split: if_splits)

text \<open>What sending through a cached socket comes to.\<close>

definition replied ::
  "reserved_env \<Rightarrow> u8 list \<Rightarrow> udp_endpoint \<Rightarrow> udp_source \<Rightarrow> (io_error + unit) poll \<times> udp_source \<Rightarrow> bool" where
  "replied R bs ep u res \<longleftrightarrow>
     us_inv (snd res) \<and>
     (case res of
        (Pending, u') \<Rightarrow> us_sent u' = us_sent u
      | (Ready (Inl e), u') \<Rightarrow> False
      | (Ready (Inr _), u') \<Rightarrow>
          us_sent u' \<in> {us_sent u, us_sent u @ [(ep_from ep, bs, ep_to ep)]} \<and>
          (is_reserved R (sa_ip (ep_from ep)) \<longrightarrow> us_cache u' (ep_from ep) = None))"

lemma us_expire_simps [simp]:
  "us_sent (us_expire expired u) = us_sent u" "us_binds (us_expire expired u) = us_binds u"
  by (simp_all add: us_expire_def)

lemma replied_cong: "us_sent u = us_sent v \<Longrightarrow> replied R bs ep u r = replied R bs ep v r"
  by (simp add: replied_def split: prod.splits poll.splits sum.splits)

lemma us_send_via_replied:
  assumes "us_inv u" "ts_bound s = ep_from ep"
  shows "replied R bs ep u (us_send_via R bs ep s u)"
proof -
  obtain r as where r: "tudp_poll Inl (ts_answers s) = (r, as)" by fastforce
  show ?thesis
  proof (cases r)
    case Pending
    with assms r show ?thesis by (auto simp: replied_def us_send_via_def us_inv_def)
  next
    case (Ready x)
    with assms r show ?thesis by (cases x) (auto simp: replied_def us_send_via_def us_inv_def Let_def split: if_splits)
  qed
qed

lemma us_poll_send_replied:
  assumes "us_inv u"
  shows "replied R bs ep u (us_poll_send R expired bind_any bs ep u)"
proof (cases "us_cache (us_expire expired u) (ep_from ep)")
  case (Some s)
  let ?v = "us_expire expired u"
  have "ts_bound s = ep_from ep" using us_inv_expire [OF assms, of expired] Some by (auto simp: us_inv_def)
  from us_send_via_replied [OF us_inv_expire [OF assms] this, of R bs] Some show ?thesis
    by (simp add: us_poll_send_def replied_cong [of u ?v])
next
  case None
  let ?v = "us_expire expired u"
  show ?thesis
  proof (cases "bind_any (us_binds ?v) (ep_from ep)")
    case (Inl e)
    with None us_inv_expire [OF assms, of expired] show ?thesis
      by (simp add: us_poll_send_def replied_def us_inv_def)
  next
    case (Inr as)
    let ?s = "\<lparr>ts_bound = ep_from ep, ts_answers = as\<rparr>"
    let ?w = "?v\<lparr>us_cache := (us_cache ?v)(ep_from ep \<mapsto> ?s), us_binds := us_binds ?v + 1\<rparr>"
    have "us_inv ?w" using us_inv_expire [OF assms, of expired] by (auto simp: us_inv_def)
    from us_send_via_replied [OF this, of ?s ep R bs] None Inr show ?thesis
      by (simp add: us_poll_send_def replied_cong [of u ?w] Let_def)
  qed
qed

lemma us_poll_recv_inv: "us_inv u \<Longrightarrow> us_inv (snd (us_poll_recv expired room u))"
  using us_inv_expire [of u expired]
  by (auto simp: us_poll_recv_def us_inv_def Let_def split: poll.splits prod.splits)

datatype us_op = UsRecv nat | UsSend "u8 list" udp_endpoint

fun us_step ::
  "reserved_env \<Rightarrow> expiry \<Rightarrow> (nat \<Rightarrow> socket_addr \<Rightarrow> io_error + (io_error + unit) fd_answer list) \<Rightarrow> us_op \<Rightarrow>
   udp_source \<Rightarrow> udp_source" where
  "us_step R expired bind_any (UsRecv room) u = snd (us_poll_recv expired room u)"
| "us_step R expired bind_any (UsSend bs ep) u = snd (us_poll_send R expired bind_any bs ep u)"

lemma us_run_inv: "us_inv u \<Longrightarrow> us_inv (fold (us_step R expired bind_any) ps u)"
proof (induction ps arbitrary: u)
  case (Cons p ps)
  have "us_inv (us_step R expired bind_any p u)"
    using Cons.prems us_poll_recv_inv us_poll_send_replied by (cases p) (auto simp: replied_def)
  with Cons.IH show ?case by simp
qed simp

text \<open>C20: replies of the TPROXY server, after any sequence of receives and sends and whatever expires in
  between. Sending back never fails: it is pending, with nothing sent, or done. Done means that the
  datagram was sent once, to the client, from a socket bound to the address the client had sent to,
  or that it was dropped because no such socket could be bound or used; a socket
  for a reserved address is not kept. With no socket for the address and one that can be bound and
  accepts the datagram, it is sent.\<close>

theorem tproxy_reply:
  shows "let u = fold (us_step R expired bind_any) ps (udp_source_new l) in
    (case us_poll_send R expired bind_any bs ep u of
       (Pending, u') \<Rightarrow> us_sent u' = us_sent u
     | (Ready (Inl e), u') \<Rightarrow> False
     | (Ready (Inr _), u') \<Rightarrow>
         us_sent u' \<in> {us_sent u, us_sent u @ [(ep_from ep, bs, ep_to ep)]} \<and>
         (is_reserved R (sa_ip (ep_from ep)) \<longrightarrow> us_cache u' (ep_from ep) = None)) \<and>
    (\<forall>j as. us_cache (us_expire expired u) (ep_from ep) = None \<longrightarrow>
       bind_any (us_binds u) (ep_from ep) = Inr (replicate j FdWouldBlock @ FdResult (Inr ()) # as) \<longrightarrow>
       (\<exists>u'. us_poll_send R expired bind_any bs ep u = (Ready (Inr ()), u') \<and>
          us_sent u' = us_sent u @ [(ep_from ep, bs, ep_to ep)]))"
proof -
  define u where "u = fold (us_step R expired bind_any) ps (udp_source_new l)"
  have "us_inv (udp_source_new l)" by (simp add: us_inv_def udp_source_new_def)
  then have inv: "us_inv u" unfolding u_def by (rule us_run_inv)
  have fresh: "\<exists>u'. us_poll_send R expired bind_any bs ep u = (Ready (Inr ()), u') \<and>
      us_sent u' = us_sent u @ [(ep_from ep, bs, ep_to ep)]"
    if "us_cache (us_expire expired u) (ep_from ep) = None"
      "bind_any (us_binds u) (ep_from ep) = Inr (replicate j FdWouldBlock @ FdResult (Inr ()) # as)" for j as
    using that
    by (simp add: us_poll_send_def us_send_via_def Let_def tudp_poll_would_block)
  show ?thesis
    unfolding Let_def u_def [symmetric]
    using us_poll_send_replied [OF inv, of R bs ep expired bind_any] fresh
    by (auto simp: replied_def)
qed

section \<open>Witness\<close>

definition demo_reserved :: reserved_env where
  "demo_reserved = \<lparr>contains4 = (\<lambda>net n a. net = a), contains6 = (\<lambda>net n a. net = a), is_link_local = (\<lambda>_. False)\<rparr>"

theorem tproxy_reply_witness:
  "\<exists>u'. us_poll_send demo_reserved (\<lambda>_ _. False) (\<lambda>_ _. Inr [FdWouldBlock, FdResult (Inr ())]) [1, 2]
      \<lparr>ep_from = demo_v4, ep_to = demo_v6\<rparr> (udp_source_new []) = (Ready (Inr ()), u') \<and>
    us_sent u' = [(demo_v4, [1, 2], demo_v6)]"
proof -
  let ?bind = "\<lambda>_ _. Inr [FdWouldBlock, FdResult (Inr ())] :: io_error + (io_error + unit) fd_answer list"
  let ?ep = "\<lparr>ep_from = demo_v4, ep_to = demo_v6\<rparr>"
  have c: "us_cache (us_expire (\<lambda>_ _. False) (fold (us_step demo_reserved (\<lambda>_ _. False) ?bind) []
      (udp_source_new []))) (ep_from ?ep) = None"
    by (simp add: us_expire_def udp_source_new_def)
  have b: "?bind (us_binds (fold (us_step demo_reserved (\<lambda>_ _. False) ?bind) [] (udp_source_new [])))
      (ep_from ?ep) = Inr (replicate 1 FdWouldBlock @ FdResult (Inr ()) # [])"
    by simp
  have e: "us_sent (fold (us_step demo_reserved (\<lambda>_ _. False) ?bind) [] (udp_source_new [])) = []"
    by (simp add: udp_source_new_def)
  show ?thesis
    using tproxy_reply [where R = demo_reserved and expired = "\<lambda>_ _. False" and ps = "[]" and l = "[]" and
      bind_any = ?bind and bs = "[1, 2]" and ep = ?ep, unfolded Let_def, THEN conjunct2, rule_format, OF c b]
    unfolding e by simp
qed

end
