(* ===== verification/RD_AsyncFn.thy ===== *)
theory RD_AsyncFn
  imports RD_UdpConnector
begin

text \<open>
  Poll functions over futures: the adapter from \<open>async\<close> functions to streams,
  \<^verbatim>\<open>rd-std/src/util/async_fn.rs\<close>, and the resolving net with its UDP socket, \<^verbatim>\<open>rd-std/src/builtin/dns.rs\<close>.

  A future is the number of polls it is pending for and its result. What the \<open>async\<close> functions of
  the inner value answer may depend on how many calls were made before; the calls made are recorded.
\<close>

section \<open>PollAsyncFn\<close>

type_synonym 'r fut = "nat \<times> 'r"

text \<open>\<open>poll_next\<close>: the future under way, or a new one; whether one was made is the middle of the
  result.\<close>

definition poll_next :: "'r fut \<Rightarrow> 'r fut option \<Rightarrow> 'r poll \<times> bool \<times> 'r fut option" where
  "poll_next start fut =
     (case (case fut of Some f \<Rightarrow> f | None \<Rightarrow> start) of
        (Suc n, r) \<Rightarrow> (Pending, fut = None, Some (n, r))
      | (0, r) \<Rightarrow> (Ready r, fut = None, None))"

section \<open>AsyncFnIO\<close>

datatype fn_call = FnRead nat | FnWrite "u8 list" | FnFlush | FnShutdown

record async_fns =
  fn_read :: "nat \<Rightarrow> nat \<Rightarrow> (io_error + u8 list) fut"
  fn_write :: "nat \<Rightarrow> u8 list \<Rightarrow> (io_error + nat) fut"
  fn_flush :: "nat \<Rightarrow> (io_error + unit) fut"
  fn_shutdown :: "nat \<Rightarrow> (io_error + unit) fut"

record async_fn_io =
  io_calls :: "fn_call list"
  read_fut :: "(io_error + u8 list) fut option"
  write_fut :: "(io_error + nat) fut option"
  flush_fut :: "(io_error + unit) fut option"
  shutdown_fut :: "(io_error + unit) fut option"

definition async_fn_io_new :: async_fn_io where
  "async_fn_io_new =
     \<lparr>io_calls = [], read_fut = None, write_fut = None, flush_fut = None, shutdown_fut = None\<rparr>"

definition note_call :: "bool \<Rightarrow> fn_call \<Rightarrow> async_fn_io \<Rightarrow> async_fn_io" where
  "note_call made c io = (if made then io\<lparr>io_calls := io_calls io @ [c]\<rparr> else io)"

definition afn_read_step ::
  "async_fns \<Rightarrow> nat \<Rightarrow> async_fn_io \<Rightarrow> (io_error + u8 list) poll \<times> async_fn_io" where
  "afn_read_step F room io =
     (case poll_next (fn_read F (length (io_calls io)) room) (read_fut io) of (r, made, f) \<Rightarrow>
        (r, note_call made (FnRead room) (io\<lparr>read_fut := f\<rparr>)))"

text \<open>More bytes than there is room for are a panic of \<open>initialize_unfilled_to\<close>.\<close>

definition afn_poll_read ::
  "async_fns \<Rightarrow> nat \<Rightarrow> async_fn_io \<Rightarrow> (io_error + u8 list) poll outcome \<times> async_fn_io" where
  "afn_poll_read F room io =
     (case afn_read_step F room io of
        (Ready (Inr bs), io') \<Rightarrow> (if length bs \<le> room then Ret (Ready (Inr bs)) else Panic, io')
      | (r, io') \<Rightarrow> (Ret r, io'))"

definition afn_poll_write ::
  "async_fns \<Rightarrow> u8 list \<Rightarrow> async_fn_io \<Rightarrow> (io_error + nat) poll \<times> async_fn_io" where
  "afn_poll_write F bs io =
     (case poll_next (fn_write F (length (io_calls io)) bs) (write_fut io) of (r, made, f) \<Rightarrow>
        (r, note_call made (FnWrite bs) (io\<lparr>write_fut := f\<rparr>)))"

definition afn_poll_flush :: "async_fns \<Rightarrow> async_fn_io \<Rightarrow> (io_error + unit) poll \<times> async_fn_io" where
  "afn_poll_flush F io =
     (case poll_next (fn_flush F (length (io_calls io))) (flush_fut io) of (r, made, f) \<Rightarrow>
        (r, note_call made FnFlush (io\<lparr>flush_fut := f\<rparr>)))"

definition afn_poll_shutdown :: "async_fns \<Rightarrow> async_fn_io \<Rightarrow> (io_error + unit) poll \<times> async_fn_io" where
  "afn_poll_shutdown F io =
     (case poll_next (fn_shutdown F (length (io_calls io))) (shutdown_fut io) of (r, made, f) \<Rightarrow>
        (r, note_call made FnShutdown (io\<lparr>shutdown_fut := f\<rparr>)))"

text \<open>A caller that polls until it gets a result, at most \<open>n\<close> times.\<close>

fun poll_until :: "nat \<Rightarrow> ('s \<Rightarrow> 'r poll \<times> 's) \<Rightarrow> 's \<Rightarrow> 'r poll \<times> 's" where
  "poll_until 0 p s = (Pending, s)"
| "poll_until (Suc n) p s = (case p s of (Pending, s') \<Rightarrow> poll_until n p s' | r \<Rightarrow> r)"

section \<open>The resolving net\<close>

datatype dns_server = Google | Cloudflare | Custom "socket_addr list"

record ns_config =
  ns_socket_addr :: socket_addr
  ns_udp :: bool
  ns_trust_nx_responses :: bool

definition nameserver_config :: "socket_addr \<Rightarrow> ns_config" where
  "nameserver_config a = \<lparr>ns_socket_addr = a, ns_udp = True, ns_trust_nx_responses = False\<rparr>"

text \<open>The name servers \<open>build\<close> configures; those of Google and Cloudflare are the resolver crate's.\<close>

definition dns_nameservers ::
  "ns_config list \<Rightarrow> ns_config list \<Rightarrow> dns_server \<Rightarrow> ns_config list" where
  "dns_nameservers google cloudflare server =
     (case server of Google \<Rightarrow> google | Cloudflare \<Rightarrow> cloudflare | Custom as \<Rightarrow> map nameserver_config as)"

text \<open>\<open>lookup_host\<close>; \<open>lookup_ip\<close> is the resolver, whose errors become I/O errors.\<close>

definition dns_lookup_host ::
  "(string \<Rightarrow> 'w \<Rightarrow> (io_error + ip_addr list) \<times> 'w) \<Rightarrow> address \<Rightarrow> 'w \<Rightarrow> (error + socket_addr list) \<times> 'w" where
  "dns_lookup_host lookup_ip a w =
     (case resolve (\<lambda>host p v. case lookup_ip host v of
                      (Inl e, v') \<Rightarrow> (Inl e, v')
                    | (Inr ips, v') \<Rightarrow> (Inr (map (\<lambda>ip. socket_addr_new ip p) ips), v')) a w of
        (r, w') \<Rightarrow> (map_err IO r, w'))"

text \<open>\<open>RDUdpSocket\<close>: the socket the resolver sends through is bound when it is first used.\<close>

datatype dns_inner = Connecting "udp_sock bind_fut" | Connected udp_sock

definition dns_bind :: "(address \<Rightarrow> udp_sock bind_fut) \<Rightarrow> socket_addr \<Rightarrow> dns_inner" where
  "dns_bind udp_bind addr = Connecting (udp_bind (SocketAddr addr))"

definition poll_udp ::
  "(udp_sock \<Rightarrow> (io_error + 'r) poll \<times> udp_sock) \<Rightarrow> dns_inner \<Rightarrow> ((io_error + 'r) poll \<times> dns_inner) outcome" where
  "poll_udp f st =
     (case st of
        Connected s \<Rightarrow> (case f s of (r, s') \<Rightarrow> Ret (r, Connected s'))
      | Connecting fut \<Rightarrow>
          (case poll_fut fut of
             Panic \<Rightarrow> Panic
           | Ret (Pending, fut') \<Rightarrow> Ret (Pending, Connecting fut')
           | Ret (Ready (Inl e), fut') \<Rightarrow> Ret (Ready (Inl (to_io_err e)), Connecting fut')
           | Ret (Ready (Inr s), fut') \<Rightarrow> (case f s of (r, s') \<Rightarrow> Ret (r, Connected s'))))"

definition dns_poll_recv_from where
  "dns_poll_recv_from room = poll_udp (sock_poll_recv_from room)"

definition dns_poll_send_to where
  "dns_poll_send_to bs addr = poll_udp (sock_poll_send_to bs (SocketAddr addr))"

section \<open>Each operation is one call\<close>

text \<open>The contract of the four adapters: a slot for a future, what a new future is, and the record
  of the call.\<close>

locale poll_slot =
  fixes get_fut :: "'s \<Rightarrow> 'r fut option" and put_fut :: "'r fut option \<Rightarrow> 's \<Rightarrow> 's"
    and start :: "'s \<Rightarrow> 'r fut" and log_call :: "'s \<Rightarrow> 's" and step :: "'s \<Rightarrow> 'r poll \<times> 's"
  assumes get_put: "get_fut (put_fut f s) = f"
    and put_get: "put_fut (get_fut s) s = s"
    and put_put: "put_fut f (put_fut g s) = put_fut f s"
    and get_log: "get_fut (log_call s) = get_fut s"
    and put_log: "put_fut f (log_call s) = log_call (put_fut f s)"
    and step_eq: "step s = (case poll_next (start s) (get_fut s) of (r, made, f) \<Rightarrow>
        (r, if made then log_call (put_fut f s) else put_fut f s))"
begin

lemma under_way:
  "get_fut s = Some (k, r) \<Longrightarrow>
   poll_until n step s =
     (if n \<le> k then (Pending, put_fut (Some (k - n, r)) s) else (Ready r, put_fut None s))"
proof (induction n arbitrary: k s)
  case 0
  then have "put_fut (Some (k, r)) s = s" using put_get [of s] by simp
  then show ?case by simp
next
  case (Suc n)
  show ?case
  proof (cases k)
    case 0
    with Suc.prems show ?thesis by (simp add: step_eq poll_next_def)
  next
    case (Suc j)
    have "step s = (Pending, put_fut (Some (j, r)) s)"
      using Suc.prems Suc by (simp add: step_eq poll_next_def)
    with Suc.IH [of "put_fut (Some (j, r)) s" j] Suc show ?thesis by (simp add: get_put put_put)
  qed
qed

lemma one_call:
  assumes "get_fut s = None" "start s = (k, r)"
  shows "poll_until n step s =
    (if n = 0 then (Pending, s)
     else if n \<le> k then (Pending, log_call (put_fut (Some (k - n, r)) s)) else (Ready r, log_call s))"
proof (cases n)
  case (Suc m)
  show ?thesis
  proof (cases k)
    case 0
    have "put_fut None s = s" using put_get [of s] assms(1) by simp
    with assms Suc 0 show ?thesis by (simp add: step_eq poll_next_def)
  next
    case (Suc j)
    let ?s = "log_call (put_fut (Some (j, r)) s)"
    have st: "step s = (Pending, ?s)" using assms Suc by (simp add: step_eq poll_next_def)
    have "put_fut None s = s" using put_get [of s] assms(1) by simp
    with st Suc \<open>n = Suc m\<close> under_way [of ?s j r m] show ?thesis
      by (simp add: get_log get_put put_log put_put)
  qed
qed simp

end

interpretation read_slot: poll_slot read_fut "\<lambda>f io. io\<lparr>read_fut := f\<rparr>"
  "\<lambda>io. fn_read F (length (io_calls io)) room" "\<lambda>io. io\<lparr>io_calls := io_calls io @ [FnRead room]\<rparr>"
  "afn_read_step F room" for F room
  by unfold_locales (simp_all add: afn_read_step_def note_call_def split: prod.splits)

interpretation write_slot: poll_slot write_fut "\<lambda>f io. io\<lparr>write_fut := f\<rparr>"
  "\<lambda>io. fn_write F (length (io_calls io)) bs" "\<lambda>io. io\<lparr>io_calls := io_calls io @ [FnWrite bs]\<rparr>"
  "afn_poll_write F bs" for F bs
  by unfold_locales (simp_all add: afn_poll_write_def note_call_def split: prod.splits)

interpretation flush_slot: poll_slot flush_fut "\<lambda>f io. io\<lparr>flush_fut := f\<rparr>"
  "\<lambda>io. fn_flush F (length (io_calls io))" "\<lambda>io. io\<lparr>io_calls := io_calls io @ [FnFlush]\<rparr>"
  "afn_poll_flush F" for F
  by unfold_locales (simp_all add: afn_poll_flush_def note_call_def split: prod.splits)

interpretation shutdown_slot: poll_slot shutdown_fut "\<lambda>f io. io\<lparr>shutdown_fut := f\<rparr>"
  "\<lambda>io. fn_shutdown F (length (io_calls io))" "\<lambda>io. io\<lparr>io_calls := io_calls io @ [FnShutdown]\<rparr>"
  "afn_poll_shutdown F" for F
  by unfold_locales (simp_all add: afn_poll_shutdown_def note_call_def split: prod.splits)

text \<open>An operation that is polled, with the same arguments, until it returns makes exactly one call of the
  inner function, with those arguments, and returns its result; the adapter is idle again.\<close>

lemma async_fn_io_once:
  assumes "read_fut io = None" "write_fut io = None" "flush_fut io = None" "shutdown_fut io = None"
  shows "fn_read F (length (io_calls io)) room = (k, r) \<Longrightarrow> k < n \<Longrightarrow>
      poll_until n (afn_read_step F room) io = (Ready r, io\<lparr>io_calls := io_calls io @ [FnRead room]\<rparr>)"
    and "fn_write F (length (io_calls io)) bs = (k, q) \<Longrightarrow> k < n \<Longrightarrow>
      poll_until n (afn_poll_write F bs) io = (Ready q, io\<lparr>io_calls := io_calls io @ [FnWrite bs]\<rparr>)"
    and "fn_flush F (length (io_calls io)) = (k, u) \<Longrightarrow> k < n \<Longrightarrow>
      poll_until n (afn_poll_flush F) io = (Ready u, io\<lparr>io_calls := io_calls io @ [FnFlush]\<rparr>)"
    and "fn_shutdown F (length (io_calls io)) = (k, u) \<Longrightarrow> k < n \<Longrightarrow>
      poll_until n (afn_poll_shutdown F) io = (Ready u, io\<lparr>io_calls := io_calls io @ [FnShutdown]\<rparr>)"
  using read_slot.one_call [OF assms(1), of F room k r n] write_slot.one_call [OF assms(2), of F bs k q n]
    flush_slot.one_call [OF assms(3), of F k u n] shutdown_slot.one_call [OF assms(4), of F k u n]
  by simp_all

text \<open>A read never panics when the inner function keeps to the size it is given and the room does
  not shrink while it is under way; it does when the room shrinks.\<close>

definition read_fits :: "async_fns \<Rightarrow> nat \<Rightarrow> async_fn_io \<Rightarrow> bool" where
  "read_fits F room io \<longleftrightarrow>
     (\<forall>i size k bs. fn_read F i size = (k, Inr bs) \<longrightarrow> length bs \<le> size) \<and>
     (\<forall>k bs. read_fut io = Some (k, Inr bs) \<longrightarrow> length bs \<le> room)"

lemma afn_poll_read_no_panic:
  assumes "read_fits F room io" "afn_poll_read F room io = (r, io')"
  shows "r \<noteq> Panic \<and> read_fits F room io'"
proof -
  obtain q made f where q: "poll_next (fn_read F (length (io_calls io)) room) (read_fut io) = (q, made, f)"
    by (metis surj_pair)
  have src: "\<exists>k x. (case read_fut io of Some g \<Rightarrow> g | None \<Rightarrow> fn_read F (length (io_calls io)) room) = (k, x) \<and>
      (\<forall>bs. x = Inr bs \<longrightarrow> length bs \<le> room)"
    using assms(1) by (cases "read_fut io"; cases "fn_read F (length (io_calls io)) room")
      (fastforce simp: read_fits_def)+
  then have "(q = Pending \<or> q = Ready x) \<and> (\<forall>bs. x = Inr bs \<longrightarrow> length bs \<le> room) \<and> (f = None \<or> (\<exists>j. f = Some (j, x)))"
    if "x = snd (case read_fut io of Some g \<Rightarrow> g | None \<Rightarrow> fn_read F (length (io_calls io)) room)" for x
    using q that by (auto simp: poll_next_def split: nat.splits)
  then show ?thesis
    using assms q
    by (auto simp: afn_poll_read_def afn_read_step_def note_call_def read_fits_def
        split: poll.splits sum.splits if_splits)
qed

lemma afn_read_shrunk_panics:
  "let F = \<lparr>fn_read = (\<lambda>_ size. (1, Inr (replicate size 0))), fn_write = (\<lambda>_ bs. (0, Inr 0)),
        fn_flush = (\<lambda>_. (0, Inr ())), fn_shutdown = (\<lambda>_. (0, Inr ()))\<rparr>
   in fst (afn_poll_read F 2 (snd (afn_poll_read F 4 async_fn_io_new))) = Panic"
  by (simp add: afn_poll_read_def afn_read_step_def poll_next_def note_call_def async_fn_io_new_def)

section \<open>Looking up\<close>

lemma dns_lookup_literal: "normalize a = Inl s \<Longrightarrow> dns_lookup_host f a w = (Inr [s], w)"
  by (simp add: dns_lookup_host_def resolve_def)

lemma dns_lookup_ports:
  assumes "fst (dns_lookup_host f (Domain d p) w) = Inr ss" "s \<in> set ss"
  shows "sa_port s = p"
proof -
  have "sa_port (socket_addr_new ip p) = p" for ip
    by (cases ip) (simp_all add: socket_addr_new_def)
  with assms show ?thesis
    by (auto simp: dns_lookup_host_def resolve_def map_err_Inr_iff
        split: sum.splits prod.splits option.splits)
qed

text \<open>Nothing is sent before the socket is bound; from then on calls are the socket's.\<close>

lemma dns_send_when_bound:
  assumes "bf_done fut = False" "bf_script fut = replicate k Pending @ Ready (Inr s) # as"
  shows "poll_until (Suc k) (\<lambda>st. case dns_poll_send_to bs a st of Ret x \<Rightarrow> x) (Connecting fut) =
    (case sock_poll_send_to bs (SocketAddr a) s of (r, s') \<Rightarrow> (r, Connected s'))"
  using assms
proof (induction k arbitrary: fut)
  case 0
  then show ?case
    by (auto simp: dns_poll_send_to_def poll_udp_def poll_fut_def split: prod.splits poll.splits)
next
  case (Suc k)
  let ?f = "fut\<lparr>bf_script := replicate k Pending @ Ready (Inr s) # as\<rparr>"
  have "dns_poll_send_to bs a (Connecting fut) = Ret (Pending, Connecting ?f)"
    using Suc.prems by (simp add: dns_poll_send_to_def poll_udp_def poll_fut_def)
  with Suc.IH [of ?f] Suc.prems show ?case by (subst poll_until.simps(2)) (simp del: poll_until.simps)
qed

text \<open>A bind that failed is polled again by the next call, which panics.\<close>

lemma dns_failed_bind_panics:
  assumes "poll_udp f (Connecting fut) = Ret (Ready (Inl e), Connecting fut')" "bf_done fut = False"
  shows "poll_udp g (Connecting fut') = Panic"
proof (cases "bf_script fut")
  case Nil
  with assms show ?thesis by (simp add: poll_udp_def poll_fut_def)
next
  case (Cons x xs)
  then show ?thesis
    using assms
    by (cases x; cases "\<exists>e. x = Ready (Inl e)")
       (auto simp: poll_udp_def poll_fut_def split: prod.splits sum.splits)
qed

end
