(* ===== verification/RD_RuleNet.thy ===== *)
theory RD_RuleNet
  imports RD_Rule RD_Net
begin

text \<open>
  The rule engine of \<^verbatim>\<open>RD_Rule\<close> as one of the nets of \<^verbatim>\<open>RD_Net\<close>, \<open>RuleNet\<close> of
  \<^verbatim>\<open>rd-std/src/rule/rule_net.rs\<close>: a call of it is a call of the net of the first rule that matches
  (\<open>rule_call\<close>), and the context entries the match is made from.
\<close>

section \<open>The rule engine as a net\<close>

text \<open>\<open>RuleNet\<close> as a program over the calls of its target nets, which the rules name by index. A panic
  does not return (\<open>n\<close> is the number of targets); a UDP socket is not bound before its first
  packet, so binding only makes the lazy socket \<open>lazy_udp\<close>.\<close>

definition rule_prog ::
  "'cidr match_env \<Rightarrow> sa_codec \<Rightarrow> (match_context, nat, 'c) lru_ops \<Rightarrow>
   ('x \<Rightarrow> (nat, 'cidr, 'c) rule_net) \<Rightarrow> ((nat, 'cidr, 'c) rule_net \<Rightarrow> 'x \<Rightarrow> 'x) \<Rightarrow>
   (address \<Rightarrow> conn_context \<Rightarrow> 'h item) \<Rightarrow> nat \<Rightarrow> net_op \<Rightarrow> address \<Rightarrow> conn_context \<Rightarrow> 'x \<Rightarrow>
   ('h, 'x) prog" where
  "rule_prog env cd lru get_rn put_rn lazy_udp n op a ctx x =
     (if op = TcpConnect then
        (case get_rule env cd lru ctx a (get_rn x) of
           (Panic, r) \<Rightarrow> Call n op a ctx (put_rn r x) (\<lambda>(q, c, y). prog.Done q c y)
         | (Ret (Inl e), r) \<Rightarrow> prog.Done (Inl e) ctx (put_rn r x)
         | (Ret (Inr it), r) \<Rightarrow> Call (target it) op a ctx (put_rn r x) (\<lambda>(q, c, y). prog.Done q c y))
      else prog.Done (Inr (lazy_udp a ctx)) ctx x)"

definition rule_provides :: "net_op \<Rightarrow> bool" where
  "rule_provides op \<longleftrightarrow> op = TcpConnect \<or> op = UdpBind"

lemma rule_call:
  assumes "ext_provides E q = rule_provides"
    and "ext_prog E q = rule_prog env cd lru get_rn put_rn lazy_udp (length ns)"
    and "lru_laws lru content" "cache_ok env content (rules (get_rn (outer w))) (cache (get_rn (outer w)))"
    and "\<forall>it \<in> set (rules (get_rn (outer w))). target it < length ns"
  shows "\<exists>r. rules r = rules (get_rn (outer w)) \<and> cache_ok env content (rules r) (cache r) \<and>
    net_call (Suc k) E H (Ext q ns) TcpConnect a ctx w =
      (case and_then (from_context_address cd ctx a) (first_match env (rules (get_rn (outer w)))) of
         Inl e \<Rightarrow> Some (Inl e, ctx, w\<lparr>outer := put_rn r (outer w)\<rparr>)
       | Inr it \<Rightarrow> net_call k E H (ns ! target it) TcpConnect a ctx (w\<lparr>outer := put_rn r (outer w)\<rparr>))"
proof -
  let ?r0 = "get_rn (outer w)"
  obtain v r where g: "get_rule env cd lru ctx a ?r0 = (v, r)" by fastforce
  from get_rule_step [OF assms(3,4), of cd ctx a, unfolded g fst_conv snd_conv]
  have v: "v = Ret (and_then (from_context_address cd ctx a) (first_match env (rules ?r0)))"
    and r: "rules r = rules ?r0" "cache_ok env content (rules ?r0) (cache r)" by auto
  show ?thesis
  proof (cases "and_then (from_context_address cd ctx a) (first_match env (rules ?r0))")
    case (Inl e)
    with r v g assms(1,2) show ?thesis
      by (intro exI [of _ r]) (simp add: rule_provides_def rule_prog_def)
  next
    case (Inr it)
    then obtain mc where "first_match env (rules ?r0) mc = Inr it" by (auto simp: and_then_Inr_iff)
    then have "find (\<lambda>r. match_rule env (ri_matcher r) mc) (rules ?r0) = Some it"
      by (simp add: first_match_def split: option.splits)
    then have "it \<in> set (rules ?r0)" by (auto simp: find_Some_iff)
    with assms(5) have "target it < length ns" by blast
    then have "net_call (Suc k) E H (Ext q ns) TcpConnect a ctx w =
        (case net_call k E H (ns ! target it) TcpConnect a ctx (w\<lparr>outer := put_rn r (outer w)\<rparr>) of
           None \<Rightarrow> None | Some (q, c, v) \<Rightarrow> Some (q, c, v))"
      using Inr v g assms(1,2) by (auto simp: rule_provides_def rule_prog_def split: option.splits)
    then have "net_call (Suc k) E H (Ext q ns) TcpConnect a ctx w =
        net_call k E H (ns ! target it) TcpConnect a ctx (w\<lparr>outer := put_rn r (outer w)\<rparr>)"
      by (auto split: option.splits)
    with r Inr show ?thesis by (intro exI [of _ r]) (simp del: net_call.simps)
  qed
qed

lemma insert_dest_socket_addr:
  assumes "addr_ser E sa = Inr j" "addr_de E j = Inr sa"
  shows "\<exists>ctx'. insert_dest E (SocketAddr sa) ctx = (Inr (), ctx') \<and> net_list ctx' = net_list ctx \<and>
    get_common (dest_socket_addr_field (addr_ser E) (addr_de E)) ctx' = Inr (Some sa) \<and>
    (\<forall>key. key \<noteq> ''dest_socket_addr'' \<longrightarrow> data ctx' key = data ctx key)"
  using assms
  by (simp add: insert_dest_def insert_common_def ctx_insert_def get_common_def ctx_get_def
      dest_socket_addr_field_def)

lemma domain_context:
  assumes "from_context_address cd ctx (Domain d p) = Inr mc"
    and "get_common dest_domain_field ctx = Inr (Some \<lparr>ad_domain = d, ad_port = p\<rparr>)"
    and "get_common (dest_socket_addr_field (fst cd) (snd cd)) ctx = Inr (Some sa)"
  shows "get_domain mc = Some (d, p)" and "parse_ip (strip_brackets d) = None \<Longrightarrow> get_socket_addr mc = Some sa"
  using assms
  by (auto simp: from_context_address_def get_domain_def get_socket_addr_def to_normalized_def
      to_socket_addr_def and_then_Inr_iff map_err_Inr_iff split: option.splits)

end
