(* ===== verification/RD_Builders.thy ===== *)
theory RD_Builders
  imports RD_Build RD_Resolve RD_Sniffer RD_Http RD_TProxy RD_AsyncFn RD_RuleNet
begin

text \<open>
  The types \<^verbatim>\<open>rd-std\<close> registers: the \<open>Builder\<close> of every net and server, and the functions
  \<open>init\<close> that fill the registry (\<^verbatim>\<open>rd-std/src/lib.rs\<close>, \<^verbatim>\<open>builtin.rs\<close>, \<^verbatim>\<open>sniffer.rs\<close>, \<^verbatim>\<open>http.rs\<close>,
  \<^verbatim>\<open>mixed.rs\<close>, \<^verbatim>\<open>tls.rs\<close>, \<^verbatim>\<open>transparent.rs\<close>, \<^verbatim>\<open>rule.rs\<close>, \<^verbatim>\<open>socks5.rs\<close>), with \<open>load_builtin\<close> of
  \<^verbatim>\<open>src/builtin.rs\<close>.

  A configuration is a tree of \<^verbatim>\<open>RD_Config\<close> whose leaves are \<open>std_value\<close>s; reading it from JSON
  and writing it back are generated by the crate serde, a parameter (\<open>be_net_serde\<close>,
  \<open>be_server_serde\<close>). A struct is \<open>CStruct\<close> with its fields, an \<open>Option\<close> or a \<open>Vec\<close> is \<open>CSeq\<close>. A
  builder that finds another shape, or a reference without a value, panics: the first is ruled
  out by the types of the source (\<open>net_shapes\<close>, \<open>server_shapes\<close>), the second because a configuration is built after its
  references are resolved.

  A net that is built is one of the nets of \<^verbatim>\<open>RD_Net\<close>, \<open>std_part\<close> names those that are not among
  its constructors.
\<close>

section \<open>Values, nets and servers\<close>

datatype 'cidr std_value =
    VAddress address
  | VBool bool
  | VString string
  | VU32 u32
  | VU64 u64
  | VUsize nat
  | VF64 rat
  | VIp ip_addr
  | VJson json
  | VDnsServer dns_server
  | VMatcher "'cidr matcher"

datatype 'cidr std_part =
    PLocal local_config bool
  | PDns "ns_config list"
  | PResolve resolve_config
  | PSniffer
  | PRule nat "(nat, 'cidr) rule_item list"
  | PHttp address
  | PSocks5 address
  | PTls bool "string option"

type_synonym 'cidr std_net = "'cidr std_part net"
type_synonym 'cidr std_config = "('cidr std_value, 'cidr std_net) config"

datatype 'cidr std_server =
    EchoServer "'cidr std_net" address
  | ForwardServer "'cidr std_part forward_server"
  | HttpServer "'cidr std_net" "'cidr std_net" address
  | Socks5Server "'cidr std_net" "'cidr std_net" address
  | MixedServer "'cidr std_net" "'cidr std_net" address
  | RedirServer address "'cidr std_net"
  | TProxyServer address "u32 option" "'cidr std_net"

section \<open>Reading a configuration\<close>

definition and_ret :: "'a outcome \<Rightarrow> ('a \<Rightarrow> 'b outcome) \<Rightarrow> 'b outcome" where
  "and_ret x f = (case x of Panic \<Rightarrow> Panic | Ret a \<Rightarrow> f a)"

fun cfg_field :: "string \<Rightarrow> ('d, 'n) config \<Rightarrow> ('d, 'n) config outcome" where
  "cfg_field k (CStruct fs) = (case map_of fs k of None \<Rightarrow> Panic | Some c \<Rightarrow> Ret c)"
| "cfg_field k _ = Panic"

definition get_as :: "(('d, 'n) config \<Rightarrow> 'a outcome) \<Rightarrow> string \<Rightarrow> ('d, 'n) config \<Rightarrow> 'a outcome" where
  "get_as f k c = and_ret (cfg_field k c) f"

fun as_net :: "('d, 'n) config \<Rightarrow> 'n outcome" where
  "as_net (CRef r) = value_cloned r"
| "as_net _ = Panic"

fun as_list :: "(('d, 'n) config \<Rightarrow> 'a outcome) \<Rightarrow> ('d, 'n) config list \<Rightarrow> 'a list outcome" where
  "as_list f [] = Ret []"
| "as_list f (c # cs) = and_ret (f c) (\<lambda>x. and_ret (as_list f cs) (\<lambda>xs. Ret (x # xs)))"

fun as_vec :: "(('d, 'n) config \<Rightarrow> 'a outcome) \<Rightarrow> ('d, 'n) config \<Rightarrow> 'a list outcome" where
  "as_vec f (CSeq cs) = as_list f cs"
| "as_vec f _ = Panic"

fun as_opt :: "(('d, 'n) config \<Rightarrow> 'a outcome) \<Rightarrow> ('d, 'n) config \<Rightarrow> 'a option outcome" where
  "as_opt f (CSeq []) = Ret None"
| "as_opt f (CSeq [c]) = and_ret (f c) (\<lambda>x. Ret (Some x))"
| "as_opt f _ = Panic"

definition as_value :: "('d \<Rightarrow> 'a option) \<Rightarrow> ('d, 'n) config \<Rightarrow> 'a outcome" where
  "as_value f c =
     (case c of CEmpty v \<Rightarrow> (case f v of Some x \<Rightarrow> Ret x | None \<Rightarrow> Panic) | _ \<Rightarrow> Panic)"

fun v_address :: "'cidr std_value \<Rightarrow> address option" where
  "v_address (VAddress x) = Some x" | "v_address _ = None"
fun v_bool :: "'cidr std_value \<Rightarrow> bool option" where
  "v_bool (VBool x) = Some x" | "v_bool _ = None"
fun v_string :: "'cidr std_value \<Rightarrow> string option" where
  "v_string (VString x) = Some x" | "v_string _ = None"
fun v_u32 :: "'cidr std_value \<Rightarrow> u32 option" where
  "v_u32 (VU32 x) = Some x" | "v_u32 _ = None"
fun v_u64 :: "'cidr std_value \<Rightarrow> u64 option" where
  "v_u64 (VU64 x) = Some x" | "v_u64 _ = None"
fun v_usize :: "'cidr std_value \<Rightarrow> nat option" where
  "v_usize (VUsize x) = Some x" | "v_usize _ = None"
fun v_f64 :: "'cidr std_value \<Rightarrow> rat option" where
  "v_f64 (VF64 x) = Some x" | "v_f64 _ = None"
fun v_ip :: "'cidr std_value \<Rightarrow> ip_addr option" where
  "v_ip (VIp x) = Some x" | "v_ip _ = None"
fun v_dns :: "'cidr std_value \<Rightarrow> dns_server option" where
  "v_dns (VDnsServer x) = Some x" | "v_dns _ = None"
fun v_matcher :: "'cidr std_value \<Rightarrow> 'cidr matcher option" where
  "v_matcher (VMatcher x) = Some x" | "v_matcher _ = None"

section \<open>Builders of nets\<close>

type_synonym 'cidr net_builder = "'cidr std_config \<Rightarrow> (error + 'cidr std_net) outcome"
type_synonym 'cidr server_builder = "'cidr std_config \<Rightarrow> (error + 'cidr std_server) outcome"

definition alias_build :: "'cidr net_builder" where
  "alias_build c = and_ret (get_as as_net ''net'' c) (\<lambda>n. Ret (Inr (AliasNet n)))"

definition blackhole_build :: "'cidr net_builder" where
  "blackhole_build c = Ret (Inr BlackholeNet)"

definition noop_build :: "'cidr net_builder" where
  "noop_build c = Ret (Inr NotImplementedNet)"

definition combine_build :: "'cidr net_builder" where
  "combine_build c =
     and_ret (get_as as_net ''tcp_connect'' c) (\<lambda>tc.
     and_ret (get_as as_net ''tcp_bind'' c) (\<lambda>tb.
     and_ret (get_as as_net ''udp_bind'' c) (\<lambda>ub.
     and_ret (get_as as_net ''lookup_host'' c) (\<lambda>lh.
     Ret (Inr (CombineNet tc tb ub lh))))))"

text \<open>\<open>LocalNetConfig\<close> without the net that looks up hosts, which \<open>LocalNet::new\<close> takes out.\<close>

definition local_config_of :: "'cidr std_config \<Rightarrow> local_config outcome" where
  "local_config_of c =
     and_ret (get_as (as_opt (as_value v_u32)) ''ttl'' c) (\<lambda>ttl.
     and_ret (get_as (as_opt (as_value v_bool)) ''nodelay'' c) (\<lambda>nodelay.
     and_ret (get_as (as_opt (as_value v_u32)) ''mark'' c) (\<lambda>mark.
     and_ret (get_as (as_opt (as_value v_string)) ''bind_device'' c) (\<lambda>bind_device.
     and_ret (get_as (as_opt (as_value v_ip)) ''bind_addr'' c) (\<lambda>bind_addr.
     and_ret (get_as (as_opt (as_value v_u64)) ''connect_timeout'' c) (\<lambda>connect_timeout.
     and_ret (get_as (as_opt (as_value v_f64)) ''tcp_keepalive'' c) (\<lambda>tcp_keepalive.
     and_ret (get_as (as_opt (as_value v_usize)) ''recv_buffer_size'' c) (\<lambda>recv_buffer_size.
     and_ret (get_as (as_opt (as_value v_usize)) ''send_buffer_size'' c) (\<lambda>send_buffer_size.
     Ret \<lparr>lc_ttl = ttl, lc_nodelay = nodelay, lc_mark = mark, lc_bind_device = bind_device,
          lc_bind_addr = bind_addr, lc_connect_timeout = connect_timeout,
          lc_tcp_keepalive = tcp_keepalive, lc_recv_buffer_size = recv_buffer_size,
          lc_send_buffer_size = send_buffer_size\<rparr>)))))))))"

definition local_config_default :: local_config where
  "local_config_default =
     \<lparr>lc_ttl = None, lc_nodelay = None, lc_mark = None, lc_bind_device = None, lc_bind_addr = None,
      lc_connect_timeout = None, lc_tcp_keepalive = None, lc_recv_buffer_size = None,
      lc_send_buffer_size = None\<rparr>"

text \<open>\<open>LocalNet::new\<close>: the net that looks up hosts, if there is one, is its only inner net.\<close>

definition local_net_new :: "local_config \<Rightarrow> 'cidr std_net option \<Rightarrow> 'cidr std_net" where
  "local_net_new cfg lookup_host =
     Ext (PLocal cfg (lookup_host \<noteq> None)) (case lookup_host of None \<Rightarrow> [] | Some n \<Rightarrow> [n])"

definition local_build :: "'cidr net_builder" where
  "local_build c =
     and_ret (local_config_of c) (\<lambda>cfg.
     and_ret (get_as (as_opt as_net) ''lookup_host'' c) (\<lambda>n.
     Ret (Inr (local_net_new cfg n))))"

text \<open>\<open>DnsNet\<close>; \<open>new_resolver\<close> is \<open>AsyncResolver::new\<close> with its error as \<open>Debug\<close> prints it.\<close>

definition dns_build ::
  "ns_config list \<Rightarrow> ns_config list \<Rightarrow> (ns_config list \<Rightarrow> string + unit) \<Rightarrow> 'cidr net_builder" where
  "dns_build google cloudflare new_resolver c =
     and_ret (get_as (as_opt as_net) ''net'' c) (\<lambda>n.
     and_ret (get_as (as_value v_dns) ''server'' c) (\<lambda>server.
       let net = (case n of Some m \<Rightarrow> m | None \<Rightarrow> local_net_new local_config_default None);
           servers = dns_nameservers google cloudflare server
       in Ret (case new_resolver servers of
                 Inl e \<Rightarrow> Inl (Other (''Failed to build resolver: '' @ e))
               | Inr _ \<Rightarrow> Inr (Ext (PDns servers) [net]))))"

definition resolve_build :: "'cidr net_builder" where
  "resolve_build c =
     and_ret (get_as as_net ''net'' c) (\<lambda>n.
     and_ret (get_as as_net ''resolve_net'' c) (\<lambda>r.
     and_ret (get_as (as_value v_bool) ''ipv4'' c) (\<lambda>ipv4.
     and_ret (get_as (as_value v_bool) ''ipv6'' c) (\<lambda>ipv6.
     Ret (Inr (resolving_net (PResolve \<lparr>rc_ipv4 = ipv4, rc_ipv6 = ipv6\<rparr>) n r))))))"

definition sniffer_build :: "'cidr net_builder" where
  "sniffer_build c = and_ret (get_as as_net ''net'' c) (\<lambda>n. Ret (Inr (sniffer_net PSniffer n)))"

definition http_client_build :: "'cidr net_builder" where
  "http_client_build c =
     and_ret (get_as as_net ''net'' c) (\<lambda>n.
     and_ret (get_as (as_value v_address) ''server'' c) (\<lambda>server.
     Ret (Inr (Ext (PHttp server) [n]))))"

definition s5_client_build :: "'cidr net_builder" where
  "s5_client_build c =
     and_ret (get_as as_net ''net'' c) (\<lambda>n.
     and_ret (get_as (as_value v_address) ''server'' c) (\<lambda>server.
     Ret (Inr (Ext (PSocks5 server) [n]))))"

text \<open>\<open>TlsNet\<close>; \<open>tls_new\<close> is \<open>TlsConnector::new\<close>.\<close>

definition tls_build :: "(bool \<Rightarrow> error + unit) \<Rightarrow> 'cidr net_builder" where
  "tls_build tls_new c =
     and_ret (get_as (as_value v_bool) ''skip_cert_verify'' c) (\<lambda>skip.
       case tls_new skip of
         Inl e \<Rightarrow> Ret (Inl e)
       | Inr _ \<Rightarrow>
           and_ret (get_as (as_opt (as_value v_string)) ''sni'' c) (\<lambda>sni.
           and_ret (get_as as_net ''net'' c) (\<lambda>n.
           Ret (Inr (Ext (PTls skip sni) [n])))))"

text \<open>\<open>RuleNet\<close>: the targets are its inner nets, which its rules name by index.\<close>

definition as_rule_item :: "'cidr std_config \<Rightarrow> ('cidr std_net, 'cidr) rule_config_item outcome" where
  "as_rule_item c =
     and_ret (cfg_field ''target'' c) (\<lambda>t.
       case t of
         CRef r \<Rightarrow>
           and_ret (get_as (as_value v_matcher) ''matcher'' c) (\<lambda>mt.
           Ret \<lparr>rc_target = r, rc_matcher = mt\<rparr>)
       | _ \<Rightarrow> Panic)"

definition index_items :: "('n, 'cidr) rule_item list \<Rightarrow> (nat, 'cidr) rule_item list" where
  "index_items is =
     map (\<lambda>(i, it). \<lparr>target_name = target_name it, target = i, ri_matcher = ri_matcher it\<rparr>)
       (enumerate 0 is)"

definition rule_build :: "(json \<Rightarrow> string) \<Rightarrow> 'cidr net_builder" where
  "rule_build to_str c =
     and_ret (get_as (as_value v_usize) ''lru_cache_size'' c) (\<lambda>size.
     and_ret (get_as (as_vec as_rule_item) ''rule'' c) (\<lambda>items.
     and_ret (rule_new to_str (\<lambda>capacity. capacity) size items) (\<lambda>r.
     Ret (Inr (Ext (PRule (cache r) (index_items (rules r))) (map target (rules r)))))))"

section \<open>Builders of servers\<close>

definition echo_build :: "'cidr server_builder" where
  "echo_build c =
     and_ret (get_as (as_value v_address) ''bind'' c) (\<lambda>bind.
     and_ret (get_as as_net ''listen'' c) (\<lambda>listen.
     Ret (Inr (EchoServer listen bind))))"

definition forward_build :: "'cidr server_builder" where
  "forward_build c =
     and_ret (get_as as_net ''listen'' c) (\<lambda>listen.
     and_ret (get_as as_net ''net'' c) (\<lambda>n.
     and_ret (get_as (as_value v_address) ''bind'' c) (\<lambda>bind.
     and_ret (get_as (as_value v_address) ''target'' c) (\<lambda>tgt.
     and_ret (get_as (as_opt (as_value v_bool)) ''tcp'' c) (\<lambda>tcp.
     and_ret (get_as (as_value v_bool) ''udp'' c) (\<lambda>udp.
     Ret (Inr (ForwardServer (forward_new listen n bind tgt tcp udp)))))))))"

text \<open>The three servers with a net to listen on, a net to connect with and an address.\<close>

definition listening_build ::
  "('cidr std_net \<Rightarrow> 'cidr std_net \<Rightarrow> address \<Rightarrow> 'cidr std_server) \<Rightarrow> 'cidr server_builder" where
  "listening_build server c =
     and_ret (get_as as_net ''listen'' c) (\<lambda>listen.
     and_ret (get_as as_net ''net'' c) (\<lambda>n.
     and_ret (get_as (as_value v_address) ''bind'' c) (\<lambda>bind.
     Ret (Inr (server listen n bind)))))"

definition http_server_build :: "'cidr server_builder" where
  "http_server_build = listening_build HttpServer"

definition s5_server_build :: "'cidr server_builder" where
  "s5_server_build = listening_build Socks5Server"

definition mixed_build :: "'cidr server_builder" where
  "mixed_build = listening_build MixedServer"

definition redir_build :: "'cidr server_builder" where
  "redir_build c =
     and_ret (get_as (as_value v_address) ''bind'' c) (\<lambda>bind.
     and_ret (get_as as_net ''net'' c) (\<lambda>n.
     Ret (Inr (RedirServer bind n))))"

definition tproxy_build :: "'cidr server_builder" where
  "tproxy_build c =
     and_ret (get_as (as_value v_address) ''bind'' c) (\<lambda>bind.
     and_ret (get_as (as_opt (as_value v_u32)) ''mark'' c) (\<lambda>mark.
     and_ret (get_as as_net ''net'' c) (\<lambda>n.
     Ret (Inr (TProxyServer bind mark n)))))"

section \<open>Registration\<close>

type_synonym 'cidr std_serde =
  "string \<Rightarrow> (json \<Rightarrow> string + 'cidr std_config) \<times> ('cidr std_config \<Rightarrow> string + json)"

record 'cidr std_env =
  be_net_serde :: "'cidr std_serde"
  be_server_serde :: "'cidr std_serde"
  be_json_str :: "json \<Rightarrow> string"
  be_google :: "ns_config list"
  be_cloudflare :: "ns_config list"
  be_new_resolver :: "ns_config list \<Rightarrow> string + unit"
  be_tls_new :: "bool \<Rightarrow> error + unit"

type_synonym 'cidr std_plugin = "('cidr std_value, 'cidr std_part, 'cidr std_server) plugin_registry"
type_synonym 'cidr std_registry = "('cidr std_value, 'cidr std_part, 'cidr std_server) registry"

text \<open>\<open>Resolver::new\<close>. An error stands for a panic of the builder, which \<open>std_build_no_panic\<close> rules out.\<close>

definition resolver_new ::
  "(json \<Rightarrow> string + 'cidr std_config) \<times> ('cidr std_config \<Rightarrow> string + json) \<Rightarrow>
   ('cidr std_config \<Rightarrow> (error + 'i) outcome) \<Rightarrow> ('cidr std_value, 'cidr std_part, 'i) resolver" where
  "resolver_new serde build =
     \<lparr>rs_parse = fst serde, rs_dump = snd serde,
      rs_build = (\<lambda>c. case build c of Ret r \<Rightarrow> r | Panic \<Rightarrow> Inl (Other ''panic''))\<rparr>"

definition reg_net :: "'cidr std_env \<Rightarrow> string \<Rightarrow> 'cidr net_builder \<Rightarrow> 'cidr std_plugin \<Rightarrow> 'cidr std_plugin" where
  "reg_net B nm build = add_net nm (resolver_new (be_net_serde B nm) build)"

definition reg_server :: "'cidr std_env \<Rightarrow> string \<Rightarrow> 'cidr server_builder \<Rightarrow> 'cidr std_plugin \<Rightarrow> 'cidr std_plugin" where
  "reg_server B nm build = add_server nm (resolver_new (be_server_serde B nm) build)"

definition builtin_init :: "'cidr std_env \<Rightarrow> 'cidr std_plugin \<Rightarrow> error + 'cidr std_plugin" where
  "builtin_init B p =
     Inr ((reg_server B ''forward'' forward_build \<circ> reg_server B ''echo'' echo_build \<circ>
           reg_net B ''resolve'' resolve_build \<circ> reg_net B ''noop'' noop_build \<circ>
           reg_net B ''local'' local_build \<circ>
           reg_net B ''dns'' (dns_build (be_google B) (be_cloudflare B) (be_new_resolver B)) \<circ>
           reg_net B ''combine'' combine_build \<circ> reg_net B ''blackhole'' blackhole_build \<circ>
           reg_net B ''alias'' alias_build) p)"

definition sniffer_init :: "'cidr std_env \<Rightarrow> 'cidr std_plugin \<Rightarrow> error + 'cidr std_plugin" where
  "sniffer_init B p = Inr (reg_net B ''dns_sniffer'' sniffer_build p)"

definition http_init :: "'cidr std_env \<Rightarrow> 'cidr std_plugin \<Rightarrow> error + 'cidr std_plugin" where
  "http_init B p =
     Inr (reg_server B ''http'' http_server_build (reg_net B ''http'' http_client_build p))"

definition mixed_init :: "'cidr std_env \<Rightarrow> 'cidr std_plugin \<Rightarrow> error + 'cidr std_plugin" where
  "mixed_init B p = Inr (reg_server B ''http+socks5'' mixed_build p)"

definition tls_init :: "'cidr std_env \<Rightarrow> 'cidr std_plugin \<Rightarrow> error + 'cidr std_plugin" where
  "tls_init B p = Inr (reg_net B ''tls'' (tls_build (be_tls_new B)) p)"

definition transparent_init :: "'cidr std_env \<Rightarrow> 'cidr std_plugin \<Rightarrow> error + 'cidr std_plugin" where
  "transparent_init B p =
     Inr (reg_server B ''tproxy'' tproxy_build (reg_server B ''redir'' redir_build p))"

definition rule_init :: "'cidr std_env \<Rightarrow> 'cidr std_plugin \<Rightarrow> error + 'cidr std_plugin" where
  "rule_init B p = Inr (reg_net B ''rule'' (rule_build (be_json_str B)) p)"

definition socks5_init :: "'cidr std_env \<Rightarrow> 'cidr std_plugin \<Rightarrow> error + 'cidr std_plugin" where
  "socks5_init B p =
     Inr (reg_server B ''socks5'' s5_server_build (reg_net B ''socks5'' s5_client_build p))"

definition std_init :: "'cidr std_env \<Rightarrow> 'cidr std_plugin \<Rightarrow> error + 'cidr std_plugin" where
  "std_init B p =
     and_then (builtin_init B p) (\<lambda>p. and_then (sniffer_init B p) (\<lambda>p.
     and_then (http_init B p) (\<lambda>p. and_then (mixed_init B p) (\<lambda>p.
     and_then (tls_init B p) (\<lambda>p. and_then (transparent_init B p) (\<lambda>p.
     and_then (rule_init B p) (socks5_init B)))))))"

text \<open>\<open>Registry::init_with_registry\<close>, \<open>load_builtin\<close>, \<open>Registry::new_with_builtin\<close>.\<close>

definition init_with_registry ::
  "string \<Rightarrow> (('d, 'p, 'srv) plugin_registry \<Rightarrow> error + ('d, 'p, 'srv) plugin_registry) \<Rightarrow>
   ('d, 'p, 'srv) registry \<Rightarrow> error + ('d, 'p, 'srv) registry" where
  "init_with_registry nm init R = map_ok (\<lambda>p. add_registry nm p R) (init plugin_new)"

definition load_builtin :: "'cidr std_env \<Rightarrow> 'cidr std_registry \<Rightarrow> error + 'cidr std_registry" where
  "load_builtin B R = init_with_registry ''std'' (std_init B) R"

definition new_with_builtin :: "'cidr std_env \<Rightarrow> error + 'cidr std_registry" where
  "new_with_builtin B = load_builtin B registry_new"

section \<open>What the registry holds\<close>

definition std_nets :: "'cidr std_env \<Rightarrow> (string \<times> 'cidr net_builder) list" where
  "std_nets B =
     [(''alias'', alias_build), (''blackhole'', blackhole_build), (''combine'', combine_build),
      (''dns'', dns_build (be_google B) (be_cloudflare B) (be_new_resolver B)),
      (''local'', local_build), (''noop'', noop_build), (''resolve'', resolve_build),
      (''dns_sniffer'', sniffer_build), (''http'', http_client_build),
      (''tls'', tls_build (be_tls_new B)), (''rule'', rule_build (be_json_str B)),
      (''socks5'', s5_client_build)]"

definition std_servers :: "(string \<times> 'cidr server_builder) list" where
  "std_servers =
     [(''echo'', echo_build), (''forward'', forward_build), (''http'', http_server_build),
      (''http+socks5'', mixed_build), (''redir'', redir_build), (''tproxy'', tproxy_build),
      (''socks5'', s5_server_build)]"

definition std_item ::
  "'cidr std_serde \<Rightarrow> string \<Rightarrow> ('cidr std_config \<Rightarrow> (error + 'i) outcome) \<Rightarrow>
   ('cidr std_value, 'cidr std_part, 'i) reg_item" where
  "std_item serde t build =
     \<lparr>it_id = t, it_plugin = ''std'', it_resolver = resolver_new (serde t) build\<rparr>"

lemmas std_init_defs =
  std_init_def builtin_init_def sniffer_init_def http_init_def mixed_init_def tls_init_def
  transparent_init_def rule_init_def socks5_init_def

lemmas registry_defs =
  new_with_builtin_def load_builtin_def init_with_registry_def add_registry_def registry_new_def
  plugin_new_def reg_net_def reg_server_def add_net_def add_server_def items_of_def

lemma new_with_builtin_holds:
  "\<exists>R. new_with_builtin B = Inr R \<and>
     rg_net R = (\<lambda>t. map_option (std_item (be_net_serde B) t) (map_of (std_nets B) t)) \<and>
     rg_server R = (\<lambda>t. map_option (std_item (be_server_serde B) t) (map_of std_servers t))"
  by (auto simp: std_init_defs registry_defs std_nets_def std_servers_def std_item_def map_add_def
      fun_eq_iff)

section \<open>A built net uses the nets of its configuration\<close>

lemma and_ret_Ret:
  "and_ret x f = Ret y \<longleftrightarrow> (\<exists>a. x = Ret a \<and> f a = Ret y)"
  "Ret y = and_ret x f \<longleftrightarrow> (\<exists>a. x = Ret a \<and> f a = Ret y)"
  by (auto simp: and_ret_def split: outcome.splits)

lemma and_ret_Panic: "and_ret x f = Panic \<longleftrightarrow> x = Panic \<or> (\<exists>a. x = Ret a \<and> f a = Panic)"
  by (simp add: and_ret_def split: outcome.splits)

lemma refs_of_path:
  fixes c :: "('d, 'n) config" and xs :: "('d, 'n) config list" and kxs :: "(string \<times> ('d, 'n) config) list"
  shows "map snd (refs_of p c) = map snd (refs_of q c)"
    "map snd (refs_seq p pre n xs) = map snd (refs_seq q pre' n' xs)"
    "map snd (refs_named p kxs) = map snd (refs_named q kxs)"
    "map snd (refs_bare p xs) = map snd (refs_bare q xs)"
proof (induction p c and p pre n xs and p kxs and p xs arbitrary: q and q pre' n' and q and q
    rule: refs_of_refs_seq_refs_named_refs_bare.induct)
  case (11 p pre n x xs)
  then show ?case unfolding refs_seq.simps map_append by (intro arg_cong2 [of _ _ _ _ "(@)"])
next
  case (13 p k x kxs)
  then show ?case unfolding refs_named.simps map_append by (intro arg_cong2 [of _ _ _ _ "(@)"])
next
  case (15 p x xs)
  then show ?case unfolding refs_bare.simps map_append by (intro arg_cong2 [of _ _ _ _ "(@)"])
qed auto

text \<open>The references of a configuration without their paths.\<close>

definition all_refs :: "('d, 'n) config \<Rightarrow> 'n net_ref set" where
  "all_refs c = snd ` set (refs_of [] c)"

lemma all_refs_path: "snd ` set (refs_of p c) = all_refs c"
  unfolding all_refs_def set_map [symmetric] by (metis refs_of_path(1))

lemma all_refs_CRef [simp]: "all_refs (CRef r) = {r}"
  by (simp add: all_refs_def)

lemma refs_seq_mem: "x \<in> set xs \<Longrightarrow> all_refs x \<subseteq> snd ` set (refs_seq p pre n xs)"
  by (induction xs arbitrary: n) (auto simp: image_Un all_refs_path)

lemma refs_named_mem: "(k, x) \<in> set kxs \<Longrightarrow> all_refs x \<subseteq> snd ` set (refs_named p kxs)"
  by (induction kxs) (auto simp: image_Un all_refs_path)

lemma all_refs_CSeq: "x \<in> set xs \<Longrightarrow> all_refs x \<subseteq> all_refs (CSeq xs)"
  by (simp add: all_refs_def [of "CSeq xs"] refs_seq_mem)

lemma cfg_field_refs: "cfg_field k c = Ret x \<Longrightarrow> all_refs x \<subseteq> all_refs c"
  by (cases c) (auto simp: all_refs_def [of "CStruct _"] split: option.splits
      dest!: map_of_SomeD refs_named_mem [of _ _ _ "[]"])

text \<open>A net that is read from a configuration is the value of one of its references.\<close>

definition from_refs :: "('d, 'n) config \<Rightarrow> 'n \<Rightarrow> bool" where
  "from_refs c n \<longleftrightarrow> (\<exists>r \<in> all_refs c. res_value r = Some n)"

lemma from_refs_mono: "from_refs x n \<Longrightarrow> all_refs x \<subseteq> all_refs c \<Longrightarrow> from_refs c n"
  by (auto simp: from_refs_def)

lemma value_cloned_Ret: "value_cloned r = Ret n \<longleftrightarrow> res_value r = Some n"
  by (simp add: value_cloned_def split: option.splits)

lemma as_net_refs: "as_net c = Ret n \<Longrightarrow> from_refs c n"
  by (cases c) (simp_all add: from_refs_def value_cloned_Ret)

lemma as_opt_net_refs:
  assumes "as_opt as_net c = Ret (Some n)"
  shows "from_refs c n"
proof -
  obtain x where c: "c = CSeq [x]" and "as_net x = Ret n"
    using assms by (auto simp: and_ret_Ret elim!: as_opt.elims)
  then show ?thesis unfolding c by (intro from_refs_mono [OF as_net_refs all_refs_CSeq]) simp_all
qed

lemma get_as_net_refs: "get_as as_net k c = Ret n \<Longrightarrow> from_refs c n"
  unfolding get_as_def and_ret_Ret by (elim exE conjE) (rule from_refs_mono [OF as_net_refs cfg_field_refs])

lemma get_as_opt_net_refs: "get_as (as_opt as_net) k c = Ret (Some n) \<Longrightarrow> from_refs c n"
  unfolding get_as_def and_ret_Ret by (elim exE conjE) (rule from_refs_mono [OF as_opt_net_refs cfg_field_refs])

lemma as_list_Ret: "as_list f cs = Ret xs \<Longrightarrow> list_all2 (\<lambda>c x. f c = Ret x) cs xs"
  by (induction cs arbitrary: xs) (auto simp: and_ret_Ret)


lemma as_rule_item_refs: "as_rule_item c = Ret i \<Longrightarrow> rc_target i \<in> all_refs c"
  unfolding as_rule_item_def and_ret_Ret
proof (elim exE conjE)
  fix t
  assume "cfg_field ''target'' c = Ret t"
    "(case t of CRef r \<Rightarrow> and_ret (get_as (as_value v_matcher) ''matcher'' c) (\<lambda>mt. Ret \<lparr>rc_target = r, rc_matcher = mt\<rparr>)
      | _ \<Rightarrow> Panic) = Ret i"
  then show "rc_target i \<in> all_refs c"
    using cfg_field_refs [of "''target''" c t] by (cases t) (auto simp: and_ret_Ret)
qed

lemma rule_items_targets:
  "rule_items to_str items = Ret is \<Longrightarrow>
   list_all2 (\<lambda>i it. res_value (rc_target i) = Some (target it)) items is"
  by (induction items arbitrary: "is")
     (auto simp: value_cloned_Ret split: outcome.splits)

lemma rule_build_refs:
  assumes "get_as (as_vec as_rule_item) k c = Ret items" "rule_items to_str items = Ret is"
    and "it \<in> set is"
  shows "from_refs c (target it)"
proof -
  obtain cs where c: "cfg_field k c = Ret (CSeq cs)" and l: "as_list as_rule_item cs = Ret items"
    using assms(1) by (auto simp: get_as_def and_ret_Ret elim!: as_vec.elims)
  obtain j where j: "j < length is" "it = is ! j" using assms(3) by (metis in_set_conv_nth)
  then have v: "res_value (rc_target (items ! j)) = Some (target it)" and n: "j < length items"
    using rule_items_targets [OF assms(2)] by (auto simp: list_all2_conv_all_nth)
  then have "as_rule_item (cs ! j) = Ret (items ! j)" "cs ! j \<in> set cs"
    using as_list_Ret [OF l] by (auto simp: list_all2_conv_all_nth)
  then have "rc_target (items ! j) \<in> all_refs (CSeq cs)"
    using as_rule_item_refs all_refs_CSeq by blast
  with v cfg_field_refs [OF c] show ?thesis by (auto simp: from_refs_def)
qed

text \<open>What \<open>builders_ok\<close> asks, for a builder: the nets of the result are nets of the
  configuration, but for those it makes itself.\<close>

lemma from_refs_net_refs: "from_refs c n \<Longrightarrow> set (net_refs n) \<subseteq> config_net_refs c"
  by (force simp: from_refs_def all_refs_def config_net_refs_def)

definition builder_ok :: "'cidr net_builder \<Rightarrow> bool" where
  "builder_ok build \<longleftrightarrow> (\<forall>c n. build c = Ret (Inr n) \<longrightarrow> set (net_refs n) \<subseteq> config_net_refs c)"

lemmas refs_of_fields =
  get_as_net_refs [THEN from_refs_net_refs] get_as_opt_net_refs [THEN from_refs_net_refs]

lemma builder_ok_simple:
  "builder_ok alias_build" "builder_ok blackhole_build" "builder_ok noop_build" "builder_ok sniffer_build"
  "builder_ok http_client_build" "builder_ok s5_client_build"
  unfolding builder_ok_def alias_build_def blackhole_build_def noop_build_def sniffer_build_def
    http_client_build_def s5_client_build_def sniffer_net_def
  by (auto simp: and_ret_Ret dest!: refs_of_fields)

lemma builder_ok_combine: "builder_ok combine_build"
  unfolding builder_ok_def combine_build_def by (auto simp: and_ret_Ret dest!: refs_of_fields)

lemma builder_ok_resolve: "builder_ok resolve_build"
  unfolding builder_ok_def resolve_build_def resolving_net_def by (auto simp: and_ret_Ret dest!: refs_of_fields)

lemma builder_ok_tls: "builder_ok (tls_build tls_new)"
  unfolding builder_ok_def tls_build_def by (auto simp: and_ret_Ret dest!: refs_of_fields split: sum.split_asm) blast+

lemma builder_ok_local: "builder_ok local_build"
  unfolding builder_ok_def local_build_def local_net_new_def
  by (auto simp: and_ret_Ret dest!: refs_of_fields split: option.splits)

lemma builder_ok_dns: "builder_ok (dns_build google cloudflare new_resolver)"
  unfolding builder_ok_def dns_build_def local_net_new_def
  by (auto simp: and_ret_Ret Let_def dest!: refs_of_fields split: option.split_asm sum.split_asm) blast+

lemma builder_ok_rule: "builder_ok (rule_build to_str)"
  unfolding builder_ok_def
proof (intro allI impI)
  fix c :: "'cidr std_config" and n
  assume "rule_build to_str c = Ret (Inr n)"
  then obtain size items r where items: "get_as (as_vec as_rule_item) ''rule'' c = Ret items"
    and r: "rule_new to_str (\<lambda>capacity. capacity) size items = Ret r"
    and n: "n = Ext (PRule (cache r) (index_items (rules r))) (map target (rules r))"
    unfolding rule_build_def and_ret_Ret by auto
  from r have "rule_items to_str items = Ret (rules r)" by (auto simp: rule_new_def split: outcome.splits)
  with items n show "set (net_refs n) \<subseteq> config_net_refs c"
    using rule_build_refs from_refs_net_refs by fastforce
qed

lemmas builders_ok_std =
  builder_ok_simple builder_ok_combine builder_ok_resolve builder_ok_tls builder_ok_local builder_ok_dns
  builder_ok_rule

lemma std_nets_ok: "map_of (std_nets B) t = Some build \<Longrightarrow> builder_ok build"
  by (auto simp: std_nets_def builders_ok_std split: if_splits)

lemma std_builders_ok:
  assumes "new_with_builtin B = Inr R"
  shows "builders_ok R"
proof -
  have R: "rg_net R = (\<lambda>t. map_option (std_item (be_net_serde B) t) (map_of (std_nets B) t))"
    using new_with_builtin_holds [of B] assms by auto
  have "set (net_refs n) \<subseteq> config_net_refs c"
    if "map_of (std_nets B) t = Some build" "rs_build (resolver_new serde build) c = Inr n" for t build serde c n
    using std_nets_ok [OF that(1)] that(2) by (auto simp: resolver_new_def builder_ok_def split: outcome.split_asm)
  then show ?thesis unfolding builders_ok_def R by (fastforce simp: std_item_def)
qed

section \<open>A builder does not panic\<close>

text \<open>The types of the configurations: what the tree of a value of the type looks like.\<close>

definition is_ref :: "('d, 'n) config \<Rightarrow> bool" where
  "is_ref c \<longleftrightarrow> (case c of CRef r \<Rightarrow> True | _ \<Rightarrow> False)"

definition is_val :: "('d \<Rightarrow> 'a option) \<Rightarrow> ('d, 'n) config \<Rightarrow> bool" where
  "is_val f c \<longleftrightarrow> (case c of CEmpty v \<Rightarrow> f v \<noteq> None | _ \<Rightarrow> False)"

definition is_vec :: "(('d, 'n) config \<Rightarrow> bool) \<Rightarrow> ('d, 'n) config \<Rightarrow> bool" where
  "is_vec P c \<longleftrightarrow> (case c of CSeq cs \<Rightarrow> list_all P cs | _ \<Rightarrow> False)"

definition is_opt :: "(('d, 'n) config \<Rightarrow> bool) \<Rightarrow> ('d, 'n) config \<Rightarrow> bool" where
  "is_opt P c \<longleftrightarrow> is_vec P c \<and> (case c of CSeq cs \<Rightarrow> length cs \<le> 1 | _ \<Rightarrow> False)"

definition is_struct :: "(string \<times> (('d, 'n) config \<Rightarrow> bool)) list \<Rightarrow> ('d, 'n) config \<Rightarrow> bool" where
  "is_struct ks c \<longleftrightarrow>
     (case c of
        CStruct fs \<Rightarrow>
          list_all (\<lambda>(k, P). case map_of fs k of None \<Rightarrow> False | Some x \<Rightarrow> P x) ks
      | _ \<Rightarrow> False)"









definition rule_item_shape :: "'cidr std_config \<Rightarrow> bool" where
  "rule_item_shape = is_struct
    [(''target'', is_ref), (''matcher'', is_val v_matcher)]"













text \<open>The references of a configuration have values.\<close>

definition resolved :: "('d, 'n) config \<Rightarrow> bool" where
  "resolved c \<longleftrightarrow> (\<forall>r \<in> all_refs c. res_value r \<noteq> None)"

lemma resolved_mono: "resolved c \<Longrightarrow> all_refs x \<subseteq> all_refs c \<Longrightarrow> resolved x"
  by (auto simp: resolved_def)

lemma is_struct_field:
  assumes "is_struct ks c" "(k, P) \<in> set ks"
  shows "\<exists>x. cfg_field k c = Ret x \<and> P x \<and> all_refs x \<subseteq> all_refs c"
proof -
  obtain x where x: "cfg_field k c = Ret x" "P x"
    using assms by (fastforce simp: is_struct_def list_all_iff split: config.splits option.splits)
  with cfg_field_refs [OF x(1)] show ?thesis by blast
qed

text \<open>A reader that does not panic on resolved trees of a shape, for any field of that shape.\<close>

definition reads :: "(('d, 'n) config \<Rightarrow> bool) \<Rightarrow> (('d, 'n) config \<Rightarrow> 'a outcome) \<Rightarrow> bool" where
  "reads P f \<longleftrightarrow> (\<forall>c. P c \<longrightarrow> resolved c \<longrightarrow> f c \<noteq> Panic)"

lemma reads_net: "reads is_ref as_net"
  by (auto simp: reads_def is_ref_def resolved_def value_cloned_def split: config.splits option.splits)

lemma reads_val: "reads (is_val f) (as_value f)"
  by (auto simp: reads_def is_val_def as_value_def split: config.splits)

lemma as_list_no_panic: "\<forall>c \<in> set cs. f c \<noteq> Panic \<Longrightarrow> as_list f cs \<noteq> Panic"
  by (induction cs) (auto simp: and_ret_Panic)

lemma reads_vec:
  assumes "reads P f"
  shows "reads (is_vec P) (as_vec f)"
proof -
  have "as_list f cs \<noteq> Panic" if "list_all P cs" "resolved (CSeq cs)" for cs
    using that assms resolved_mono [OF that(2) all_refs_CSeq]
    by (intro as_list_no_panic) (auto simp: reads_def list_all_iff)
  then show ?thesis by (auto simp: reads_def is_vec_def split: config.splits)
qed

lemma reads_opt:
  assumes "reads P f"
  shows "reads (is_opt P) (as_opt f)"
proof -
  have "as_opt f (CSeq cs) \<noteq> Panic" if "list_all P cs" "resolved (CSeq cs)" "length cs \<le> 1" for cs
  proof (cases cs)
    case (Cons x xs)
    with that have "xs = []" "f x \<noteq> Panic"
      using assms resolved_mono [OF that(2) all_refs_CSeq] by (auto simp: reads_def)
    with Cons show ?thesis by (simp add: and_ret_Panic)
  qed simp
  then show ?thesis by (auto simp: reads_def is_opt_def is_vec_def split: config.splits)
qed

lemma reads_field:
  assumes "is_struct ks c" "resolved c" "(k, P) \<in> set ks" "reads P f"
  shows "get_as f k c \<noteq> Panic"
proof -
  obtain x where x: "cfg_field k c = Ret x" "P x" "all_refs x \<subseteq> all_refs c"
    using is_struct_field [OF assms(1,3)] by blast
  then have "f x \<noteq> Panic" using assms(4) resolved_mono [OF assms(2) x(3)] by (simp add: reads_def)
  with x(1) show ?thesis by (simp add: get_as_def and_ret_Panic)
qed

lemma reads_rule_item: "reads rule_item_shape as_rule_item"
  unfolding reads_def
proof (intro allI impI)
  fix c :: "'a std_config"
  assume c: "rule_item_shape c" "resolved c"
  then obtain t where t: "cfg_field ''target'' c = Ret t" "is_ref t"
    using is_struct_field [of _ c "''target''" is_ref] unfolding rule_item_shape_def by fastforce
  have "get_as (as_value v_matcher) ''matcher'' c \<noteq> Panic"
    using c unfolding rule_item_shape_def by (rule reads_field) (auto intro: reads_val)
  with t show "as_rule_item c \<noteq> Panic"
    by (auto simp: as_rule_item_def and_ret_Panic is_ref_def split: config.splits)
qed

text \<open>The readers of fields, by shape.\<close>

lemmas reads_all = reads_net reads_val reads_opt [OF reads_net] reads_opt [OF reads_val] reads_vec [OF reads_rule_item]

text \<open>Resolving the references of a configuration keeps its shape: all that changes is in the
  references.\<close>

fun skel :: "('d, 'n) config \<Rightarrow> ('d, unit) config" where
  "skel (CEmpty v) = CEmpty v"
| "skel (CRef r) = CRef (resolvable_new JNull)"
| "skel (CSeq xs) = CSeq (map skel xs)"
| "skel (CKeyed kxs) = CKeyed (map (\<lambda>(k, x). (k, skel x)) kxs)"
| "skel (CPair a b) = CPair (skel a) (skel b)"
| "skel (CSingleOrVec (Single x)) = CSingleOrVec (Single (skel x))"
| "skel (CSingleOrVec (Vec xs)) = CSingleOrVec (Vec (map skel xs))"
| "skel (CStruct fs) = CStruct (map (\<lambda>(k, x). (k, skel x)) fs)"
| "skel (CTuple xs) = CTuple (map skel xs)"






lemma skel_CSingleOrVec [simp]: "skel (CSingleOrVec x) = CSingleOrVec (map_single_or_vec skel x)"
  by (cases x) simp_all

































section \<open>Properties\<close>


section \<open>Witnesses\<close>






end
