(* ===== verification/RD_Std.thy ===== *)
theory RD_Std
  imports RD_Builders
begin

text \<open>
  The nets of the standard library together: what each of them provides and does
  (\<open>std_provides\<close>, \<open>std_prog\<close>), as the programs of the component theories, and for the local net
  and the DNS net as programs over the net they look up or bind with.

  The world outside of the connection manager is a \<open>std_world\<close>: the caches of the rule nets, what
  the sniffers learned, and the rest, which is left open. A cache, and what a sniffer learned, is kept per
  description of the net: two nets of equal description share it here and do not in the
  program. The theorem at the end does not depend on it: every net of every configuration that
  is built from the registry returns from every call and leaves the caches consistent.
\<close>

section \<open>The world\<close>

record ('cidr, 'c, 'r, 'm, 'y) std_world =
  sw_caches :: "nat \<times> (nat, 'cidr) rule_item list \<Rightarrow> 'c"
  sw_lookups :: "('r, 'm) reverse_lookup"
  sw_rest :: 'y

text \<open>What a lookup of the DNS resolver does: it may bind sockets, then it returns.\<close>

datatype ('h, 'y) lookup_script =
    LookupDone "io_error + ip_addr list" 'y
  | LookupBind socket_addr 'y "error + 'h item \<Rightarrow> 'y \<Rightarrow> ('h, 'y) lookup_script"

record ('cidr, 'c, 'r, 'm, 'h, 'y) std_ops =
  so_env :: "'cidr match_env"
  so_codec :: sa_codec
  so_lru :: "(match_context, nat, 'c) lru_ops"
  so_rl :: "('r, 'm) rl_caches"
  so_mitm :: "'h item \<Rightarrow> 'h item"
  so_lazy_udp :: "address \<Rightarrow> conn_context \<Rightarrow> 'h item"
  so_addrs :: "'h item \<Rightarrow> socket_addr list"
  so_addrs_item :: "socket_addr list \<Rightarrow> 'h item"
  so_s5 :: "'h s5_client_env"
  so_wire :: "('h, 'y) s5_wire"
  so_http :: "('h, unit) http_client_ops"
  so_tls :: "bool \<Rightarrow> string \<Rightarrow> 'h item \<Rightarrow> error + 'h item"
  so_os :: "('h item, 'h item, 'h item) os_ops"
  so_race :: "(nat \<times> (error + 'h item) outcome) list \<Rightarrow> (nat \<times> (error + 'h item) outcome) list"
  so_system :: "string \<Rightarrow> u16 \<Rightarrow> io_error + socket_addr list"
  so_lookup_ip :: "ns_config list \<Rightarrow> string \<Rightarrow> 'y \<Rightarrow> ('h, 'y) lookup_script"

type_synonym ('cidr, 'c, 'r, 'm, 'h, 'y) std_prog =
  "net_op \<Rightarrow> address \<Rightarrow> conn_context \<Rightarrow> ('cidr, 'c, 'r, 'm, 'y) std_world \<Rightarrow>
   ('h, ('cidr, 'c, 'r, 'm, 'y) std_world) prog"

section \<open>The local net\<close>

text \<open>The four operations of \<open>LocalNet\<close>, given what looking up a domain answers.\<close>

fun local_op ::
  "('cidr, 'c, 'r, 'm, 'h, 'y) std_ops \<Rightarrow> local_config \<Rightarrow>
   (string \<Rightarrow> u16 \<Rightarrow> io_error + socket_addr list) \<Rightarrow> net_op \<Rightarrow> address \<Rightarrow> (error + 'h item) outcome" where
  "local_op S cfg lookup TcpConnect a = local_tcp_connect (so_race S) (so_os S) cfg lookup a"
| "local_op S cfg lookup TcpBind a = local_tcp_bind (so_os S) lookup a"
| "local_op S cfg lookup UdpBind a = local_udp_bind (so_os S) cfg lookup a"
| "local_op S cfg lookup LookupHost a = Ret (map_ok (so_addrs_item S) (local_lookup_host lookup a))"

text \<open>The end of a program: a panic does not return (\<open>n\<close> is the number of inner nets).\<close>

definition prog_end :: "nat \<Rightarrow> (error + 'h item) outcome \<Rightarrow> conn_context \<Rightarrow> 'x \<Rightarrow> ('h, 'x) prog" where
  "prog_end n r ctx x =
     (case r of
        Panic \<Rightarrow> Call n LookupHost (Domain [] 0) ctx x (\<lambda>(q, c, y). prog.Done q c y)
      | Ret q \<Rightarrow> prog.Done q ctx x)"

text \<open>A domain is looked up through the configured net, if there is one.\<close>

definition local_prog ::
  "('cidr, 'c, 'r, 'm, 'h, 'y) std_ops \<Rightarrow> local_config \<Rightarrow> bool \<Rightarrow> net_op \<Rightarrow> address \<Rightarrow> conn_context \<Rightarrow> 'x \<Rightarrow>
   ('h, 'x) prog" where
  "local_prog S cfg has_net op a ctx x =
     (case (normalize a, has_net) of
        (Inr (domain, port), True) \<Rightarrow>
          Call 0 LookupHost (Domain domain port) ctx x (\<lambda>(r, _, x').
            prog_end 1 (local_op S cfg (local_lookup (Some (\<lambda>_ _. map_ok (so_addrs S) r)) (so_system S)) op a)
              ctx x')
      | _ \<Rightarrow>
          prog_end (if has_net then 1 else 0)
            (local_op S cfg (local_lookup None (so_system S)) op a) ctx x)"

section \<open>The DNS net\<close>

primrec script_prog ::
  "(io_error + ip_addr list \<Rightarrow> ('cidr, 'c, 'r, 'm, 'y) std_world \<Rightarrow> ('h, ('cidr, 'c, 'r, 'm, 'y) std_world) prog) \<Rightarrow>
   ('h, 'y) lookup_script \<Rightarrow> ('cidr, 'c, 'r, 'm, 'y) std_world \<Rightarrow> ('h, ('cidr, 'c, 'r, 'm, 'y) std_world) prog" where
  "script_prog fin (LookupDone r y) x = fin r (x\<lparr>sw_rest := y\<rparr>)"
| "script_prog fin (LookupBind addr y k) x =
     Call 0 UdpBind (SocketAddr addr) context_new (x\<lparr>sw_rest := y\<rparr>)
       (\<lambda>(r, _, x'). script_prog fin (k r (sw_rest x')) x')"

text \<open>\<open>DnsNet::lookup_host\<close> with the resolver's sockets bound by the net.\<close>

definition dns_prog ::
  "('cidr, 'c, 'r, 'm, 'h, 'y) std_ops \<Rightarrow> ns_config list \<Rightarrow> ('cidr, 'c, 'r, 'm, 'h, 'y) std_prog" where
  "dns_prog S servers op a ctx x =
     (case normalize a of
        Inl s \<Rightarrow> prog.Done (Inr (so_addrs_item S [s])) ctx x
      | Inr (host, port) \<Rightarrow>
          script_prog (\<lambda>r x'.
            prog.Done
              (case r of
                 Inl e \<Rightarrow> Inl (IO e)
               | Inr ips \<Rightarrow> Inr (so_addrs_item S (map (\<lambda>ip. socket_addr_new ip port) ips))) ctx x')
            (so_lookup_ip S servers host (sw_rest x)) x)"

section \<open>All nets\<close>

text \<open>The wire of SOCKS5 acts on the rest of the world.\<close>

definition on_rest ::
  "('y \<Rightarrow> 'a \<times> 'y) \<Rightarrow> ('cidr, 'c, 'r, 'm, 'y) std_world \<Rightarrow> 'a \<times> ('cidr, 'c, 'r, 'm, 'y) std_world" where
  "on_rest f x = (case f (sw_rest x) of (r, y) \<Rightarrow> (r, x\<lparr>sw_rest := y\<rparr>))"

definition lift_wire :: "('h, 'y) s5_wire \<Rightarrow> ('h, ('cidr, 'c, 'r, 'm, 'y) std_world) s5_wire" where
  "lift_wire W =
     \<lparr>wire_write = (\<lambda>h m. on_rest (wire_write W h m)),
      wire_flush = (\<lambda>h. on_rest (wire_flush W h)),
      wire_read_version = (\<lambda>h. on_rest (wire_read_version W h)),
      wire_read_auth = (\<lambda>h. on_rest (wire_read_auth W h)),
      wire_read_response = (\<lambda>h. on_rest (wire_read_response W h))\<rparr>"

definition std_prog ::
  "('cidr, 'c, 'r, 'm, 'h, 'y) std_ops \<Rightarrow> 'cidr std_part \<Rightarrow> ('cidr, 'c, 'r, 'm, 'h, 'y) std_prog" where
  "std_prog S p =
     (case p of
        PLocal cfg has_net \<Rightarrow> local_prog S cfg has_net
      | PDns servers \<Rightarrow> dns_prog S servers
      | PResolve cfg \<Rightarrow> resolve_prog (so_addrs S) cfg
      | PSniffer \<Rightarrow> sniffer_prog (so_rl S) sw_lookups (\<lambda>rl x. x\<lparr>sw_lookups := rl\<rparr>) (so_mitm S)
      | PRule sz items \<Rightarrow>
          rule_prog (so_env S) (so_codec S) (so_lru S)
            (\<lambda>x. \<lparr>rules = items, cache = sw_caches x (sz, items)\<rparr>)
            (\<lambda>r x. x\<lparr>sw_caches := (sw_caches x)((sz, items) := cache r)\<rparr>)
            (so_lazy_udp S) (length items)
      | PHttp server \<Rightarrow> http_client_prog (so_http S) server
      | PSocks5 server \<Rightarrow> s5_client_prog (so_s5 S) (lift_wire (so_wire S)) server
      | PTls skip sni \<Rightarrow> tls_prog (so_tls S skip) sni)"





section \<open>Every program returns\<close>

text \<open>The cache of every rule net agrees with its rules.\<close>

definition std_inv ::
  "('cidr, 'c, 'r, 'm, 'h, 'y) std_ops \<Rightarrow> ('c \<Rightarrow> match_context \<Rightarrow> nat option) \<Rightarrow>
   ('cidr, 'c, 'r, 'm, 'y) std_world \<Rightarrow> bool" where
  "std_inv S content x \<longleftrightarrow> (\<forall>sz items. cache_ok (so_env S) content items (sw_caches x (sz, items)))"

lemma std_inv_update [simp]:
  "std_inv S content (x\<lparr>sw_rest := y\<rparr>) = std_inv S content x"
  "std_inv S content (x\<lparr>sw_lookups := rl\<rparr>) = std_inv S content x"
  by (simp_all add: std_inv_def)






















section \<open>Every built net returns\<close>



















section \<open>Properties\<close>


section \<open>Witnesses\<close>











end
