(* ===== verification/RD_Topo.thy ===== *)
theory RD_Topo
  imports Main
begin

text \<open>
  \<open>topological_sort\<close> of \<^verbatim>\<open>src/util.rs\<close>: the items of a map in an order in which the dependencies of an
  item come before it.

  The work is done by \<open>TopologicalSort\<close> of the crate topological-sort, a parameter (\<open>ts_ops\<close>) with
  its documented behaviour (\<open>ts_laws\<close>) in terms of the graph it holds. The order in which a
  \<open>HashMap\<close> gives its entries is arbitrary: \<open>entries\<close> are its entries in some order. The loop that
  pops may not end in the model; the theorem shows that it does.
\<close>

section \<open>Definitions\<close>

datatype 'k root_type = RootAll | RootKey "'k list"

datatype 'k node = NItem 'k | NRoot

record ('n, 't) ts_ops =
  ts_new :: 't
  ts_add :: "'n \<Rightarrow> 'n \<Rightarrow> 't \<Rightarrow> 't"
  ts_pop :: "'t \<Rightarrow> 'n option \<times> 't"
  ts_is_empty :: "'t \<Rightarrow> bool"

text \<open>The loop over the entries, which stops at the first error of \<open>get_deps\<close>.\<close>

fun ts_fill ::
  "('k node, 't) ts_ops \<Rightarrow> ('k \<Rightarrow> 'v \<Rightarrow> 'e + 'k list) \<Rightarrow> bool \<Rightarrow> ('k \<times> 'v) list \<Rightarrow> 't \<Rightarrow> 'e + 't" where
  "ts_fill T get_deps all [] ts = Inr ts"
| "ts_fill T get_deps all ((k, v) # kvs) ts =
     (case get_deps k v of
        Inl e \<Rightarrow> Inl e
      | Inr ds \<Rightarrow>
          (let ts1 = fold (\<lambda>d. ts_add T (NItem k) (NItem d)) ds ts
           in ts_fill T get_deps all kvs (if all then ts_add T NRoot (NItem k) ts1 else ts1)))"

definition ts_roots :: "('k node, 't) ts_ops \<Rightarrow> 'k root_type \<Rightarrow> 't \<Rightarrow> 't" where
  "ts_roots T root ts =
     (case root of RootAll \<Rightarrow> ts | RootKey ks \<Rightarrow> fold (\<lambda>k. ts_add T NRoot (NItem k)) ks ts)"

text \<open>The loop that pops: items are pushed to the front of the list.\<close>

partial_function (option) ts_drain ::
  "('k node, 't) ts_ops \<Rightarrow> 't \<Rightarrow> 'k list \<Rightarrow> ('k list \<times> 't) option" where
  "ts_drain T ts list =
     (case ts_pop T ts of
        (None, ts') \<Rightarrow> Some (list, ts')
      | (Some (NItem k), ts') \<Rightarrow> ts_drain T ts' (k # list)
      | (Some NRoot, ts') \<Rightarrow> ts_drain T ts' list)"

text \<open>The items of the list are taken out of the map; a key that is not in the map is left out.\<close>

fun ts_take :: "'k list \<Rightarrow> ('k \<Rightarrow> 'v option) \<Rightarrow> ('k \<times> 'v) list" where
  "ts_take [] m = []"
| "ts_take (k # ks) m =
     (case m k of None \<Rightarrow> ts_take ks m | Some v \<Rightarrow> (k, v) # ts_take ks (m(k := None)))"

definition topological_sort ::
  "('k node, 't) ts_ops \<Rightarrow> 'k root_type \<Rightarrow> ('k \<times> 'v) list \<Rightarrow> ('k \<Rightarrow> 'v \<Rightarrow> 'e + 'k list) \<Rightarrow>
   ('e + ('k \<times> 'v) list option) option" where
  "topological_sort T root entries get_deps =
     (case ts_fill T get_deps (root = RootAll) entries (ts_new T) of
        Inl e \<Rightarrow> Some (Inl e)
      | Inr ts \<Rightarrow>
          (case ts_drain T (ts_roots T root ts) [] of
             None \<Rightarrow> None
           | Some (list, ts') \<Rightarrow>
               if \<not> ts_is_empty T ts' then Some (Inr None)
               else Some (Inr (Some (ts_take list (map_of entries))))))"

section \<open>The contract of the crate\<close>

text \<open>\<open>nodes\<close> and \<open>edges\<close> of the graph that is left, an edge from the item that comes first. \<open>pop\<close>
  removes a node to which no edge leads.\<close>

definition ts_laws ::
  "('n, 't) ts_ops \<Rightarrow> ('t \<Rightarrow> 'n set) \<Rightarrow> ('t \<Rightarrow> ('n \<times> 'n) set) \<Rightarrow> bool" where
  "ts_laws T nodes edges \<longleftrightarrow>
     nodes (ts_new T) = {} \<and> edges (ts_new T) = {} \<and>
     (\<forall>p s ts. nodes (ts_add T p s ts) = insert p (insert s (nodes ts)) \<and>
        edges (ts_add T p s ts) = insert (p, s) (edges ts)) \<and>
     (\<forall>ts ts'. ts_pop T ts = (None, ts') \<longrightarrow>
        ts' = ts \<and> (\<forall>n \<in> nodes ts. \<exists>p. (p, n) \<in> edges ts)) \<and>
     (\<forall>ts n ts'. ts_pop T ts = (Some n, ts') \<longrightarrow>
        n \<in> nodes ts \<and> (\<forall>p. (p, n) \<notin> edges ts) \<and> nodes ts' = nodes ts - {n} \<and>
        edges ts' = {e \<in> edges ts. fst e \<noteq> n}) \<and>
     (\<forall>ts. ts_is_empty T ts \<longleftrightarrow> nodes ts = {})"

text \<open>What the entries say: the dependencies, and the items the sort is about.\<close>

definition dep_rel :: "('k \<times> 'v) list \<Rightarrow> ('k \<Rightarrow> 'v \<Rightarrow> 'e + 'k list) \<Rightarrow> ('k \<times> 'k) set" where
  "dep_rel entries get_deps =
     {(k, d). \<exists>v ds. (k, v) \<in> set entries \<and> get_deps k v = Inr ds \<and> d \<in> set ds}"

definition sorted_keys :: "'k root_type \<Rightarrow> ('k \<times> 'v) list \<Rightarrow> ('k \<Rightarrow> 'v \<Rightarrow> 'e + 'k list) \<Rightarrow> 'k set" where
  "sorted_keys root entries get_deps =
     Field (dep_rel entries get_deps) \<union>
     (case root of RootAll \<Rightarrow> fst ` set entries | RootKey ks \<Rightarrow> set ks)"

section \<open>Filling\<close>

definition item_edges :: "('k \<times> 'k) set \<Rightarrow> ('k node \<times> 'k node) set" where
  "item_edges D = {(NItem k, NItem d) | k d. (k, d) \<in> D}"

definition root_edges :: "'k set \<Rightarrow> ('k node \<times> 'k node) set" where
  "root_edges R = {(NRoot, NItem k) | k. k \<in> R}"

lemma fold_add:
  assumes "ts_laws T nodes edges"
  shows "edges (fold (\<lambda>d. ts_add T p (f d)) ds ts) = edges ts \<union> {(p, f d) | d. d \<in> set ds}"
    "nodes (fold (\<lambda>d. ts_add T p (f d)) ds ts) =
       nodes ts \<union> Field {(p, f d) | d. d \<in> set ds}"
  using assms by (induction ds arbitrary: ts) (auto simp: ts_laws_def Field_def)

lemma ts_fill_graph:
  assumes "ts_laws T nodes edges" "ts_fill T get_deps all kvs ts = Inr ts'" "nodes ts = Field (edges ts)"
  shows "edges ts' = edges ts \<union> item_edges (dep_rel kvs get_deps) \<union> root_edges (if all then fst ` set kvs else {}) \<and>
    nodes ts' = Field (edges ts')"
  using assms(2,3)
proof (induction kvs arbitrary: ts)
  case Nil
  then show ?case by (auto simp: item_edges_def root_edges_def dep_rel_def)
next
  case (Cons kv kvs)
  obtain k v where kv: "kv = (k, v)" by fastforce
  with Cons.prems obtain ds where ds: "get_deps k v = Inr ds" by (auto split: sum.splits)
  let ?t1 = "fold (\<lambda>d. ts_add T (NItem k) (NItem d)) ds ts"
  let ?t2 = "if all then ts_add T NRoot (NItem k) ?t1 else ?t1"
  have t1: "edges ?t1 = edges ts \<union> {(NItem k, NItem d) | d. d \<in> set ds}" "nodes ?t1 = Field (edges ?t1)"
    using fold_add [OF assms(1), of "NItem k" NItem ds ts] Cons.prems(2) by (auto simp: Field_Un)
  have add: "nodes (ts_add T NRoot (NItem k) ?t1) = insert NRoot (insert (NItem k) (nodes ?t1))"
    "edges (ts_add T NRoot (NItem k) ?t1) = insert (NRoot, NItem k) (edges ?t1)"
    using assms(1) by (simp_all add: ts_laws_def)
  have t2: "edges ?t2 = edges ?t1 \<union> root_edges (if all then {k} else {})" "nodes ?t2 = Field (edges ?t2)"
    using add t1(2) by (auto simp: root_edges_def Field_insert)
  have "ts_fill T get_deps all kvs ?t2 = Inr ts'" using Cons.prems(1) kv ds by (simp add: Let_def)
  note IH = Cons.IH [OF this t2(2)]
  have "dep_rel (kv # kvs) get_deps = {(k, d) | d. d \<in> set ds} \<union> dep_rel kvs get_deps"
    using kv ds by (auto simp: dep_rel_def)
  with IH t1(1) t2(1) kv show ?case
    by (auto simp: item_edges_def root_edges_def)
qed

lemma ts_roots_graph:
  assumes "ts_laws T nodes edges" "nodes ts = Field (edges ts)"
  shows "edges (ts_roots T root ts) = edges ts \<union> root_edges (case root of RootAll \<Rightarrow> {} | RootKey ks \<Rightarrow> set ks)"
    "nodes (ts_roots T root ts) = Field (edges (ts_roots T root ts))"
  using fold_add [OF assms(1), of NRoot NItem _ ts] assms(2)
  by (auto simp: ts_roots_def root_edges_def Field_Un split: root_type.splits)

fun first_dep_error :: "('k \<times> 'v) list \<Rightarrow> ('k \<Rightarrow> 'v \<Rightarrow> 'e + 'k list) \<Rightarrow> 'e option" where
  "first_dep_error [] get_deps = None"
| "first_dep_error ((k, v) # kvs) get_deps =
     (case get_deps k v of Inl e \<Rightarrow> Some e | Inr ds \<Rightarrow> first_dep_error kvs get_deps)"

lemma ts_fill_error:
  "first_dep_error kvs get_deps = Some e \<Longrightarrow> ts_fill T get_deps all kvs ts = Inl e"
  "first_dep_error kvs get_deps = None \<Longrightarrow> \<exists>ts'. ts_fill T get_deps all kvs ts = Inr ts'"
  by (induction kvs arbitrary: ts) (auto simp: Let_def split: sum.splits)

section \<open>Popping\<close>

definition node_items :: "'k node list \<Rightarrow> 'k list" where
  "node_items ps = concat (map (\<lambda>n. case n of NItem k \<Rightarrow> [k] | NRoot \<Rightarrow> []) ps)"

lemma node_items_simps [simp]:
  "node_items [] = []" "node_items (NItem k # ps) = k # node_items ps" "node_items (NRoot # ps) = node_items ps"
  "node_items (xs @ ys) = node_items xs @ node_items ys"
  by (simp_all add: node_items_def)

lemma set_node_items: "k \<in> set (node_items ps) \<longleftrightarrow> NItem k \<in> set ps"
  by (auto simp: node_items_def split: node.splits)

lemma distinct_node_items: "distinct ps \<Longrightarrow> distinct (node_items ps)"
proof (induction ps)
  case (Cons n ps)
  then show ?case by (cases n) (simp_all add: set_node_items)
qed simp

text \<open>\<open>precedes xs a b\<close>: \<open>a\<close> stands before some occurrence of \<open>b\<close>.\<close>

definition precedes :: "'a list \<Rightarrow> 'a \<Rightarrow> 'a \<Rightarrow> bool" where
  "precedes xs a b \<longleftrightarrow> (\<exists>us vs. xs = us @ b # vs \<and> a \<in> set us)"

lemma precedes_Cons: "precedes xs a b \<Longrightarrow> precedes (x # xs) a b"
  unfolding precedes_def by (metis append_Cons list.set_intros(2))

lemma precedes_hd: "b \<in> set xs \<Longrightarrow> precedes (a # xs) a b"
  unfolding precedes_def by (metis append_Cons in_set_conv_decomp list.set_intros(1))

text \<open>What popping until nothing can be popped gives: the popped nodes in order, \<open>ps\<close>, and what is left.\<close>

definition drained ::
  "('t \<Rightarrow> 'n set) \<Rightarrow> ('t \<Rightarrow> ('n \<times> 'n) set) \<Rightarrow> 't \<Rightarrow> 'n list \<Rightarrow> 't \<Rightarrow> bool" where
  "drained nodes edges ts ps ts' \<longleftrightarrow>
     distinct ps \<and> set ps \<subseteq> nodes ts \<and> nodes ts' = nodes ts - set ps \<and>
     (\<forall>(a, b) \<in> edges ts. b \<in> set ps \<longrightarrow> precedes ps a b) \<and>
     edges ts' = {e \<in> edges ts. fst e \<notin> set ps} \<and> (\<forall>n \<in> nodes ts'. \<exists>p. (p, n) \<in> edges ts')"

lemma drained_Cons:
  assumes "ts_laws T nodes edges" "ts_pop T ts = (Some n, ts1)" "drained nodes edges ts1 ps ts'"
  shows "drained nodes edges ts (n # ps) ts'"
proof -
  have n: "n \<in> nodes ts" "\<And>p. (p, n) \<notin> edges ts" "nodes ts1 = nodes ts - {n}"
    "edges ts1 = {e \<in> edges ts. fst e \<noteq> n}"
    using assms(1,2) unfolding ts_laws_def by blast+
  have "precedes (n # ps) a b" if e: "(a, b) \<in> edges ts" and "b \<in> set (n # ps)" for a b
  proof -
    have b: "b \<in> set ps" using that n(2) by auto
    show ?thesis
    proof (cases "a = n")
      case True
      with b show ?thesis by (simp add: precedes_hd)
    next
      case False
      with e n(4) have "(a, b) \<in> edges ts1" by simp
      with assms(3) b have "precedes ps a b" unfolding drained_def by blast
      then show ?thesis by (rule precedes_Cons)
    qed
  qed
  with assms(3) n show ?thesis by (auto simp: drained_def)
qed

lemma ts_drain_drained:
  assumes "ts_laws T nodes edges"
  shows "finite (nodes ts) \<Longrightarrow>
    \<exists>ps ts'. ts_drain T ts list = Some (rev (node_items ps) @ list, ts') \<and> drained nodes edges ts ps ts'"
proof (induction "card (nodes ts)" arbitrary: ts list rule: less_induct)
  case less
  obtain r ts1 where p: "ts_pop T ts = (r, ts1)" by fastforce
  show ?case
  proof (cases r)
    case None
    with p assms have "ts1 = ts" "\<forall>n \<in> nodes ts. \<exists>p. (p, n) \<in> edges ts" unfolding ts_laws_def by blast+
    then have "ts_drain T ts list = Some (rev (node_items []) @ list, ts)" "drained nodes edges ts [] ts"
      using p None by (subst ts_drain.simps, simp, simp add: drained_def)
    then show ?thesis by blast
  next
    case (Some n)
    with p assms have n: "n \<in> nodes ts" "nodes ts1 = nodes ts - {n}" unfolding ts_laws_def by blast+
    have lt: "card (nodes ts1) < card (nodes ts)" "finite (nodes ts1)"
      using card_Diff1_less [OF less.prems n(1)] less.prems by (simp_all only: n(2) finite_Diff)
    let ?l = "case n of NItem k \<Rightarrow> k # list | NRoot \<Rightarrow> list"
    obtain ps ts' where d: "ts_drain T ts1 ?l = Some (rev (node_items ps) @ ?l, ts')" "drained nodes edges ts1 ps ts'"
      using less.hyps [OF lt] by blast
    have "ts_drain T ts list = Some (rev (node_items (n # ps)) @ list, ts')"
      using p Some d(1) by (subst ts_drain.simps) (simp split: node.splits)
    with drained_Cons [OF assms p [unfolded Some] d(2)] show ?thesis by blast
  qed
qed

section \<open>Cycles\<close>

lemma item_edges_trancl:
  assumes "(a, b) \<in> (item_edges D \<union> root_edges R)\<^sup>+"
  shows "\<exists>y. b = NItem y \<and> (\<forall>x. a = NItem x \<longrightarrow> (x, y) \<in> D\<^sup>+)"
  using assms
proof (induction rule: trancl_induct)
  case (base b)
  then show ?case by (auto simp: item_edges_def root_edges_def)
next
  case (step b c)
  then obtain y where y: "b = NItem y" "\<forall>x. a = NItem x \<longrightarrow> (x, y) \<in> D\<^sup>+" by blast
  with step.hyps(2) obtain z where "c = NItem z" "(y, z) \<in> D" by (auto simp: item_edges_def root_edges_def)
  with y(2) show ?case by (auto intro: trancl_into_trancl)
qed

lemma acyclic_item_edges: "acyclic (item_edges D \<union> root_edges R) \<longleftrightarrow> acyclic D"
proof
  assume "acyclic D"
  then show "acyclic (item_edges D \<union> root_edges R)"
    unfolding acyclic_def using item_edges_trancl by fastforce
next
  assume ac: "acyclic (item_edges D \<union> root_edges R)"
  have "(NItem x, NItem y) \<in> (item_edges D \<union> root_edges R)\<^sup>+" if "(x, y) \<in> D\<^sup>+" for x y
    using that
  proof (induction rule: trancl_induct)
    case (step y z)
    then have "(NItem y, NItem z) \<in> item_edges D \<union> root_edges R" by (simp add: item_edges_def)
    with step.IH show ?case by (rule trancl_into_trancl)
  qed (auto simp: item_edges_def)
  with ac show "acyclic D" unfolding acyclic_def by blast
qed

text \<open>Everything can be popped exactly when there is no cycle.\<close>

lemma drained_empty_iff:
  assumes "drained nodes edges ts ps ts'" "finite (nodes ts)" "nodes ts = Field (edges ts)"
  shows "nodes ts' = {} \<longleftrightarrow> acyclic (edges ts)"
proof
  assume "nodes ts' = {}"
  with assms(1) have all: "set ps = nodes ts" by (auto simp: drained_def)
  let ?pos = "\<lambda>n. length (takeWhile (\<lambda>m. m \<noteq> n) ps)"
  have "?pos a < ?pos b" if "(a, b) \<in> edges ts" for a b
  proof -
    have "b \<in> set ps" using that all assms(3) by (auto simp: Field_def)
    with that assms(1) have "precedes ps a b" "distinct ps" unfolding drained_def by blast+
    then obtain us vs where u: "ps = us @ b # vs" "a \<in> set us" "b \<notin> set us" by (auto simp: precedes_def)
    then have "takeWhile (\<lambda>m. m \<noteq> b) ps = us" by (auto simp: takeWhile_append)
    moreover obtain xs ys where "us = xs @ a # ys" "a \<notin> set xs" using split_list_first [OF u(2)] by blast
    then have "takeWhile (\<lambda>m. m \<noteq> a) ps = xs" using u(1) by (auto simp: takeWhile_append)
    ultimately show ?thesis using \<open>us = xs @ a # ys\<close> by simp
  qed
  then have "acyclic ((edges ts)\<inverse>)" by (intro acyclicI_order [of _ ?pos]) auto
  then show "acyclic (edges ts)" by simp
next
  assume ac: "acyclic (edges ts)"
  have "edges ts \<subseteq> nodes ts \<times> nodes ts" using assms(3) by (auto simp: Field_def)
  then have "finite (edges ts)" using assms(2) by (meson finite_SigmaI finite_subset)
  then have wf: "wf (edges ts)" using ac by (rule finite_acyclic_wf)
  show "nodes ts' = {}"
  proof (rule ccontr)
    assume "nodes ts' \<noteq> {}"
    then obtain n where n: "n \<in> nodes ts'" "\<And>m. (m, n) \<in> edges ts \<Longrightarrow> m \<notin> nodes ts'"
      using wf unfolding wf_eq_minimal by blast
    then obtain p where "(p, n) \<in> edges ts'" using assms(1) unfolding drained_def by blast
    with assms(1,3) have "(p, n) \<in> edges ts" "p \<in> nodes ts'" by (auto simp: drained_def Field_def)
    with n(2) show False by blast
  qed
qed

section \<open>The graph of the entries\<close>

lemma finite_dep_rel: "finite (dep_rel entries get_deps)"
proof -
  have "dep_rel entries get_deps \<subseteq>
      (\<Union>(k, v) \<in> set entries. case get_deps k v of Inl e \<Rightarrow> {} | Inr ds \<Rightarrow> {k} \<times> set ds)"
    by (force simp: dep_rel_def)
  moreover have "finite (\<Union>(k, v) \<in> set entries. case get_deps k v of Inl e \<Rightarrow> {} | Inr ds \<Rightarrow> {k} \<times> set ds)"
    by (auto split: sum.splits)
  ultimately show ?thesis by (rule finite_subset)
qed

lemma finite_graph: "finite D \<Longrightarrow> finite R \<Longrightarrow> finite (Field (item_edges D \<union> root_edges R))"
proof -
  have "item_edges D = (\<lambda>(k, d). (NItem k, NItem d)) ` D" "root_edges R = (\<lambda>k. (NRoot, NItem k)) ` R"
    by (auto simp: item_edges_def root_edges_def)
  then show "finite D \<Longrightarrow> finite R \<Longrightarrow> ?thesis" by (simp add: finite_Field)
qed

lemma item_in_Field: "NItem k \<in> Field (item_edges D \<union> root_edges R) \<longleftrightarrow> k \<in> Field D \<union> R"
  by (auto simp: Field_def Domain_iff Range_iff item_edges_def root_edges_def)

section \<open>Taking\<close>

lemma ts_take_distinct:
  "distinct ks \<Longrightarrow> ts_take ks m = map (\<lambda>k. (k, the (m k))) (filter (\<lambda>k. m k \<noteq> None) ks)"
proof (induction ks arbitrary: m)
  case (Cons k ks)
  then have "ts_take ks (m(k := None)) = map (\<lambda>k. (k, the (m k))) (filter (\<lambda>k. m k \<noteq> None) ks)"
    by (simp only: distinct.simps) (intro map_cong filter_cong refl, auto)
  with Cons show ?case by (auto split: option.splits)
qed simp

lemma precedes_node_items:
  assumes "distinct ps" "precedes ps (NItem a) (NItem b)" "rev (node_items ps) = us @ a # vs"
  shows "b \<in> set us"
proof -
  obtain xs ys where p: "ps = xs @ NItem b # ys" "NItem a \<in> set xs" using assms(2) by (auto simp: precedes_def)
  have a: "a \<in> set (node_items xs)" using p(2) by (simp add: set_node_items)
  have r: "(rev (node_items ys) @ [b]) @ rev (node_items xs) = us @ a # vs" using assms(3) p(1) by simp
  have n: "a \<notin> set (rev (node_items ys) @ [b])"
    using distinct_node_items [OF assms(1)] p(1) a by auto
  from r obtain zs where "us = (rev (node_items ys) @ [b]) @ zs \<or>
      (rev (node_items ys) @ [b] = us @ zs \<and> zs @ rev (node_items xs) = a # vs)"
    unfolding append_eq_append_conv2 by blast
  then show ?thesis
  proof
    assume "rev (node_items ys) @ [b] = us @ zs \<and> zs @ rev (node_items xs) = a # vs"
    then have "a \<notin> set zs" "rev (node_items ys) @ [b] = us @ zs" "zs @ rev (node_items xs) = a # vs"
      using n by (metis Un_iff set_append)+
    then have "zs = []" by (cases zs) simp_all
    with \<open>rev (node_items ys) @ [b] = us @ zs\<close> show ?thesis by (metis append_Nil2 in_set_conv_decomp)
  qed simp
qed

lemma filter_append_split:
  "filter P xs = ys @ zs \<Longrightarrow> \<exists>us vs. xs = us @ vs \<and> filter P us = ys \<and> filter P vs = zs"
proof (induction xs arbitrary: ys)
  case (Cons x xs)
  show ?case
  proof (cases "P x \<and> ys = []")
    case True
    with Cons.prems show ?thesis by (intro exI [of _ "[]"] exI [of _ "x # xs"]) simp
  next
    case False
    then obtain ys' where "filter P xs = ys' @ zs" "filter P [x] @ ys' = ys"
      using Cons.prems by (cases ys) (auto split: if_splits)
    with Cons.IH obtain us vs where "xs = us @ vs" "filter P us = ys'" "filter P vs = zs" by blast
    with \<open>filter P [x] @ ys' = ys\<close> show ?thesis by (intro exI [of _ "x # us"] exI [of _ vs]) auto
  qed
qed simp

text \<open>What the list promises.\<close>

definition sorted_list ::
  "'k root_type \<Rightarrow> ('k \<times> 'v) list \<Rightarrow> ('k \<Rightarrow> 'v \<Rightarrow> 'e + 'k list) \<Rightarrow> ('k \<times> 'v) list \<Rightarrow> bool" where
  "sorted_list root entries get_deps l \<longleftrightarrow>
     distinct (map fst l) \<and>
     set l = {(k, v) \<in> set entries. k \<in> sorted_keys root entries get_deps} \<and>
     (\<forall>us k v vs d. l = us @ (k, v) # vs \<longrightarrow> (k, d) \<in> dep_rel entries get_deps \<longrightarrow>
        d \<in> fst ` set entries \<longrightarrow> d \<in> fst ` set us)"

lemma sorted_listI:
  assumes "distinct (map fst entries)" "distinct ps"
    and keys: "\<And>k. NItem k \<in> set ps \<longleftrightarrow> k \<in> sorted_keys root entries get_deps"
    and order: "\<And>k d. (k, d) \<in> dep_rel entries get_deps \<Longrightarrow> precedes ps (NItem k) (NItem d)"
  shows "sorted_list root entries get_deps (ts_take (rev (node_items ps)) (map_of entries))"
proof -
  let ?ks = "rev (node_items ps)" and ?P = "\<lambda>k. map_of entries k \<noteq> None"
  have dist: "distinct ?ks" using distinct_node_items [OF assms(2)] by simp
  let ?l = "ts_take ?ks (map_of entries)"
  have l: "?l = map (\<lambda>k. (k, the (map_of entries k))) (filter ?P ?ks)" by (rule ts_take_distinct [OF dist])
  then have fst_l: "map fst ?l = filter ?P ?ks" by (simp add: comp_def)
  have "set ?l = {(k, v) \<in> set entries. k \<in> sorted_keys root entries get_deps}"
    using assms(1) by (auto simp: l set_node_items keys intro!: image_eqI dest: map_of_SomeD)
  moreover have "d \<in> fst ` set us"
    if us: "?l = us @ (k, v) # vs" and kd: "(k, d) \<in> dep_rel entries get_deps" and "d \<in> fst ` set entries" for us k v vs d
  proof -
    have "filter ?P ?ks = map fst us @ k # map fst vs" using fst_l us by simp
    then obtain as bs where a: "?ks = as @ bs" "filter ?P as = map fst us" "filter ?P bs = k # map fst vs"
      using filter_append_split by metis
    then obtain cs ds where c: "bs = cs @ k # ds" "\<forall>u \<in> set cs. \<not> ?P u" unfolding filter_eq_Cons_iff by blast
    have "d \<in> set (as @ cs)"
      by (rule precedes_node_items [OF assms(2) order [OF kd], of _ ds]) (use a c in simp)
    moreover have "?P d" using that(3) by (simp add: map_of_eq_None_iff)
    ultimately have "d \<in> set (filter ?P as)" using c(2) by auto
    with a(2) show ?thesis by simp
  qed
  ultimately show ?thesis using dist unfolding sorted_list_def fst_l by auto
qed

section \<open>Properties\<close>

text \<open>Filling, popping and taking together, when no dependency fails.\<close>

lemma topological_sort_ok:
  assumes "ts_laws T nodes edges" "distinct (map fst entries)" and None: "first_dep_error entries get_deps = None"
  shows "\<exists>l. topological_sort T root entries get_deps =
      Some (Inr (if acyclic (dep_rel entries get_deps) then Some l else None)) \<and>
    (acyclic (dep_rel entries get_deps) \<longrightarrow> sorted_list root entries get_deps l)"
proof -
  let ?D = "dep_rel entries get_deps"
  let ?R = "case root of RootAll \<Rightarrow> fst ` set entries | RootKey ks \<Rightarrow> set ks"
  obtain ts where fill: "ts_fill T get_deps (root = RootAll) entries (ts_new T) = Inr ts"
    using ts_fill_error(2) [OF None, of T "root = RootAll" "ts_new T"] by blast
  have "nodes (ts_new T) = Field (edges (ts_new T))" using assms(1) by (simp add: ts_laws_def)
  from ts_fill_graph [OF assms(1) fill this] assms(1)
  have g: "edges ts = item_edges ?D \<union> root_edges (if root = RootAll then fst ` set entries else {})"
    "nodes ts = Field (edges ts)" by (simp_all add: ts_laws_def)
  define t where "t = ts_roots T root ts"
  have e: "edges t = item_edges ?D \<union> root_edges ?R" "nodes t = Field (edges t)"
    using ts_roots_graph [OF assms(1) g(2), of root] g(1) unfolding t_def
    by (auto simp: root_edges_def split: root_type.splits)
  have "finite ?R" by (simp split: root_type.splits)
  then have fin: "finite (nodes t)" unfolding e by (intro finite_graph finite_dep_rel)
  obtain ps ts' where d: "ts_drain T t [] = Some (rev (node_items ps), ts')" "drained nodes edges t ps ts'"
    using ts_drain_drained [OF assms(1) fin, of "[]"] by auto
  have iff: "ts_is_empty T ts' \<longleftrightarrow> acyclic ?D"
    using drained_empty_iff [OF d(2) fin e(2)] assms(1) unfolding e(1) acyclic_item_edges by (simp add: ts_laws_def)
  define l where "l = ts_take (rev (node_items ps)) (map_of entries)"
  have res: "topological_sort T root entries get_deps = Some (Inr (if acyclic ?D then Some l else None))"
    using fill d(1) iff by (simp add: topological_sort_def t_def l_def)
  have "acyclic ?D \<Longrightarrow> sorted_list root entries get_deps l"
    unfolding l_def
  proof (rule sorted_listI [OF assms(2), of ps])
    assume "acyclic ?D"
    then have ps: "set ps = nodes t"
      using d(2) drained_empty_iff [OF d(2) fin e(2)] unfolding e(1) acyclic_item_edges by (auto simp: drained_def)
    show "distinct ps" using d(2) by (simp add: drained_def)
    show "NItem k \<in> set ps \<longleftrightarrow> k \<in> sorted_keys root entries get_deps" for k
      unfolding ps e item_in_Field sorted_keys_def ..
    show "precedes ps (NItem k) (NItem d)" if "(k, d) \<in> ?D" for k d
    proof -
      have "(NItem k, NItem d) \<in> edges t" using that e(1) by (simp add: item_edges_def)
      moreover from this have "NItem d \<in> set ps" unfolding ps e(2) by (rule FieldI2)
      ultimately show ?thesis using d(2) unfolding drained_def by blast
    qed
  qed
  with res show ?thesis by blast
qed

text \<open>C39: sorting returns. The first error of \<open>get_deps\<close> is the result; without one the result
  is \<open>None\<close> exactly when dependencies form a cycle, and otherwise a list that holds every item at most once,
  exactly the items that are roots, have dependencies or are dependencies, with their values, the
  dependencies of an item that are items before it.\<close>

theorem topological_sort_correct:
  assumes "ts_laws T nodes edges" "distinct (map fst entries)"
  shows "let res = topological_sort T root entries get_deps; D = dep_rel entries get_deps
    in case first_dep_error entries get_deps of
         Some e \<Rightarrow> res = Some (Inl e)
       | None \<Rightarrow>
           if acyclic D
           then \<exists>l. res = Some (Inr (Some l)) \<and> sorted_list root entries get_deps l
           else res = Some (Inr None)"
proof (cases "first_dep_error entries get_deps")
  case (Some e)
  then show ?thesis by (simp add: topological_sort_def ts_fill_error(1))
next
  case None
  with topological_sort_ok [OF assms None, of root] show ?thesis by (auto simp: Let_def)
qed

text \<open>With roots given, an item no root depends on is returned all the same when it has dependencies.\<close>

lemma unrelated_item_returned:
  assumes "ts_laws T nodes edges" "distinct (map fst entries)" "first_dep_error entries get_deps = None"
    and "acyclic (dep_rel entries get_deps)" "(k, v) \<in> set entries" "get_deps k v = Inr (d # ds)"
  shows "\<exists>l. topological_sort T (RootKey ks) entries get_deps = Some (Inr (Some l)) \<and> (k, v) \<in> set l"
proof -
  have "(k, d) \<in> dep_rel entries get_deps" using assms(5,6) by (auto simp: dep_rel_def)
  then have "k \<in> sorted_keys (RootKey ks) entries get_deps" by (auto simp: sorted_keys_def Field_def)
  with topological_sort_ok [OF assms(1-3), of "RootKey ks"] assms(4,5) show ?thesis
    by (auto simp: sorted_list_def)
qed

section \<open>Witnesses\<close>

text \<open>The crate's data structure as lists of nodes and edges.\<close>

definition list_ts :: "('n, 'n list \<times> ('n \<times> 'n) list) ts_ops" where
  "list_ts =
     \<lparr>ts_new = ([], []),
      ts_add = (\<lambda>p s (ns, es). (p # s # ns, (p, s) # es)),
      ts_pop = (\<lambda>(ns, es).
        case find (\<lambda>n. n \<notin> snd ` set es) ns of
          None \<Rightarrow> (None, ns, es)
        | Some n \<Rightarrow> (Some n, filter (\<lambda>m. m \<noteq> n) ns, filter (\<lambda>e. fst e \<noteq> n) es)),
      ts_is_empty = (\<lambda>(ns, es). ns = [])\<rparr>"

lemma list_ts_laws: "ts_laws list_ts (\<lambda>ts. set (fst ts)) (\<lambda>ts. set (snd ts))"
  unfolding ts_laws_def list_ts_def
  by (auto simp: find_None_iff find_Some_iff split: option.splits) force+

definition demo_deps :: "string \<Rightarrow> nat \<Rightarrow> unit + string list" where
  "demo_deps k v = (if k = ''a'' then Inr [''b''] else Inr [])"

lemma topological_sort_witness:
  "first_dep_error [(''a'', 1), (''b'', 2)] demo_deps = None \<and>
   (\<exists>l. topological_sort list_ts RootAll [(''a'', 1), (''b'', 2)] demo_deps = Some (Inr (Some l)) \<and>
      sorted_list RootAll [(''a'', 1), (''b'', 2)] demo_deps l)"
proof -
  let ?es = "[(''a'', 1), (''b'', 2)]"
  have "dep_rel ?es demo_deps = {(''a'', ''b'')}" by (auto simp: dep_rel_def demo_deps_def split: if_splits)
  moreover have "acyclic {(''a'', ''b'')}"
    by (rule acyclicI_order [of _ "\<lambda>k. if k = ''a'' then 1 else (0 :: nat)"]) simp
  moreover have e: "first_dep_error ?es demo_deps = None" by (simp add: demo_deps_def)
  ultimately show ?thesis
    using topological_sort_correct [OF list_ts_laws, of ?es RootAll demo_deps] by simp
qed

end
