(* ===== verification/RD_Tls.thy ===== *)
theory RD_Tls
  imports RD_Http
begin

text \<open>
  The three TLS backends, \<^verbatim>\<open>rd-std/src/tls/rustls.rs\<close>, \<^verbatim>\<open>openssl.rs\<close> and \<^verbatim>\<open>native-tls.rs\<close>: making a connector from
  \<open>TlsConnectorConfig\<close>, and connecting with it. One of them is compiled in; the net that uses it is \<open>tls_prog\<close> of \<^verbatim>\<open>RD_Http\<close>.

  The crates are parameters, with the error texts they give. The lemmas: a backend asks for no check of the certificate only
  when \<open>skip_cert_verify\<close> is set; otherwise a stream of the net is one whose certificate was
  checked against the name configured, or the host asked for.
\<close>

section \<open>rustls\<close>

text \<open>Who checks the certificate: the roots of the crate \<open>webpki_roots\<close>, or nobody.\<close>

datatype 'r cert_check = CheckRoots 'r | AllowAnyCert

record ('r, 'c, 'nm, 'h) rustls_ops =
  rl_roots :: 'r
  rl_webpki :: "'r \<Rightarrow> 'c \<Rightarrow> 'nm \<Rightarrow> bool"
  rl_server_name :: "string \<Rightarrow> string + 'nm"
  rl_handshake :: "('c \<Rightarrow> 'nm \<Rightarrow> bool) \<Rightarrow> 'nm \<Rightarrow> 'h item \<Rightarrow> io_error + 'h item"

definition verify_server_cert :: "('r, 'c, 'nm, 'h) rustls_ops \<Rightarrow> 'r cert_check \<Rightarrow> 'c \<Rightarrow> 'nm \<Rightarrow> bool" where
  "verify_server_cert R chk cert nm =
     (case chk of AllowAnyCert \<Rightarrow> True | CheckRoots r \<Rightarrow> rl_webpki R r cert nm)"

definition rustls_new :: "('r, 'c, 'nm, 'h) rustls_ops \<Rightarrow> bool \<Rightarrow> error + 'r cert_check" where
  "rustls_new R skip_cert_verify = Inr (if skip_cert_verify then AllowAnyCert else CheckRoots (rl_roots R))"

definition rustls_connect ::
  "('r, 'c, 'nm, 'h) rustls_ops \<Rightarrow> 'r cert_check \<Rightarrow> string \<Rightarrow> 'h item \<Rightarrow> error + 'h item" where
  "rustls_connect R chk domain stream =
     (case rl_server_name R domain of
        Inl e \<Rightarrow> Inl (Other e)
      | Inr nm \<Rightarrow> map_err IO (rl_handshake R (verify_server_cert R chk) nm stream))"

section \<open>openssl\<close>

record ('b, 'k, 'g, 'ssl, 'st, 'h) openssl_ops =
  ol_builder :: "string + 'b"
  ol_set_verify_none :: "'b \<Rightarrow> 'b"
  ol_build :: "'b \<Rightarrow> 'k"
  ol_configure :: "'k \<Rightarrow> string + 'g"
  ol_into_ssl :: "'g \<Rightarrow> string \<Rightarrow> string + 'ssl"
  ol_stream :: "'ssl \<Rightarrow> 'h item \<Rightarrow> string + 'st"
  ol_connect :: "'st \<Rightarrow> string + 'h item"

definition openssl_new :: "('b, 'k, 'g, 'ssl, 'st, 'h) openssl_ops \<Rightarrow> bool \<Rightarrow> error + 'k" where
  "openssl_new L skip_cert_verify =
     and_then (map_err Other (ol_builder L)) (\<lambda>builder.
       Inr (ol_build L (if skip_cert_verify then ol_set_verify_none L builder else builder)))"

definition openssl_connect ::
  "('b, 'k, 'g, 'ssl, 'st, 'h) openssl_ops \<Rightarrow> 'k \<Rightarrow> string \<Rightarrow> 'h item \<Rightarrow> error + 'h item" where
  "openssl_connect L k domain stream =
     and_then (map_err Other (ol_configure L k)) (\<lambda>g.
     and_then (map_err Other (ol_into_ssl L g domain)) (\<lambda>ssl.
     and_then (map_err Other (ol_stream L ssl stream)) (\<lambda>st.
     map_err Other (ol_connect L st))))"

section \<open>native-tls\<close>

record ('b, 'k, 'h) native_tls_ops =
  nt_builder :: 'b
  nt_accept_invalid_certs :: "'b \<Rightarrow> 'b"
  nt_build :: "'b \<Rightarrow> string + 'k"
  nt_connect :: "'k \<Rightarrow> string \<Rightarrow> 'h item \<Rightarrow> string + 'h item"

definition native_tls_new :: "('b, 'k, 'h) native_tls_ops \<Rightarrow> bool \<Rightarrow> error + 'k" where
  "native_tls_new L skip_cert_verify =
     map_err Other (nt_build L
       (if skip_cert_verify then nt_accept_invalid_certs L (nt_builder L) else nt_builder L))"

definition native_tls_connect ::
  "('b, 'k, 'h) native_tls_ops \<Rightarrow> 'k \<Rightarrow> string \<Rightarrow> 'h item \<Rightarrow> error + 'h item" where
  "native_tls_connect L k domain stream = map_err Other (nt_connect L k domain stream)"

section \<open>What a connection of the net was checked for\<close>

text \<open>A stream whose handshake asked the roots about the certificate for the name; one whose openssl or native-tls
  connector was built with the verification the crate starts with, for the name.\<close>

definition rustls_checked :: "('r, 'c, 'nm, 'h) rustls_ops \<Rightarrow> 'h item \<Rightarrow> string \<Rightarrow> bool" where
  "rustls_checked R t domain \<longleftrightarrow>
     (\<exists>nm s. rl_server_name R domain = Inr nm \<and> rl_handshake R (rl_webpki R (rl_roots R)) nm s = Inr t)"

definition openssl_checked :: "('b, 'k, 'g, 'ssl, 'st, 'h) openssl_ops \<Rightarrow> 'h item \<Rightarrow> string \<Rightarrow> bool" where
  "openssl_checked L t domain \<longleftrightarrow>
     (\<exists>b g ssl s st. ol_builder L = Inr b \<and> ol_configure L (ol_build L b) = Inr g \<and>
        ol_into_ssl L g domain = Inr ssl \<and> ol_stream L ssl s = Inr st \<and> ol_connect L st = Inr t)"

definition native_tls_checked :: "('b, 'k, 'h) native_tls_ops \<Rightarrow> 'h item \<Rightarrow> string \<Rightarrow> bool" where
  "native_tls_checked L t domain \<longleftrightarrow>
     (\<exists>k s. nt_build L (nt_builder L) = Inr k \<and> nt_connect L k domain s = Inr t)"

text \<open>The contract of a backend: a stream from a connector made without \<open>skip_cert_verify\<close> was checked
  for the name it was asked for (\<open>checked\<close>).\<close>

locale tls_backend =
  fixes new :: "bool \<Rightarrow> error + 'k"
    and connect :: "'k \<Rightarrow> string \<Rightarrow> 'h item \<Rightarrow> error + 'h item"
    and checked :: "'h item \<Rightarrow> string \<Rightarrow> bool"
  assumes connect_checked: "new False = Inr k \<Longrightarrow> connect k domain s = Inr t \<Longrightarrow> checked t domain"
begin

lemma net_checked:
  assumes "new False = Inr k"
    and "run_prog cb (tls_prog (connect k) sni op a ctx x) w = Some (Inr t, ctx', w')"
  shows "checked t (case sni of Some d \<Rightarrow> d | None \<Rightarrow> addr_host a)"
  using assms connect_checked [OF assms(1)]
  by (auto simp: tls_prog_def split: option.splits sum.splits prod.splits)

end


lemma and_then_Inl_iff: "and_then r f = Inl e \<longleftrightarrow> r = Inl e \<or> (\<exists>x. r = Inr x \<and> f x = Inl e)"
  by (cases r) simp_all

lemma map_err_Inl_iff: "map_err f r = Inl e \<longleftrightarrow> (\<exists>d. r = Inl d \<and> e = f d)"
  by (cases r) auto

interpretation rustls: tls_backend "rustls_new R" "rustls_connect R" "rustls_checked R" for R
  by unfold_locales
     (auto simp: rustls_new_def rustls_connect_def rustls_checked_def verify_server_cert_def [abs_def] map_err_Inr_iff
       split: sum.splits)

interpretation openssl: tls_backend "openssl_new L" "openssl_connect L" "openssl_checked L" for L
  by unfold_locales
     (fastforce simp: openssl_new_def openssl_connect_def openssl_checked_def map_err_Inr_iff and_then_Inr_iff)

interpretation native_tls: tls_backend "native_tls_new L" "native_tls_connect L" "native_tls_checked L" for L
  by unfold_locales (auto simp: native_tls_new_def native_tls_connect_def native_tls_checked_def map_err_Inr_iff)

text \<open>A TLS net over rustls that does not skip the check gives only streams whose certificate the roots
  accepted, if the handshake of the crate succeeds only when its verifier accepts the certificate of the peer.\<close>

lemma tls_net_verified:
  assumes "\<And>v nm s t. rl_handshake R v nm s = Inr t \<Longrightarrow> v (peer_cert t) nm"
    and "rustls_new R False = Inr k"
    and "run_prog cb (tls_prog (rustls_connect R k) sni op a ctx x) w = Some (Inr t, ctx', w')"
  shows "\<exists>nm. rl_server_name R (case sni of Some d \<Rightarrow> d | None \<Rightarrow> addr_host a) = Inr nm \<and>
    rl_webpki R (rl_roots R) (peer_cert t) nm"
  using rustls.net_checked [OF assms(2,3)] assms(1) by (auto simp: rustls_checked_def)

text \<open>A failure of the TLS library is an error of kind \<open>Other\<close>; with rustls, one of the handshake is an
  I/O error.\<close>

lemma tls_connect_errors:
  "openssl_connect L k domain s = Inl e \<Longrightarrow> \<exists>msg. e = Other msg"
  "native_tls_connect M j domain s = Inl e \<Longrightarrow> \<exists>msg. e = Other msg"
  "rustls_connect R chk domain s = Inl e \<Longrightarrow> (\<exists>msg. e = Other msg) \<or> (\<exists>i. e = IO i)"
  by (auto simp: openssl_connect_def native_tls_connect_def rustls_connect_def and_then_Inl_iff map_err_Inl_iff
      split: sum.split_asm)

end
