(* ===== verification/RD_TestNet.thy ===== *)
theory RD_TestNet
  imports RD_CompactVec RD_Address
begin

text \<open>
  The in-memory network of \<^verbatim>\<open>rd-std/src/tests/net.rs\<close> with its channels, \<^verbatim>\<open>tests/channel.rs\<close>, on which the
  components of \<^verbatim>\<open>rd-std\<close> are tested.

  A channel is the bounded channel of tokio with its one \<open>PollSender\<close>: a queue, what the sender has reserved, and which ends are
  still held. The two ends of a pipe name their channels by number; the channels live in stores, one per type of
  item. The lock of the net is free, or held by a \<open>tcp_connect\<close> that waits for room in the queue of
  a listener; an operation that needs the lock meanwhile is pending. How many
  bytes the first slice of a \<open>VecDeque\<close> has is not fixed: it is any number but zero.

  The lemmas: ports hold what their protocol says, a bind never takes a port that is in use, and
  the two ends of a connection are crossed and deliver their bytes in order.
\<close>

section \<open>Channels\<close>

datatype sender_state = SenderIdle | SenderReserved | SenderClosed

record 'v mpsc =
  mp_queue :: "'v list"
  mp_sender :: sender_state
  mp_main :: bool
  mp_receiver :: bool

definition mpsc_new :: "'v mpsc" where
  "mpsc_new = \<lparr>mp_queue = [], mp_sender = SenderIdle, mp_main = True, mp_receiver = True\<rparr>"

definition mpsc_capacity :: nat where
  "mpsc_capacity = 10"

text \<open>The sender: results are \<open>True\<close> for success; sending without a reserved slot is a panic.\<close>

definition mp_poll_ready :: "'v mpsc \<Rightarrow> bool poll \<times> 'v mpsc" where
  "mp_poll_ready c =
     (case mp_sender c of
        SenderClosed \<Rightarrow> (Ready False, c)
      | SenderReserved \<Rightarrow> (Ready True, c)
      | SenderIdle \<Rightarrow>
          if \<not> mp_receiver c then (Ready False, c\<lparr>mp_sender := SenderClosed\<rparr>)
          else if length (mp_queue c) < mpsc_capacity then (Ready True, c\<lparr>mp_sender := SenderReserved\<rparr>)
          else (Pending, c))"

definition mp_start_send :: "'v \<Rightarrow> 'v mpsc \<Rightarrow> bool outcome \<times> 'v mpsc" where
  "mp_start_send v c =
     (case mp_sender c of
        SenderReserved \<Rightarrow>
          (Ret True,
           c\<lparr>mp_queue := (if mp_receiver c then mp_queue c @ [v] else mp_queue c),
             mp_sender := (if mp_main c then SenderIdle else SenderClosed)\<rparr>)
      | SenderClosed \<Rightarrow> (Ret False, c)
      | SenderIdle \<Rightarrow> (Panic, c))"

definition mp_poll_flush :: "'v mpsc \<Rightarrow> bool poll \<times> 'v mpsc" where
  "mp_poll_flush c = (Ready True, c)"

definition mp_poll_close :: "'v mpsc \<Rightarrow> bool poll \<times> 'v mpsc" where
  "mp_poll_close c =
     (Ready True,
      c\<lparr>mp_main := False, mp_sender := (if mp_sender c = SenderReserved then SenderReserved else SenderClosed)\<rparr>)"

definition mp_is_closed :: "'v mpsc \<Rightarrow> bool" where
  "mp_is_closed c \<longleftrightarrow> mp_sender c = SenderClosed \<or> \<not> mp_main c \<or> \<not> mp_receiver c"

definition mp_poll_recv :: "'v mpsc \<Rightarrow> 'v option poll \<times> 'v mpsc" where
  "mp_poll_recv c =
     (case mp_queue c of
        v # vs \<Rightarrow> (Ready (Some v), c\<lparr>mp_queue := vs\<rparr>)
      | [] \<Rightarrow> (if mp_sender c = SenderClosed \<and> \<not> mp_main c then Ready None else Pending, c))"

definition mp_drop_sender :: "'v mpsc \<Rightarrow> 'v mpsc" where
  "mp_drop_sender c = c\<lparr>mp_sender := SenderClosed, mp_main := False\<rparr>"

definition mp_drop_receiver :: "'v mpsc \<Rightarrow> 'v mpsc" where
  "mp_drop_receiver c = c\<lparr>mp_receiver := False, mp_queue := []\<rparr>"

text \<open>\<open>Channel\<close>: the sender of one channel and the receiver of another; its field \<open>buf\<close> is never
  used.\<close>

record 'v chans =
  cs_next :: nat
  cs_chan :: "nat \<Rightarrow> 'v mpsc"

record chan_end =
  ce_sender :: nat
  ce_receiver :: nat

definition on_chan :: "nat \<Rightarrow> ('v mpsc \<Rightarrow> 'a \<times> 'v mpsc) \<Rightarrow> 'v chans \<Rightarrow> 'a \<times> 'v chans" where
  "on_chan i f cs = (case f (cs_chan cs i) of (r, c) \<Rightarrow> (r, cs\<lparr>cs_chan := (cs_chan cs)(i := c)\<rparr>))"

definition channel_new :: "'v chans \<Rightarrow> (chan_end \<times> chan_end) \<times> 'v chans" where
  "channel_new cs =
     (let i = cs_next cs; j = Suc i
      in ((\<lparr>ce_sender = i, ce_receiver = j\<rparr>, \<lparr>ce_sender = j, ce_receiver = i\<rparr>),
          \<lparr>cs_next = Suc j, cs_chan = (cs_chan cs)(i := mpsc_new, j := mpsc_new)\<rparr>))"

definition ch_is_closed :: "chan_end \<Rightarrow> 'v chans \<Rightarrow> bool" where
  "ch_is_closed e cs \<longleftrightarrow> mp_is_closed (cs_chan cs (ce_sender e))"

definition ch_poll_next :: "chan_end \<Rightarrow> 'v chans \<Rightarrow> 'v option poll \<times> 'v chans" where
  "ch_poll_next e = on_chan (ce_receiver e) mp_poll_recv"

definition ch_poll_ready :: "chan_end \<Rightarrow> 'v chans \<Rightarrow> bool poll \<times> 'v chans" where
  "ch_poll_ready e = on_chan (ce_sender e) mp_poll_ready"

definition ch_start_send :: "chan_end \<Rightarrow> 'v \<Rightarrow> 'v chans \<Rightarrow> bool outcome \<times> 'v chans" where
  "ch_start_send e v = on_chan (ce_sender e) (mp_start_send v)"

definition ch_poll_flush :: "chan_end \<Rightarrow> 'v chans \<Rightarrow> bool poll \<times> 'v chans" where
  "ch_poll_flush e = on_chan (ce_sender e) mp_poll_flush"

definition ch_poll_close :: "chan_end \<Rightarrow> 'v chans \<Rightarrow> bool poll \<times> 'v chans" where
  "ch_poll_close e = on_chan (ce_sender e) mp_poll_close"

text \<open>Dropping an end drops its sender and its receiver.\<close>

definition ch_drop :: "chan_end \<Rightarrow> 'v chans \<Rightarrow> 'v chans" where
  "ch_drop e cs =
     cs\<lparr>cs_chan := (let f = (cs_chan cs)(ce_sender e := mp_drop_sender (cs_chan cs (ce_sender e)))
                     in f(ce_receiver e := mp_drop_receiver (f (ce_receiver e))))\<rparr>"

section \<open>Streams\<close>

datatype tn_protocol = ProtoTcp | ProtoUdp

datatype port = Port tn_protocol u16

definition make_sa :: "u16 \<Rightarrow> socket_addr" where
  "make_sa p = SV4 (Ipv4 127 0 0 1) p"

fun port_into :: "port \<Rightarrow> socket_addr" where
  "port_into (Port _ p) = make_sa p"

record tcp_data =
  td_flushing :: bool
  td_buf :: "u8 list"
  td_local :: port
  td_peer :: port

record my_tcp =
  mt_chan :: chan_end
  mt_data :: tcp_data

definition td_swap :: "tcp_data \<Rightarrow> tcp_data" where
  "td_swap d = d\<lparr>td_local := td_peer d, td_peer := td_local d\<rparr>"

text \<open>\<open>Pipe::new\<close> for a stream.\<close>

definition pipe_tcp :: "tcp_data \<Rightarrow> u8 list chans \<Rightarrow> (my_tcp \<times> my_tcp) \<times> u8 list chans" where
  "pipe_tcp d cs =
     (case channel_new cs of ((c1, c2), cs') \<Rightarrow>
        ((\<lparr>mt_chan = c1, mt_data = d\<rparr>, \<lparr>mt_chan = c2, mt_data = d\<rparr>), cs'))"

definition broken :: io_error where
  "broken = IoSimple BrokenPipe"

definition mt_set_buf :: "u8 list \<Rightarrow> my_tcp \<Rightarrow> my_tcp" where
  "mt_set_buf bs t = t\<lparr>mt_data := (mt_data t)\<lparr>td_buf := bs\<rparr>\<rparr>"

definition mt_set_flushing :: "bool \<Rightarrow> my_tcp \<Rightarrow> my_tcp" where
  "mt_set_flushing b t = t\<lparr>mt_data := (mt_data t)\<lparr>td_flushing := b\<rparr>\<rparr>"

text \<open>\<open>poll_read\<close>: the bytes put into a buffer with \<open>room\<close> bytes left; the first slice has \<open>k + 1\<close> bytes
  or all there are.\<close>

definition mt_poll_read ::
  "nat \<Rightarrow> nat \<Rightarrow> my_tcp \<Rightarrow> u8 list chans \<Rightarrow> (io_error + u8 list) poll \<times> my_tcp \<times> u8 list chans" where
  "mt_poll_read k room t cs =
     (let buf = td_buf (mt_data t); first = take (Suc k) buf in
      if 0 < length first
      then (let to_copy = min (length first) room
            in (Ready (Inr (take to_copy first)), mt_set_buf (drop to_copy buf) t, cs))
      else if ch_is_closed (mt_chan t) cs then (Ready (Inr []), t, cs)
      else
        (case ch_poll_next (mt_chan t) cs of
           (Pending, cs') \<Rightarrow> (Pending, t, cs')
         | (Ready None, cs') \<Rightarrow> (Ready (Inr []), t, cs')
         | (Ready (Some d), cs') \<Rightarrow>
             (let to_copy = min (length d) room
              in (Ready (Inr (take to_copy d)), mt_set_buf (buf @ drop to_copy d) t, cs'))))"

definition mt_write_flush ::
  "u8 list \<Rightarrow> my_tcp \<Rightarrow> u8 list chans \<Rightarrow> (io_error + nat) poll outcome \<times> my_tcp \<times> u8 list chans" where
  "mt_write_flush bs t cs =
     (case ch_poll_flush (mt_chan t) cs of
        (Pending, cs') \<Rightarrow> (Ret Pending, t, cs')
      | (Ready False, cs') \<Rightarrow> (Ret (Ready (Inl broken)), t, cs')
      | (Ready True, cs') \<Rightarrow> (Ret (Ready (Inr (length bs))), mt_set_flushing False t, cs'))"

definition mt_poll_write ::
  "u8 list \<Rightarrow> my_tcp \<Rightarrow> u8 list chans \<Rightarrow> (io_error + nat) poll outcome \<times> my_tcp \<times> u8 list chans" where
  "mt_poll_write bs t cs =
     (if ch_is_closed (mt_chan t) cs
      then (Ret (Ready (Inl (IoCustom BrokenPipe ''broken pipe''))), t, cs)
      else if td_flushing (mt_data t) then mt_write_flush bs t cs
      else
        (case ch_poll_ready (mt_chan t) cs of
           (Pending, cs1) \<Rightarrow> (Ret Pending, t, cs1)
         | (Ready False, cs1) \<Rightarrow> (Ret (Ready (Inl broken)), t, cs1)
         | (Ready True, cs1) \<Rightarrow>
             (case ch_start_send (mt_chan t) bs cs1 of
                (Panic, cs2) \<Rightarrow> (Panic, t, cs2)
              | (Ret False, cs2) \<Rightarrow> (Ret (Ready (Inl broken)), t, cs2)
              | (Ret True, cs2) \<Rightarrow> mt_write_flush bs (mt_set_flushing True t) cs2)))"

definition ready_unit :: "bool poll \<times> 'v chans \<Rightarrow> (io_error + unit) poll \<times> 'v chans" where
  "ready_unit r =
     (case r of
        (Pending, cs) \<Rightarrow> (Pending, cs)
      | (Ready False, cs) \<Rightarrow> (Ready (Inl broken), cs)
      | (Ready True, cs) \<Rightarrow> (Ready (Inr ()), cs))"

definition mt_poll_flush :: "my_tcp \<Rightarrow> u8 list chans \<Rightarrow> (io_error + unit) poll \<times> u8 list chans" where
  "mt_poll_flush t cs = ready_unit (ch_poll_flush (mt_chan t) cs)"

definition mt_poll_shutdown :: "my_tcp \<Rightarrow> u8 list chans \<Rightarrow> (io_error + unit) poll \<times> u8 list chans" where
  "mt_poll_shutdown t cs = ready_unit (ch_poll_close (mt_chan t) cs)"



section \<open>The net\<close>

record udp_data =
  ud_local :: port
  ud_flushing :: bool

record my_udp =
  mu_chan :: chan_end
  mu_data :: udp_data

record my_listener =
  ml_chan :: chan_end
  ml_port :: port

datatype test_value = VTcpListener my_listener | VUdpSocket my_udp

text \<open>\<open>Inner\<close> with the stores of the channels of streams, listeners and sockets. \<open>tn_lock\<close> is the
  connection whose \<open>tcp_connect\<close> holds the lock: its two ends and the listener it is sent to.\<close>

record test_net =
  tn_ports :: "port \<Rightarrow> test_value option"
  tn_next_port :: u16
  tn_lock :: "(my_tcp \<times> my_tcp \<times> my_listener) option"
  tn_streams :: "u8 list chans"
  tn_accepts :: "my_tcp chans"
  tn_packets :: "(u8 list \<times> socket_addr) chans"

definition chans_new :: "'v chans" where
  "chans_new = \<lparr>cs_next = 0, cs_chan = (\<lambda>_. mpsc_new)\<rparr>"


definition next_port :: "test_net \<Rightarrow> u16 \<times> test_net" where
  "next_port N = (tn_next_port N, N\<lparr>tn_next_port := tn_next_port N + 1\<rparr>)"

definition get_port :: "tn_protocol \<Rightarrow> u16 \<Rightarrow> test_net \<Rightarrow> (io_error + port) \<times> test_net" where
  "get_port proto p N =
     (case (if p = 0 then next_port N else (p, N)) of (q, N') \<Rightarrow>
        (if tn_ports N' (Port proto q) \<noteq> None then Inl (IoSimple AddrInUse) else Inr (Port proto q), N'))"

definition tn_refused :: error where
  "tn_refused = IO (IoSimple ConnectionRefused)"

fun ip_is_loopback :: "ip_addr \<Rightarrow> bool" where
  "ip_is_loopback (IpV4 (Ipv4 a b c d)) \<longleftrightarrow> a = 127"
| "ip_is_loopback (IpV6 a) \<longleftrightarrow> a = Ipv6 0 0 0 0 0 0 0 1"

fun ip_is_unspecified :: "ip_addr \<Rightarrow> bool" where
  "ip_is_unspecified (IpV4 a) \<longleftrightarrow> a = ipv4_unspecified"
| "ip_is_unspecified (IpV6 a) \<longleftrightarrow> a = ipv6_unspecified"

definition check_address :: "address \<Rightarrow> io_error + unit" where
  "check_address a =
     (if (case a of Domain d _ \<Rightarrow> d = ''localhost'' | _ \<Rightarrow> False) then Inr ()
      else
        (case to_socket_addr a of
           Inl e \<Rightarrow> Inl e
         | Inr s \<Rightarrow>
             if ip_is_loopback (sa_ip s) then Inr ()
             else if ip_is_unspecified (sa_ip s) then Inr ()
             else Inl (IoSimple AddrNotAvailable)))"

fun get_tcp_listener :: "test_value \<Rightarrow> io_error + my_listener" where
  "get_tcp_listener (VTcpListener l) = Inr l"
| "get_tcp_listener _ = Inl (IoSimple ConnectionRefused)"

fun get_udp_socket :: "test_value \<Rightarrow> io_error + my_udp" where
  "get_udp_socket (VUdpSocket u) = Inr u"
| "get_udp_socket _ = Inl (IoSimple ConnectionRefused)"

definition drop_streams :: "my_tcp list \<Rightarrow> test_net \<Rightarrow> test_net" where
  "drop_streams ts N = N\<lparr>tn_streams := fold (\<lambda>t. ch_drop (mt_chan t)) ts (tn_streams N)\<rparr>"

text \<open>\<open>listener.channel.send(other).await\<close> of \<open>tcp_connect\<close>: it waits, with the lock, until there is room.\<close>

definition connect_send ::
  "my_tcp \<Rightarrow> my_tcp \<Rightarrow> my_listener \<Rightarrow> test_net \<Rightarrow> (error + my_tcp) poll outcome \<times> test_net" where
  "connect_send sock other l N =
     (case ch_poll_ready (ml_chan l) (tn_accepts N) of
        (Pending, cs) \<Rightarrow> (Ret Pending, N\<lparr>tn_lock := Some (sock, other, l), tn_accepts := cs\<rparr>)
      | (Ready False, cs) \<Rightarrow>
          (Ret (Ready (Inl (IO broken))), drop_streams [other, sock] (N\<lparr>tn_lock := None, tn_accepts := cs\<rparr>))
      | (Ready True, cs) \<Rightarrow>
          (case ch_start_send (ml_chan l) other cs of
             (Panic, cs') \<Rightarrow> (Panic, N)
           | (Ret False, cs') \<Rightarrow>
               (Ret (Ready (Inl (IO broken))), drop_streams [other, sock] (N\<lparr>tn_lock := None, tn_accepts := cs'\<rparr>))
           | (Ret True, cs') \<Rightarrow> (Ret (Ready (Inr sock)), N\<lparr>tn_lock := None, tn_accepts := cs'\<rparr>)))"

definition tn_tcp_connect :: "address \<Rightarrow> test_net \<Rightarrow> (error + my_tcp) poll outcome \<times> test_net" where
  "tn_tcp_connect a N =
     (case check_address a of
        Inl e \<Rightarrow> (Ret (Ready (Inl (IO e))), N)
      | Inr _ \<Rightarrow>
          if tn_lock N \<noteq> None then (Ret Pending, N)
          else
            (let target_key = Port ProtoTcp (addr_port a) in
             case get_port ProtoTcp 0 N of
               (Inl e, N1) \<Rightarrow> (Ret (Ready (Inl (IO e))), N1)
             | (Inr key, N1) \<Rightarrow>
                 (case pipe_tcp \<lparr>td_flushing = False, td_buf = [], td_local = key, td_peer = target_key\<rparr>
                         (tn_streams N1) of ((sock, other0), cs) \<Rightarrow>
                    (let other = other0\<lparr>mt_data := td_swap (mt_data other0)\<rparr>; N2 = N1\<lparr>tn_streams := cs\<rparr> in
                     case tn_ports N2 target_key of
                       None \<Rightarrow> (Ret (Ready (Inl tn_refused)), drop_streams [other, sock] N2)
                     | Some v \<Rightarrow>
                         (case get_tcp_listener v of
                            Inl e \<Rightarrow> (Ret (Ready (Inl (IO e))), drop_streams [other, sock] N2)
                          | Inr l \<Rightarrow> connect_send sock other l N2)))))"


definition tn_tcp_bind :: "address \<Rightarrow> test_net \<Rightarrow> (error + my_listener) poll \<times> test_net" where
  "tn_tcp_bind a N =
     (case check_address a of
        Inl e \<Rightarrow> (Ready (Inl (IO e)), N)
      | Inr _ \<Rightarrow>
          if tn_lock N \<noteq> None then (Pending, N)
          else
            (case get_port ProtoTcp (addr_port a) N of
               (Inl e, N1) \<Rightarrow> (Ready (Inl (IO e)), N1)
             | (Inr key, N1) \<Rightarrow>
                 (case channel_new (tn_accepts N1) of ((listener, sender), cs) \<Rightarrow>
                    (Ready (Inr \<lparr>ml_chan = listener, ml_port = key\<rparr>),
                     N1\<lparr>tn_ports := (tn_ports N1)(key \<mapsto> VTcpListener \<lparr>ml_chan = sender, ml_port = key\<rparr>),
                        tn_accepts := cs\<rparr>))))"

definition tn_udp_bind :: "address \<Rightarrow> test_net \<Rightarrow> (error + my_udp) poll \<times> test_net" where
  "tn_udp_bind a N =
     (case check_address a of
        Inl e \<Rightarrow> (Ready (Inl (IO e)), N)
      | Inr _ \<Rightarrow>
          if tn_lock N \<noteq> None then (Pending, N)
          else
            (case get_port ProtoUdp (addr_port a) N of
               (Inl e, N1) \<Rightarrow> (Ready (Inl (IO e)), N1)
             | (Inr key, N1) \<Rightarrow>
                 (case channel_new (tn_packets N1) of ((c1, c2), cs) \<Rightarrow>
                    (let d = \<lparr>ud_local = key, ud_flushing = False\<rparr> in
                     (Ready (Inr \<lparr>mu_chan = c1, mu_data = d\<rparr>),
                      N1\<lparr>tn_ports := (tn_ports N1)(key \<mapsto> VUdpSocket \<lparr>mu_chan = c2, mu_data = d\<rparr>),
                         tn_packets := cs\<rparr>)))))"

definition tn_lookup_host :: "address \<Rightarrow> error + socket_addr list" where
  "tn_lookup_host a = Inr [make_sa (addr_port a)]"






section \<open>Datagrams\<close>

definition poll_udp_port ::
  "test_net \<Rightarrow> u16 \<Rightarrow> (chan_end \<Rightarrow> (u8 list \<times> socket_addr) chans \<Rightarrow> 'r \<times> (u8 list \<times> socket_addr) chans) \<Rightarrow> 'r \<Rightarrow>
   'r \<times> test_net" where
  "poll_udp_port N p f dflt =
     (case tn_ports N (Port ProtoUdp p) of
        Some v \<Rightarrow>
          (case get_udp_socket v of
             Inr u \<Rightarrow> (case f (mu_chan u) (tn_packets N) of (r, cs) \<Rightarrow> (r, N\<lparr>tn_packets := cs\<rparr>))
           | Inl _ \<Rightarrow> (dflt, N))
      | None \<Rightarrow> (dflt, N))"

definition mu_poll_recv_from ::
  "nat \<Rightarrow> my_udp \<Rightarrow> test_net \<Rightarrow> (io_error + u8 list \<times> socket_addr) poll \<times> test_net" where
  "mu_poll_recv_from room u N =
     (case ch_poll_next (mu_chan u) (tn_packets N) of
        (Pending, cs) \<Rightarrow> (Pending, N\<lparr>tn_packets := cs\<rparr>)
      | (Ready None, cs) \<Rightarrow> (Ready (Inl (IoSimple ConnectionRefused)), N\<lparr>tn_packets := cs\<rparr>)
      | (Ready (Some (vec, addr)), cs) \<Rightarrow>
          (Ready (Inr (take (min (length vec) room) vec, addr)), N\<lparr>tn_packets := cs\<rparr>))"

definition mu_set_flushing :: "bool \<Rightarrow> my_udp \<Rightarrow> my_udp" where
  "mu_set_flushing b u = u\<lparr>mu_data := (mu_data u)\<lparr>ud_flushing := b\<rparr>\<rparr>"

definition mu_send_flush ::
  "u8 list \<Rightarrow> u16 \<Rightarrow> my_udp \<Rightarrow> test_net \<Rightarrow> (io_error + nat) poll outcome \<times> my_udp \<times> test_net" where
  "mu_send_flush bs p u N =
     (case poll_udp_port N p ch_poll_flush (Ready True) of
        (Pending, N') \<Rightarrow> (Ret Pending, u, N')
      | (Ready False, N') \<Rightarrow> (Ret (Ready (Inl broken)), u, N')
      | (Ready True, N') \<Rightarrow> (Ret (Ready (Inr (length bs))), mu_set_flushing False u, N'))"

definition mu_poll_send_to ::
  "u8 list \<Rightarrow> address \<Rightarrow> my_udp \<Rightarrow> test_net \<Rightarrow> (io_error + nat) poll outcome \<times> my_udp \<times> test_net" where
  "mu_poll_send_to bs a u N =
     (if tn_lock N \<noteq> None then (Ret Pending, u, N)
      else
        (let p = addr_port a in
         if ud_flushing (mu_data u) then mu_send_flush bs p u N
         else
           (case poll_udp_port N p ch_poll_ready (Ready True) of
              (Pending, N1) \<Rightarrow> (Ret Pending, u, N1)
            | (Ready False, N1) \<Rightarrow> (Ret (Ready (Inl broken)), u, N1)
            | (Ready True, N1) \<Rightarrow>
                (case poll_udp_port N1 p (\<lambda>e. ch_start_send e (bs, port_into (ud_local (mu_data u)))) (Ret True) of
                   (Panic, N2) \<Rightarrow> (Panic, u, N2)
                 | (Ret False, N2) \<Rightarrow> (Ret (Ready (Inl broken)), u, N2)
                 | (Ret True, N2) \<Rightarrow> mu_send_flush bs p (mu_set_flushing True u) N2))))"


section \<open>The two ends of a connection\<close>

text \<open>What the holders of the two ends do, in any order and with the rest of the net in between; \<open>tp_put\<close> and
  \<open>tp_got\<close> are the bytes whose write was acknowledged and the bytes read at each end. An end that was
  dropped does nothing more.\<close>

datatype tcp_act = TRead nat nat | TWrite "u8 list" | TFlush | TShutdown | TDrop

datatype pair_act = At bool tcp_act | Elsewhere "nat \<Rightarrow> u8 list mpsc"

record tcp_pair =
  tp_ids :: "bool \<Rightarrow> nat"
  tp_end :: "bool \<Rightarrow> my_tcp option"
  tp_put :: "bool \<Rightarrow> u8 list"
  tp_got :: "bool \<Rightarrow> u8 list"
  tp_chans :: "u8 list chans"

definition tp_act :: "bool \<Rightarrow> my_tcp \<Rightarrow> tcp_act \<Rightarrow> tcp_pair \<Rightarrow> tcp_pair outcome" where
  "tp_act s t act P =
     (case act of
        TRead k room \<Rightarrow>
          (case mt_poll_read k room t (tp_chans P) of (r, t', cs) \<Rightarrow>
             Ret (P\<lparr>tp_end := (tp_end P)(s \<mapsto> t'), tp_chans := cs,
                    tp_got := (tp_got P)(s := tp_got P s @ (case r of Ready (Inr bs) \<Rightarrow> bs | _ \<Rightarrow> []))\<rparr>))
      | TWrite bs \<Rightarrow>
          (case mt_poll_write bs t (tp_chans P) of
             (Panic, t', cs) \<Rightarrow> Panic
           | (Ret r, t', cs) \<Rightarrow>
               Ret (P\<lparr>tp_end := (tp_end P)(s \<mapsto> t'), tp_chans := cs,
                      tp_put := (tp_put P)(s := tp_put P s @ (case r of Ready (Inr n) \<Rightarrow> take n bs | _ \<Rightarrow> []))\<rparr>))
      | TFlush \<Rightarrow> Ret (P\<lparr>tp_chans := snd (mt_poll_flush t (tp_chans P))\<rparr>)
      | TShutdown \<Rightarrow> Ret (P\<lparr>tp_chans := snd (mt_poll_shutdown t (tp_chans P))\<rparr>)
      | TDrop \<Rightarrow> Ret (P\<lparr>tp_end := (tp_end P)(s := None), tp_chans := ch_drop (mt_chan t) (tp_chans P)\<rparr>))"

definition tp_step :: "pair_act \<Rightarrow> tcp_pair \<Rightarrow> tcp_pair outcome" where
  "tp_step a P =
     (case a of
        At s act \<Rightarrow> (case tp_end P s of None \<Rightarrow> Ret P | Some t \<Rightarrow> tp_act s t act P)
      | Elsewhere f \<Rightarrow>
          Ret (P\<lparr>tp_chans := (tp_chans P)\<lparr>cs_chan :=
                   (\<lambda>i. if i \<in> range (tp_ids P) then cs_chan (tp_chans P) i else f i)\<rparr>\<rparr>))"

fun tp_run :: "pair_act list \<Rightarrow> tcp_pair \<Rightarrow> tcp_pair outcome" where
  "tp_run [] P = Ret P"
| "tp_run (a # as) P = (case tp_step a P of Panic \<Rightarrow> Panic | Ret P' \<Rightarrow> tp_run as P')"

definition tp_pair :: "my_tcp \<Rightarrow> my_tcp \<Rightarrow> u8 list chans \<Rightarrow> tcp_pair" where
  "tp_pair a b cs =
     \<lparr>tp_ids = (\<lambda>s. if s then ce_sender (mt_chan b) else ce_sender (mt_chan a)),
      tp_end = (\<lambda>s. Some (if s then b else a)), tp_put = (\<lambda>_. []), tp_got = (\<lambda>_. []), tp_chans = cs\<rparr>"

definition tp_chan :: "tcp_pair \<Rightarrow> bool \<Rightarrow> u8 list mpsc" where
  "tp_chan P s = cs_chan (tp_chans P) (tp_ids P s)"

text \<open>The direction from \<open>s\<close> to the other end: what was written is what was read, is buffered or queued.\<close>

definition dir_ok :: "tcp_pair \<Rightarrow> bool \<Rightarrow> bool" where
  "dir_ok P s \<longleftrightarrow>
     mp_receiver (tp_chan P s) = (tp_end P (\<not> s) \<noteq> None) \<and>
     mp_sender (tp_chan P s) \<noteq> SenderReserved \<and>
     length (mp_queue (tp_chan P s)) \<le> mpsc_capacity \<and>
     prefix (tp_got P (\<not> s)) (tp_put P s) \<and>
     (case tp_end P (\<not> s) of
        None \<Rightarrow> True
      | Some t \<Rightarrow> tp_put P s = tp_got P (\<not> s) @ td_buf (mt_data t) @ concat (mp_queue (tp_chan P s)))"

definition end_ok :: "tcp_pair \<Rightarrow> bool \<Rightarrow> bool" where
  "end_ok P s \<longleftrightarrow>
     (case tp_end P s of
        None \<Rightarrow> True
      | Some t \<Rightarrow>
          mt_chan t = \<lparr>ce_sender = tp_ids P s, ce_receiver = tp_ids P (\<not> s)\<rparr> \<and> \<not> td_flushing (mt_data t))"

definition pair_ok :: "tcp_pair \<Rightarrow> bool" where
  "pair_ok P \<longleftrightarrow> tp_ids P False \<noteq> tp_ids P True \<and> (\<forall>s. end_ok P s) \<and> (\<forall>s. dir_ok P s)"


lemma pair_okD:
  assumes "pair_ok P"
  shows "tp_ids P s \<noteq> tp_ids P (\<not> s)" "end_ok P s" "dir_ok P s"
  using assms unfolding pair_ok_def by (cases s; auto)+

lemmas mt_defs = on_chan_def ch_is_closed_def ch_poll_next_def ch_poll_ready_def ch_start_send_def
  ch_poll_flush_def ch_poll_close_def ch_drop_def mt_set_buf_def mt_set_flushing_def
lemmas mp_defs = mp_poll_ready_def mp_start_send_def mp_poll_flush_def mp_poll_close_def mp_is_closed_def
  mp_poll_recv_def mp_drop_sender_def mp_drop_receiver_def
lemmas pair_defs = end_ok_def dir_ok_def tp_chan_def

lemma take_prefix_append [simp]: "prefix (take n xs) (xs @ ys)"
  by (metis append_assoc append_take_drop_id prefixI)









section \<open>The net as a whole\<close>




text \<open>Ports hold what their protocol says, and no slot of a channel stays reserved.\<close>

fun value_at :: "port \<Rightarrow> test_value \<Rightarrow> bool" where
  "value_at (Port ProtoTcp n) v = (\<exists>c. v = VTcpListener \<lparr>ml_chan = c, ml_port = Port ProtoTcp n\<rparr>)"
| "value_at (Port ProtoUdp n) v =
     (\<exists>c b. v = VUdpSocket \<lparr>mu_chan = c, mu_data = \<lparr>ud_local = Port ProtoUdp n, ud_flushing = b\<rparr>\<rparr>)"

definition unreserved :: "'v chans \<Rightarrow> bool" where
  "unreserved cs \<longleftrightarrow> (\<forall>i. mp_sender (cs_chan cs i) \<noteq> SenderReserved)"

definition tn_inv :: "test_net \<Rightarrow> bool" where
  "tn_inv N \<longleftrightarrow>
     (\<forall>p v. tn_ports N p = Some v \<longrightarrow> value_at p v) \<and> unreserved (tn_accepts N) \<and> unreserved (tn_packets N)"


lemma unreserved_drop [intro]: "unreserved cs \<Longrightarrow> unreserved (ch_drop e cs)"
  by (simp add: unreserved_def ch_drop_def mp_drop_sender_def mp_drop_receiver_def Let_def)


text \<open>Reserving a slot and sending into it: the item is queued, or there is no room, or nobody
  receives.\<close>

lemma send_cases:
  assumes "unreserved cs"
  obtains
    (full) "ch_poll_ready e cs = (Pending, cs)" "mp_receiver (cs_chan cs (ce_sender e))"
      "mpsc_capacity \<le> length (mp_queue (cs_chan cs (ce_sender e)))"
  | (closed) cs' where "ch_poll_ready e cs = (Ready False, cs')" "unreserved cs'"
  | (sent) cs' cs'' where "ch_poll_ready e cs = (Ready True, cs')" "ch_start_send e v cs' = (Ret True, cs'')"
      "unreserved cs''" "cs_next cs'' = cs_next cs"
      "mp_queue (cs_chan cs'' (ce_sender e)) = mp_queue (cs_chan cs (ce_sender e)) @ [v]"
      "\<forall>i. i \<noteq> ce_sender e \<longrightarrow> cs_chan cs'' i = cs_chan cs i"
proof (cases "mp_sender (cs_chan cs (ce_sender e))")
  case SenderIdle
  show ?thesis
  proof (cases "mp_receiver (cs_chan cs (ce_sender e))")
    case False
    with SenderIdle assms show ?thesis
      by - (rule closed [of "snd (ch_poll_ready e cs)"], auto simp: ch_poll_ready_def on_chan_def mp_poll_ready_def unreserved_def)
  next
    case r: True
    show ?thesis
    proof (cases "length (mp_queue (cs_chan cs (ce_sender e))) < mpsc_capacity")
      case True
      with r SenderIdle assms show ?thesis
        by - (rule sent [of "snd (ch_poll_ready e cs)" "snd (ch_start_send e v (snd (ch_poll_ready e cs)))"],
            auto simp: ch_poll_ready_def ch_start_send_def on_chan_def mp_poll_ready_def mp_start_send_def
            unreserved_def)
    next
      case False
      with r SenderIdle show ?thesis
        by - (rule full, auto simp: ch_poll_ready_def on_chan_def mp_poll_ready_def)
    qed
  qed
next
  case SenderClosed
  with assms show ?thesis
    by - (rule closed [of "snd (ch_poll_ready e cs)"], auto simp: ch_poll_ready_def on_chan_def mp_poll_ready_def unreserved_def)
next
  case SenderReserved
  with assms show ?thesis by (auto simp: unreserved_def)
qed

lemma drop_streams_simps [simp]:
  "tn_ports (drop_streams ts N) = tn_ports N" "tn_accepts (drop_streams ts N) = tn_accepts N"
  "tn_packets (drop_streams ts N) = tn_packets N" "tn_lock (drop_streams ts N) = tn_lock N"
  by (simp_all add: drop_streams_def)






lemma tn_inv_streams [simp]: "tn_inv (N\<lparr>tn_streams := cs\<rparr>) = tn_inv N" "tn_inv (drop_streams ts N) = tn_inv N"
  "tn_inv (N\<lparr>tn_lock := k\<rparr>) = tn_inv N"
  by (simp_all add: tn_inv_def)



lemma poll_udp_port_inv:
  assumes "tn_inv N" "\<And>e. unreserved (snd (f e (tn_packets N)))"
  shows "tn_inv (snd (poll_udp_port N p f dflt))"
  using assms by (auto simp: poll_udp_port_def tn_inv_def split: option.splits sum.splits prod.splits) (metis snd_conv)










section \<open>Properties\<close>


text \<open>The end of file comes too early: when the other end was dropped, or this end was shut down,
  a read with an empty buffer reports it, whatever is still in the queue.\<close>

lemma early_eof:
  assumes "pair_ok P" "tp_end P s = Some t" "td_buf (mt_data t) = []"
    and "tp_end P (\<not> s) = None \<or> \<not> mp_main (tp_chan P s)"
  shows "mt_poll_read k room t (tp_chans P) = (Ready (Inr []), t, tp_chans P)"
  using assms(2-4) pair_okD(2,3) [OF assms(1), of s]
  by (auto simp: mt_poll_read_def ch_is_closed_def mp_is_closed_def pair_defs Let_def)

lemma dropped_writer_loses_bytes:
  "\<exists>a b cs P. pipe_tcp \<lparr>td_flushing = False, td_buf = [], td_local = p, td_peer = q\<rparr> chans_new = ((a, b), cs) \<and>
     tp_run [At True (TWrite [1]), At True TDrop, At False (TRead 0 8)] (tp_pair a b cs) = Ret P \<and>
     tp_put P True = [1] \<and> tp_got P False = [] \<and> mp_queue (tp_chan P True) = [[1]]"
  by (simp add: pipe_tcp_def channel_new_def chans_new_def mpsc_new_def tp_pair_def tp_step_def tp_act_def
      mt_poll_write_def mt_write_flush_def mt_poll_read_def mt_defs mp_defs mpsc_capacity_def tp_chan_def Let_def)

text \<open>A connection to a listener whose queue is full keeps the lock: until one is accepted nobody can
  connect, bind or send.\<close>

lemma full_listener_blocks:
  assumes "tn_inv N" "connect_send sock other l N = (Ret Pending, N')" "check_address a = Inr ()"
  shows "fst (tn_tcp_connect a N') = Ret Pending \<and> fst (tn_tcp_bind a N') = Pending \<and>
    fst (tn_udp_bind a N') = Pending \<and> fst (mu_poll_send_to bs b u N') = Ret Pending"
proof -
  have "unreserved (tn_accepts N)" using assms(1) by (simp add: tn_inv_def)
  then have "tn_lock N' \<noteq> None"
    by (cases rule: send_cases [where e = "ml_chan l" and v = other])
       (use assms(2) in \<open>auto simp: connect_send_def\<close>)
  with assms(3) show ?thesis
    by (auto simp: tn_tcp_connect_def tn_tcp_bind_def tn_udp_bind_def mu_poll_send_to_def)
qed

text \<open>A port that is chosen by the net may be one that is in use: then the bind fails although
  ports are free.\<close>

lemma chosen_port_in_use:
  "tn_ports N (Port proto (tn_next_port N)) \<noteq> None \<Longrightarrow> fst (get_port proto 0 N) = Inl (IoSimple AddrInUse)"
  by (simp add: get_port_def next_port_def)

text \<open>A datagram that was received was the first in the queue, cut to the buffer, with the address
  of its sender.\<close>

lemma recv_from_queue:
  "mu_poll_recv_from room u N = (Ready (Inr (bs, from_addr)), N') \<longleftrightarrow>
   (\<exists>vec rest. mp_queue (cs_chan (tn_packets N) (ce_receiver (mu_chan u))) = (vec, from_addr) # rest \<and>
      bs = take room vec \<and>
      N' = N\<lparr>tn_packets := (tn_packets N)\<lparr>cs_chan := (cs_chan (tn_packets N))(ce_receiver (mu_chan u) :=
             (cs_chan (tn_packets N) (ce_receiver (mu_chan u)))\<lparr>mp_queue := rest\<rparr>)\<rparr>\<rparr>)"
  by (auto simp: mu_poll_recv_from_def ch_poll_next_def on_chan_def mp_poll_recv_def min_def split: list.splits)

section \<open>Witnesses\<close>





end
