(* ===== verification/Spec2Isabelle.thy ===== *)
theory Spec2Isabelle
  imports RD_UdpConnector RD_Digger RD_Std RD_Topo RD_Tls RD_TestNet
begin

text \<open>
  Verification of rabbit-digger, a rule-based proxy written in Rust.

  \<^bold>\<open>The program.\<close> A configuration names nets and servers. A net (\<open>INet\<close> of
  \<^verbatim>\<open>rd-interface/src/interface.rs\<close>) connects, binds and looks up hosts, and may call the nets it is
  made of; a server accepts clients and asks its net for a connection to where they want to go.
  \<open>RabbitDigger\<close> (\<^verbatim>\<open>src/rabbit_digger.rs\<close>) builds the configuration with the types in its registry,
  starts the servers, replaces nets while they run and stops. Every net that is built is a \<open>RunningNet\<close>, which appends its
  name to the context of the connection and can be exchanged; the net of a server is a \<open>RunningServerNet\<close>,
  which wraps streams and sockets so that the connection manager counts their traffic and can
  abort them. The rule net chooses one of its nets by the first rule that matches; the sniffer
  turns addresses back into the domains of the DNS answers it has seen. The client's stream and the one the net
  gave are relayed until one side ends.

  \<^bold>\<open>How the program is modelled.\<close> One theory per component, in the order below. A struct is a record,
  an enum a datatype, a method a function that returns the changed state. Errors are the left of a
  sum (\<open>error\<close> and \<open>io_error\<close> of \<^verbatim>\<open>RD_Error\<close>), a panic is \<open>Panic\<close> of \<open>outcome\<close>, \<open>Poll\<close> is \<open>poll\<close> (\<^verbatim>\<open>RD_Prelude\<close>).
  Bytes, ports and counters are words of their width, so that the totals of the connection manager
  wrap as in the program. What the program does not define is an argument: the operating system, the crates for DNS, HTTP,
  TLS, SOCKS5 and caches, and reading JSON with serde; the laws that are used of them are predicates in the
  hypotheses (\<open>lru_laws\<close>, \<open>ts_laws\<close>, \<open>std_laws\<close> and others), and every witness gives an instance. Streams and sockets
  answer from lists, of which the theorems quantify over all. Tasks that run side by side are
  sequences of steps in any order (\<open>run\<close> of \<^verbatim>\<open>RD_ConnMgr\<close>, \<open>rule_step\<close> of \<^verbatim>\<open>RD_Rule\<close>).

  \<^bold>\<open>The interface crate\<close> (\<^verbatim>\<open>rd-interface\<close>).
  \<^item> \<^verbatim>\<open>RD_Error\<close>: \<^verbatim>\<open>error.rs\<close>, the error type, its contexts and conversions.
  \<^item> \<^verbatim>\<open>RD_Address\<close>: \<^verbatim>\<open>address.rs\<close>, addresses with their parsers and printers, which are inverse.
  \<^item> \<^verbatim>\<open>RD_CompactVec\<close>: \<^verbatim>\<open>config/compact_vec_string.rs\<close> and \<^verbatim>\<open>single_or_vec.rs\<close>; the packed representation refines a
    list of strings, and no slice of it is out of range.
  \<^item> \<^verbatim>\<open>RD_Config\<close>: \<^verbatim>\<open>config.rs\<close>, \<^verbatim>\<open>config/resolvable.rs\<close> and the derive macro of \<^verbatim>\<open>rd-derive\<close>; a visit is a walk over the references of a
    configuration with their paths.
  \<^item> \<^verbatim>\<open>RD_Context\<close>: \<^verbatim>\<open>context.rs\<close>, the context of a connection.
  \<^item> \<^verbatim>\<open>RD_Net\<close>: \<^verbatim>\<open>interface.rs\<close> and the nets that only combine others (alias, combine, blackhole, noop). A net is a tree, running nets are
    references into a heap, every other net is a program (\<open>prog\<close>) that calls its inner nets and
    answers. \<open>net_call\<close> carries out an operation; the lemmas give its path through the nets, the type of its result, and
    that it returns when the heap has no cycle.

  \<^bold>\<open>The program crate\<close> (\<^verbatim>\<open>src\<close>).
  \<^item> \<^verbatim>\<open>RD_ConnMgr\<close>: \<^verbatim>\<open>connection_manager.rs\<close> and \<^verbatim>\<open>event.rs\<close>; no traffic is lost or counted twice, entries live as long as connections,
    a stop request aborts and nothing else does.
  \<^item> \<^verbatim>\<open>RD_Running\<close>: \<^verbatim>\<open>running.rs\<close>; what passes a wrapped stream or socket is what the manager
    counts; the task of a server.
  \<^item> \<^verbatim>\<open>RD_Build\<close>: \<^verbatim>\<open>registry.rs\<close> of both crates, \<^verbatim>\<open>config.rs\<close> and the build part of \<^verbatim>\<open>rabbit_digger.rs\<close>;
    building ends, circular references are errors, and the nets that were built return.
  \<^item> \<^verbatim>\<open>RD_Digger\<close>: the rest of \<^verbatim>\<open>rabbit_digger.rs\<close>; a start is atomic, a stop returns, no task is left
    behind.
  \<^item> \<^verbatim>\<open>RD_Topo\<close>: \<open>topological_sort\<close> of \<^verbatim>\<open>util.rs\<close>.

  \<^bold>\<open>The standard library\<close> (\<^verbatim>\<open>rd-std\<close>).
  \<^item> \<^verbatim>\<open>RD_CopyTcp\<close>, \<^verbatim>\<open>RD_CopyUdp\<close>: the relays of \<^verbatim>\<open>context\<close>; bytes and datagrams arrive in order, every poll returns.
  \<^item> \<^verbatim>\<open>RD_UdpConnector\<close>, \<^verbatim>\<open>RD_ForwardUdp\<close>, \<^verbatim>\<open>RD_Peek\<close>, \<^verbatim>\<open>RD_AsyncFn\<close>: the helpers of \<^verbatim>\<open>util\<close>; the last also has the sockets of \<^verbatim>\<open>builtin/dns.rs\<close>, and \<^verbatim>\<open>RD_Peek\<close>
    how \<^verbatim>\<open>mixed.rs\<close> chooses by the first byte.
  \<^item> \<^verbatim>\<open>RD_Rule\<close>, \<^verbatim>\<open>RD_RuleNet\<close>: \<^verbatim>\<open>rule\<close>; the first rule that matches is returned whatever the cache holds, also to
    concurrent callers.
  \<^item> \<^verbatim>\<open>RD_Resolve\<close>, \<^verbatim>\<open>RD_Sniffer\<close>, \<^verbatim>\<open>RD_Local\<close>: the nets of \<^verbatim>\<open>builtin/resolve.rs\<close>, \<^verbatim>\<open>sniffer\<close> and \<^verbatim>\<open>builtin/local.rs\<close>.
  \<^item> \<^verbatim>\<open>RD_Socks5\<close>, \<^verbatim>\<open>RD_Socks5Server\<close>, \<^verbatim>\<open>RD_Http\<close>, \<^verbatim>\<open>RD_Tls\<close>: \<^verbatim>\<open>socks5\<close>, \<^verbatim>\<open>http\<close> and \<^verbatim>\<open>tls\<close>.
  \<^item> \<^verbatim>\<open>RD_Servers\<close>, \<^verbatim>\<open>RD_TProxy\<close>: the servers of \<^verbatim>\<open>builtin\<close> and \<^verbatim>\<open>transparent\<close>.
  \<^item> \<^verbatim>\<open>RD_Builders\<close>, \<^verbatim>\<open>RD_Std\<close>: the configuration types and builders of all nets and servers, the
    registry the program starts with, and all nets together: building does not panic, and every operation of every net of every
    configuration returns.
  \<^item> \<^verbatim>\<open>RD_TestNet\<close>: \<^verbatim>\<open>tests/net.rs\<close> and \<^verbatim>\<open>tests/channel.rs\<close>, the in-memory network the tests run on.

  This theory holds two properties that span the components: a connection through a server, a
  sniffer and a rule net, and one through a transparent server.

  \<^bold>\<open>Interfaces.\<close> The contracts one component relies on are locales, interpreted on the definitions of the
  component that provides them: \<open>string_vec\<close>, \<open>common_field\<close>, \<open>conn_type\<close>, \<open>packet_addr\<close> (the two directions of the UDP
  relay), \<open>poll_slot\<close> (the futures of the adapter), \<open>tls_backend\<close>. Refinement is
  stated against small reference definitions: plain lists (\<open>strings\<close>), the first match of a
  list of rules (\<open>first_match\<close>), the maps a reader of all DNS answers would keep (\<open>latest_addr\<close>, \<open>latest_alias\<close>).

  \<^bold>\<open>Bounds and fuel.\<close> \<open>net_call\<close> has fuel, because a net in the heap may be exchanged for one that
  refers to it; the nets of a built configuration need no more than the number of running nets and the
  depth of their trees (\<open>built_nets_return\<close>, \<open>std_nets_return\<close> give the fuel). \<open>get_net\<close> calls itself through the configuration;
  \<open>build_fuel\<close> is computed from the configuration and enough (\<open>build_terminates\<close>). The sniffer follows at most 16 aliases, as in the
  program (\<open>cname_limit\<close>). Loops that poll are recursion over the answers that are left, or \<open>partial_function\<close> with
  the theorem that a result exists (\<open>ts_drain\<close>).

  \<^bold>\<open>Not modelled.\<close>
  \<^item> \<^verbatim>\<open>util/connect_tcp/unix.rs\<close> is not part of the build.
  \<^item> JSON schemas, \<open>Debug\<close> and \<open>Display\<close> of the types other than errors and addresses, logging, and methods that only
    pass a call on to an inner value have no behaviour of their own.
  \<^item> \<open>DropAbort\<close> is the abort of a task in tokio, and the heartbeat task of the connection manager a
    clock: a heartbeat is a step that may happen at any time.
  \<^item> The macOS branches of the local net; the model is the Linux build.
  \<^item> The helpers of \<^verbatim>\<open>tests.rs\<close>, which only assert.
  \<^item> Time: timeouts and the expiry of caches may happen at any access.
\<close>

section \<open>Properties\<close>

text \<open>C5: From a DNS answer to a routed connection, across the net of a server, the sniffer, the rule
  engine and the connection manager. A server is asked to connect to an address whose domain
  the sniffer recovers. Then the rule engine chooses the first rule that accepts the connection
  under both of its names: domain matchers are given the recovered domain and, when that is not
  itself an address, address matchers the address asked for. The net of that rule is asked for
  the domain, with a context whose net list ends in the server's name; if it fails, or no rule
  matches, the error is passed on; if it succeeds, the stream is wrapped and registered once as a
  connection to the address the client asked for.\<close>

theorem sniffed_connection_is_routed:
  assumes sniffer: "ext_provides E p = sniffer_provides" "ext_prog E p = sniffer_prog C get_rl put_rl mitm"
    and rule: "ext_provides E q = rule_provides"
      "ext_prog E q = rule_prog env cd lru get_rn put_rn lazy_udp (length ns)"
    and parts: "\<And>rl x. get_rn (put_rl rl x) = get_rn x"
    and cache: "lru_laws lru content"
      "cache_ok env content (rules (get_rn (outer w))) (cache (get_rn (outer w)))"
    and targets: "\<forall>it \<in> set (rules (get_rn (outer w))). target it < length ns"
    and codec: "cd = (addr_ser E, addr_de E)" "addr_ser E sa = Inr j" "addr_de E j = Inr sa"
    and found: "rl_reverse_lookup C (sa_ip sa) (get_rl (outer w)) = (Some d, rl)"
    and ctx: "context_inv ctx"
  shows "\<exists>ctx' w'. strings (net_list ctx') = strings (net_list ctx) @ [s] \<and>
    get_common dest_domain_field ctx' = Inr (Some \<lparr>ad_domain = d, ad_port = sa_port sa\<rparr>) \<and>
    get_common (dest_socket_addr_field (fst cd) (snd cd)) ctx' = Inr (Some sa) \<and>
    (\<forall>mc. from_context_address cd ctx' (Domain d (sa_port sa)) = Inr mc \<longrightarrow>
       get_domain mc = Some (d, sa_port sa) \<and>
       (parse_ip (strip_brackets d) = None \<longrightarrow> get_socket_addr mc = Some sa)) \<and>
    (\<forall>key. key \<notin> {''dest_socket_addr'', ''dest_domain''} \<longrightarrow> data ctx' key = data ctx key) \<and>
    conns w' = conns w \<and> next_uuid w' = next_uuid w \<and>
    net_call (Suc (Suc (Suc k))) E H (RunningServerNet s (sniffer_net p (Ext q ns))) TcpConnect
      (SocketAddr sa) ctx w =
      (case and_then (from_context_address cd ctx' (Domain d (sa_port sa)))
              (first_match env (rules (get_rn (outer w)))) of
         Inl e \<Rightarrow> Some (Inl e, ctx', w')
       | Inr it \<Rightarrow>
           map_option (wrap_tcp (SocketAddr sa))
             (net_call k E H (ns ! target it) TcpConnect (Domain d (sa_port sa)) ctx' w'))"
proof -
  obtain c1 where c1: "insert_dest E (SocketAddr sa) (append_net s ctx) = (Inr (), c1)"
    "net_list c1 = net_list (append_net s ctx)"
    "get_common (dest_socket_addr_field (addr_ser E) (addr_de E)) c1 = Inr (Some sa)"
    "\<forall>key. key \<noteq> ''dest_socket_addr'' \<longrightarrow> data c1 key = data (append_net s ctx) key"
    using insert_dest_socket_addr [OF codec(2,3)] by blast
  obtain c2 where c2: "get_common dest_domain_field c2 = Inr (Some \<lparr>ad_domain = d, ad_port = sa_port sa\<rparr>)"
    "net_list c2 = net_list c1" "\<forall>key. key \<noteq> cf_key dest_domain_field \<longrightarrow> data c2 key = data c1 key"
    "sniffer_reverse_lookup C c1 (SocketAddr sa) (get_rl (outer w)) = Ret (Domain d (sa_port sa), c2, rl)"
    using sniffer_reverse_lookup_eq [of d sa c1 C "get_rl (outer w)" rl] found by blast
  let ?w1 = "w\<lparr>outer := put_rl rl (outer w)\<rparr>"
  have g: "get_rn (outer ?w1) = get_rn (outer w)" using parts by simp
  obtain r where r: "net_call (Suc k) E H (Ext q ns) TcpConnect (Domain d (sa_port sa)) c2 ?w1 =
      (case and_then (from_context_address cd c2 (Domain d (sa_port sa))) (first_match env (rules (get_rn (outer w)))) of
         Inl e \<Rightarrow> Some (Inl e, c2, ?w1\<lparr>outer := put_rn r (outer ?w1)\<rparr>)
       | Inr it \<Rightarrow> net_call k E H (ns ! target it) TcpConnect (Domain d (sa_port sa)) c2
           (?w1\<lparr>outer := put_rn r (outer ?w1)\<rparr>))"
    using rule_call [OF rule cache(1), of ?w1 k H "Domain d (sa_port sa)" c2] cache(2) targets
    unfolding g by blast
  let ?w2 = "?w1\<lparr>outer := put_rn r (outer ?w1)\<rparr>"
  have call: "net_call (Suc (Suc (Suc k))) E H (RunningServerNet s (sniffer_net p (Ext q ns))) TcpConnect
      (SocketAddr sa) ctx w =
      map_option (wrap_tcp (SocketAddr sa)) (net_call (Suc k) E H (Ext q ns) TcpConnect
        (Domain d (sa_port sa)) c2 ?w1)"
    by (simp only: server_call c1(1) prod.case sum.case sniffer_call [OF sniffer c2(4)])
  have dsa: "get_common (dest_socket_addr_field (fst cd) (snd cd)) c2 = Inr (Some sa)"
    using c1(3) c2(3) codec(1)
    by (simp add: get_common_def ctx_get_def dest_socket_addr_field_def dest_domain_field_def)
  have kept: "data c2 key = data ctx key" if "key \<notin> {''dest_socket_addr'', ''dest_domain''}" for key
    using that c1(4) c2(3) by (simp add: dest_domain_field_def append_net_def)
  note dc = domain_context [OF _ c2(1) dsa]
  show ?thesis
  proof (intro exI [of _ c2] exI [of _ ?w2] conjI allI impI)
    show "strings (net_list c2) = strings (net_list ctx) @ [s]"
      using append_nets [OF ctx, of "[s]"] c1(2) c2(2) by simp
    show "get_domain mc = Some (d, sa_port sa)"
      if "from_context_address cd c2 (Domain d (sa_port sa)) = Inr mc" for mc
      using dc(1) [OF that] .
    show "get_socket_addr mc = Some sa" if "from_context_address cd c2 (Domain d (sa_port sa)) = Inr mc"
      "parse_ip (strip_brackets d) = None" for mc
      using dc(2) [OF that] .
    show "data c2 key = data ctx key" if "key \<notin> {''dest_socket_addr'', ''dest_domain''}" for key
      using kept [OF that] .
  qed (simp_all add: call r c2(1) dsa wrap_tcp_def del: net_call.simps split: sum.splits)
qed

text \<open>C6: a connection to a transparent server (redir or tproxy), across the server, its net, the rule
  engine, the connection manager and the relay. For a client \<open>peer\<close> and an original destination
  \<open>dst\<close> the rule engine matches exactly these two: the source address of the client and the
  destination. The net of the first rule that matches is asked once, for \<open>dst\<close>, with a context
  that holds both addresses and whose net list is the server's name; without a matching rule, or when that net fails,
  the task ends with the error and no connection is registered; when it succeeds the stream is
  registered as a connection to \<open>dst\<close> under a fresh uuid, and the client is relayed with it.\<close>

theorem transparent_connection_is_routed:
  assumes rule: "ext_provides E q = rule_provides"
      "ext_prog E q = rule_prog env cd lru get_rn put_rn lazy_udp (length ns)"
    and cache: "lru_laws lru content"
      "cache_ok env content (rules (get_rn (outer w))) (cache (get_rn (outer w)))"
    and targets: "\<forall>it \<in> set (rules (get_rn (outer w))). target it < length ns"
    and codec: "cd = (addr_ser E, addr_de E)" "addr_ser E dst = Inr j" "addr_de E j = Inr dst"
      "addr_ser E peer = Inr i" "addr_de E i = Inr peer"
    and dest: "dest socket = Inr dst"
  shows "\<exists>ctx' w' mc. from_context_address cd ctx' (SocketAddr dst) = Inr mc \<and>
    mc = \<lparr>mc_address = SocketAddr dst, mc_src_ip_addr = Some (sa_ip peer), mc_dest_socket_addr = Some dst,
          mc_dest_domain = None\<rparr> \<and>
    strings (net_list ctx') = [s] \<and> conns w' = conns w \<and> next_uuid w' = next_uuid w \<and>
    transparent_serve_connection dest (Suc (Suc k)) E H (RunningServerNet s (Ext q ns)) relay socket peer w =
      (case first_match env (rules (get_rn (outer w))) mc of
         Inl e \<Rightarrow> Some (Ret (Inl e), w')
       | Inr it \<Rightarrow>
           (case net_call k E H (ns ! target it) TcpConnect (SocketAddr dst) ctx' w' of
              None \<Rightarrow> None
            | Some (Inl e, _, v) \<Rightarrow> Some (Ret (Inl e), v)
            | Some (Inr h, c, v) \<Rightarrow>
                (case relay c socket (WrapTcpStream h (next_uuid v))
                    (v\<lparr>conns := sys_step (conns v) (AOpenTcp (next_uuid v) (SocketAddr dst) c (clock v)),
                       next_uuid := next_uuid v + 1\<rparr>) of
                   (r, v') \<Rightarrow> Some (Ret r, v'))))"
proof -
  obtain c0 where c0: "from_socketaddr (addr_ser E) (addr_de E) peer = Ret c0"
    "data c0 = [''src_socket_addr'' \<mapsto> i]" "net_list c0 = net_list context_new"
    using codec(4)
    by (intro that [of "context_new\<lparr>data := [''src_socket_addr'' \<mapsto> i]\<rparr>"])
       (simp_all add: from_socketaddr_def insert_common_def ctx_insert_def src_socket_addr_field_def
        context_new_def)
  obtain c1 where c1: "insert_dest E (SocketAddr dst) (append_net s c0) = (Inr (), c1)"
    "net_list c1 = net_list (append_net s c0)"
    "get_common (dest_socket_addr_field (addr_ser E) (addr_de E)) c1 = Inr (Some dst)"
    "\<forall>key. key \<noteq> ''dest_socket_addr'' \<longrightarrow> data c1 key = data (append_net s c0) key"
    using insert_dest_socket_addr [OF codec(2,3)] by blast
  let ?mc = "\<lparr>mc_address = SocketAddr dst, mc_src_ip_addr = Some (sa_ip peer),
      mc_dest_socket_addr = Some dst, mc_dest_domain = None\<rparr>"
  have mc: "from_context_address cd c1 (SocketAddr dst) = Inr ?mc"
    using c1(3,4) c0(2) codec
    by (simp add: from_context_address_def get_common_def ctx_get_def src_socket_addr_field_def
        dest_socket_addr_field_def dest_domain_field_def append_net_def to_normalized_def)
  obtain r where r: "net_call (Suc k) E H (Ext q ns) TcpConnect (SocketAddr dst) c1 w =
      (case and_then (from_context_address cd c1 (SocketAddr dst)) (first_match env (rules (get_rn (outer w)))) of
         Inl e \<Rightarrow> Some (Inl e, c1, w\<lparr>outer := put_rn r (outer w)\<rparr>)
       | Inr it \<Rightarrow> net_call k E H (ns ! target it) TcpConnect (SocketAddr dst) c1
           (w\<lparr>outer := put_rn r (outer w)\<rparr>))"
    using rule_call [OF rule cache targets, of k H "SocketAddr dst" c1] by blast
  have n: "strings (net_list c1) = [s]"
    using append_nets [OF context_inv_new, of "[s]"] c1(2) c0(3)
    by (simp add: append_net_def context_new_def cvs.abs_new)
  show ?thesis
  proof (intro exI [of _ c1] exI [of _ "w\<lparr>outer := put_rn r (outer w)\<rparr>"] exI [of _ ?mc] conjI)
    show "transparent_serve_connection dest (Suc (Suc k)) E H (RunningServerNet s (Ext q ns)) relay socket
        peer w =
      (case first_match env (rules (get_rn (outer w))) ?mc of
         Inl e \<Rightarrow> Some (Ret (Inl e), w\<lparr>outer := put_rn r (outer w)\<rparr>)
       | Inr it \<Rightarrow>
           (case net_call k E H (ns ! target it) TcpConnect (SocketAddr dst) c1
                (w\<lparr>outer := put_rn r (outer w)\<rparr>) of
              None \<Rightarrow> None
            | Some (Inl e, _, v) \<Rightarrow> Some (Ret (Inl e), v)
            | Some (Inr h, c, v) \<Rightarrow>
                (case relay c socket (WrapTcpStream h (next_uuid v))
                    (v\<lparr>conns := sys_step (conns v) (AOpenTcp (next_uuid v) (SocketAddr dst) c (clock v)),
                       next_uuid := next_uuid v + 1\<rparr>) of
                   (r, v') \<Rightarrow> Some (Ret r, v'))))"
      unfolding transparent_serve_connection_def connect_and_relay_def dest server_call c0(1) c1(1)
        r mc outcome.case sum.case prod.case and_then.simps
      by (auto simp: wrap_tcp_def simp del: net_call.simps
          split: sum.splits option.splits prod.splits)
  qed (use mc n in simp_all)
qed

section \<open>Witness\<close>

text \<open>A sniffer that has heard the answer of \<^verbatim>\<open>RD_Sniffer\<close> over a rule engine that sends
  \<open>.com\<close> to a net that accepts \<open>a.com:443\<close>, and everything else nowhere.\<close>

type_synonym demo_state =
  "(ip_addr \<Rightarrow> string option, string \<Rightarrow> string option) reverse_lookup \<times>
   (nat, unit, match_context \<Rightarrow> nat option) rule_net"

definition demo_routes :: "(nat, unit) rule_item list" where
  "demo_routes =
     [\<lparr>target_name = ''com'', target = 1,
        ri_matcher = MDomain \<lparr>dm_method = Suffix, dm_domain = cvs_from_iter [''.com'']\<rparr>\<rparr>,
      \<lparr>target_name = ''rest'', target = 0, ri_matcher = MAny\<rparr>]"

definition demo_route_ops :: "(nat, unit, demo_state) ext_ops" where
  "demo_route_ops =
     \<lparr>ext_provides = (\<lambda>p. if p = 0 then sniffer_provides else if p = 1 then rule_provides else (\<lambda>_. True)),
      ext_prog = (\<lambda>p. if p = 0 then sniffer_prog demo_caches fst (\<lambda>rl x. (rl, snd x)) (\<lambda>i. i)
        else if p = 1 then
          rule_prog RD_Rule.demo_env text_codec map_lru snd (\<lambda>r x. (fst x, r)) (\<lambda>_ _. Inner ()) (length [(), ()])
        else (\<lambda>op a ctx x.
          prog.Done (if a = Domain ''a.com'' 443 then Inr (Inner ()) else Inl Timeout) ctx x)),
      addr_ser = fst text_codec, addr_de = snd text_codec\<rparr>"

definition demo_world :: "demo_state world" where
  "demo_world =
     \<lparr>conns = sys_init, next_uuid = 0, clock = 0,
      outer = (sniff_step demo_decoder demo_caches demo_dns demo_rl,
               \<lparr>rules = demo_routes, cache = (\<lambda>_. None)\<rparr>)\<rparr>"

lemma demo_route_domain:
  assumes "get_domain mc = Some (''a.com'', p)"
  shows "first_match env demo_routes mc = Inr (demo_routes ! 0)"
  using assms
  by (intro first_match_index)
     (simp add: is_first_match_def demo_routes_def domain_test_iff entry_matches_def suffix_def)

theorem sniffed_connection_is_routed_witness:
  "\<exists>ctx' w'. net_call 4 demo_route_ops (\<lambda>_. None)
     (RunningServerNet ''socks'' (sniffer_net 0 (Ext 1 [NotImplementedNet, Ext 2 []]))) TcpConnect
     (SocketAddr (SV4 (Ipv4 10 0 0 1) 443)) context_new demo_world =
     Some (Inr (WrapTcpStream (Inner ()) 0), ctx', w') \<and> strings (net_list ctx') = [''socks'']"
proof -
  let ?sa = "SV4 (Ipv4 10 0 0 1) 443"
  let ?ns = "[NotImplementedNet, Ext 2 []] :: nat net list"
  have l: "rl_reverse_lookup demo_caches (sa_ip ?sa) (fst (outer demo_world)) =
      (Some ''a.com'', fst (outer demo_world))"
    unfolding demo_world_def
    by (simp only: demo_sniffed world.simps fst_conv)
       (simp add: rl_reverse_lookup_def demo_caches_def map_lru_def cname_walk.simps [of _ _ "''a.com''"])
  have j: "addr_ser demo_route_ops ?sa = Inr (JString (show_socket_addr ?sa))"
    "addr_de demo_route_ops (JString (show_socket_addr ?sa)) = Inr ?sa"
    by (simp_all only: demo_route_ops_def text_codec_def ext_ops.simps fst_conv snd_conv json.case
        parse_socket_addr_show_v4 ok_or.simps)
  have fields: "rules (snd (outer demo_world)) = demo_routes" "conns demo_world = sys_init"
    "next_uuid demo_world = 0"
    by (simp_all add: demo_world_def)
  have ops: "ext_provides demo_route_ops 0 = sniffer_provides" "ext_provides demo_route_ops 1 = rule_provides"
    "ext_prog demo_route_ops 0 = sniffer_prog demo_caches fst (\<lambda>rl x. (rl, snd x)) (\<lambda>i. i)"
    "ext_prog demo_route_ops 1 =
       rule_prog RD_Rule.demo_env text_codec map_lru snd (\<lambda>r x. (fst x, r)) (\<lambda>_ _. Inner ()) (length ?ns)"
    "text_codec = (addr_ser demo_route_ops, addr_de demo_route_ops)"
    by (simp_all add: demo_route_ops_def)
  have ok: "cache_ok RD_Rule.demo_env (\<lambda>c. c) (rules (snd (outer demo_world))) (cache (snd (outer demo_world)))"
    "\<forall>it \<in> set (rules (snd (outer demo_world))). target it < length ?ns"
    by (simp_all add: cache_ok_def demo_world_def demo_routes_def)
  have snd_kept: "snd (rl, snd x) = snd x" for rl and x :: demo_state by simp
  note route = sniffed_connection_is_routed [where s = "''socks''" and k = 1 and H = "\<lambda>_. None",
      OF ops(1,3,2,4) snd_kept map_lru_laws ok ops(5) j l context_inv_new]
  obtain ctx' w' where n: "strings (net_list ctx') = strings (net_list context_new) @ [''socks'']"
    and mc: "\<forall>mc. from_context_address text_codec ctx' (Domain ''a.com'' 443) = Inr mc \<longrightarrow>
       get_domain mc = Some (''a.com'', 443)"
    and kept: "\<forall>key. key \<notin> {''dest_socket_addr'', ''dest_domain''} \<longrightarrow> data ctx' key = data context_new key"
    and dd: "get_common dest_domain_field ctx' = Inr (Some \<lparr>ad_domain = ''a.com'', ad_port = 443\<rparr>)"
    and ds: "get_common (dest_socket_addr_field (fst text_codec) (snd text_codec)) ctx' = Inr (Some ?sa)"
    and u: "next_uuid w' = 0"
    and c: "net_call (Suc (Suc (Suc 1))) demo_route_ops (\<lambda>_. None)
       (RunningServerNet ''socks'' (sniffer_net 0 (Ext 1 ?ns))) TcpConnect
       (SocketAddr ?sa) context_new demo_world =
       (case and_then (from_context_address text_codec ctx' (Domain ''a.com'' 443)) (first_match RD_Rule.demo_env demo_routes) of
          Inl e \<Rightarrow> Some (Inl e, ctx', w')
        | Inr it \<Rightarrow> map_option (wrap_tcp (SocketAddr ?sa))
            (net_call 1 demo_route_ops (\<lambda>_. None) (?ns ! target it) TcpConnect (Domain ''a.com'' 443) ctx' w'))"
    using route unfolding fields sa_port.simps by (elim exE conjE) (rule that; (assumption | blast))
  from kept have "get_common (src_socket_addr_field (fst text_codec) (snd text_codec)) ctx' = Inr None"
    by (simp add: get_common_def ctx_get_def src_socket_addr_field_def context_new_def)
  with dd ds obtain m where m: "from_context_address text_codec ctx' (Domain ''a.com'' 443) = Inr m"
    by (simp add: from_context_address_def)
  then have f: "first_match RD_Rule.demo_env demo_routes m = Inr (demo_routes ! 0)" using mc demo_route_domain by blast
  have i: "net_call 1 demo_route_ops (\<lambda>_. None) (?ns ! target (demo_routes ! 0)) TcpConnect
      (Domain ''a.com'' 443) ctx' w' = Some (Inr (Inner ()), ctx', w')"
    by (simp add: demo_routes_def demo_route_ops_def)
  have k: "Suc (Suc (Suc 1)) = (4 :: nat)" by simp
  have e: "strings (net_list context_new) = []" by (simp add: context_new_def cvs.abs_new)
  from c n u show ?thesis
    unfolding k m and_then.simps f sum.case i e by (auto simp: wrap_tcp_def)
qed

text \<open>A redir server over one rule that sends everything to a net that accepts everything.\<close>

definition demo_redir_ops :: "(nat, unit, (nat, unit, match_context \<Rightarrow> nat option) rule_net) ext_ops" where
  "demo_redir_ops =
     \<lparr>ext_provides = (\<lambda>p. if p = 1 then rule_provides else (\<lambda>_. True)),
      ext_prog = (\<lambda>p. if p = 1 then
          rule_prog RD_Rule.demo_env text_codec map_lru (\<lambda>x. x) (\<lambda>r x. r) (\<lambda>_ _. Inner ()) (length [()])
        else (\<lambda>op a ctx x. prog.Done (Inr (Inner ())) ctx x)),
      addr_ser = fst text_codec, addr_de = snd text_codec\<rparr>"

definition demo_any :: "(nat, unit) rule_item list" where
  "demo_any = [\<lparr>target_name = ''any'', target = 0, ri_matcher = MAny\<rparr>]"

definition demo_redir_world :: "(nat, unit, match_context \<Rightarrow> nat option) rule_net world" where
  "demo_redir_world =
     \<lparr>conns = sys_init, next_uuid = 0, clock = 0, outer = \<lparr>rules = demo_any, cache = (\<lambda>_. None)\<rparr>\<rparr>"

theorem transparent_connection_is_routed_witness:
  "\<exists>w'. transparent_serve_connection (\<lambda>_. Inr (SV4 (Ipv4 10 0 0 1) 443)) 3 demo_redir_ops (\<lambda>_. None)
     (RunningServerNet ''redir'' (Ext 1 [Ext 2 []])) (\<lambda>c s h w. (Inr (), w)) ()
     (SV4 (Ipv4 10 0 0 2) 4000) demo_redir_world = Some (Ret (Inr ()), w') \<and> next_uuid w' = 1"
proof -
  let ?dst = "SV4 (Ipv4 10 0 0 1) 443" and ?peer = "SV4 (Ipv4 10 0 0 2) 4000"
  let ?ns = "[Ext 2 []] :: nat net list"
  have ops: "ext_provides demo_redir_ops 1 = rule_provides"
    "ext_prog demo_redir_ops 1 =
       rule_prog RD_Rule.demo_env text_codec map_lru (\<lambda>x. x) (\<lambda>r x. r) (\<lambda>_ _. Inner ()) (length ?ns)"
    "text_codec = (addr_ser demo_redir_ops, addr_de demo_redir_ops)"
    by (simp_all add: demo_redir_ops_def)
  have ok: "cache_ok RD_Rule.demo_env (\<lambda>c. c) (rules (outer demo_redir_world)) (cache (outer demo_redir_world))"
    "\<forall>it \<in> set (rules (outer demo_redir_world)). target it < length ?ns"
    by (simp_all add: cache_ok_def demo_redir_world_def demo_any_def)
  have j: "addr_ser demo_redir_ops (SV4 a p) = Inr (JString (show_socket_addr (SV4 a p)))"
    "addr_de demo_redir_ops (JString (show_socket_addr (SV4 a p))) = Inr (SV4 a p)" for a p
    by (simp_all only: demo_redir_ops_def text_codec_def ext_ops.simps fst_conv snd_conv json.case
        parse_socket_addr_show_v4 ok_or.simps)
  note route = transparent_connection_is_routed [where s = "''redir''" and k = 1 and H = "\<lambda>_. None"
      and relay = "\<lambda>c s h w. (Inr (), w)" and dest = "\<lambda>_. Inr ?dst" and socket = "()" and dst = ?dst
      and peer = ?peer and get_rn = "\<lambda>x. x" and w = demo_redir_world and ns = ?ns,
      OF ops(1,2) map_lru_laws ok ops(3) j(1) j(2) j(1) j(2) refl]
  have rules: "rules (outer demo_redir_world) = demo_any" "next_uuid demo_redir_world = 0"
    by (simp_all add: demo_redir_world_def)
  have f: "first_match RD_Rule.demo_env demo_any mc = Inr (demo_any ! 0)" for mc
    by (intro first_match_index) (simp add: is_first_match_def demo_any_def)
  have i: "net_call 1 demo_redir_ops (\<lambda>_. None) (?ns ! target (demo_any ! 0)) TcpConnect
      (SocketAddr ?dst) c v = Some (Inr (Inner ()), c, v\<lparr>outer := outer v\<rparr>)" for c v
    by (simp add: demo_any_def demo_redir_ops_def)
  have k: "Suc (Suc 1) = (3 :: nat)" by simp
  from route show ?thesis
    unfolding rules f sum.case i k by (elim exE conjE) (auto simp del: net_call.simps)
qed

end
